(* ===== verification/Prelude.thy ===== *)
theory Prelude
  imports Main "HOL-Library.Monad_Syntax" "HOL-Library.Word"
begin

text \<open>
  What every component of the development shares.

  \<^item> Panics. A Rust computation that may panic is a value of an option type: \<open>None\<close> is the
    panic, and \<open>do\<close>-blocks of the option monad thread it. A Rust \<open>Result\<close> is a sum inside
    the option (\<open>Inl\<close> the error), so errors and panics stay apart.
  \<^item> Machine integers. Unsigned integers are \<open>nat\<close>, and every \<open>+\<close>, \<open>-\<close>, \<open>*\<close>, \<open>/\<close> of the
    source is an operation at its width that panics where the result does not fit (the
    behaviour of a build with overflow checks). \<open>word_add_checked\<close> and its kin state that
    whenever such an operation returns, the wrapping operation on words returns the same
    number, so a run that returns here is also the run of a build without the checks.
  \<^item> \<open>BTreeMap\<close>. An ordered map is the list of its entries in key order, and iteration is the
    list itself. The locale \<open>ordered_map\<close> is the interface, interpreted on these lists.
\<close>

named_theorems monad_simps \<open>unfolding option do-blocks that return\<close>
named_theorems arith_checked \<open>what a checked operation returns\<close>

section \<open>Panics\<close>

text \<open>The option monad: a do-block that returns has returned at each step.\<close>

lemma bind_SomeD [monad_simps]:
  "(Option.bind m f = Some r) = (\<exists>x. m = Some x \<and> f x = Some r)"
  by (simp add: bind_eq_Some_conv)

lemma if_None_else_SomeD [monad_simps]:
  "((if b then None else m) = Some r) = (\<not> b \<and> m = Some r)"
  "((if b then m else None) = Some r) = (b \<and> m = Some r)"
  by auto

section \<open>Checked machine arithmetic\<close>

type_synonym u128 = nat
type_synonym u64 = nat

definition fits :: "nat \<Rightarrow> nat \<Rightarrow> nat option" where
  "fits w x = (if x < 2 ^ w then Some x else None)"

definition add_w :: "nat \<Rightarrow> nat \<Rightarrow> nat \<Rightarrow> nat option" where
  "add_w w a b = fits w (a + b)"

definition sub_w :: "nat \<Rightarrow> nat \<Rightarrow> nat option" where
  "sub_w a b = (if b \<le> a then Some (a - b) else None)"

definition mul_w :: "nat \<Rightarrow> nat \<Rightarrow> nat \<Rightarrow> nat option" where
  "mul_w w a b = fits w (a * b)"

text \<open>Division panics on zero in every build.\<close>

definition div_w :: "nat \<Rightarrow> nat \<Rightarrow> nat option" where
  "div_w a b = (if b = 0 then None else Some (a div b))"

abbreviation "add128 \<equiv> add_w 128"
abbreviation "mul128 \<equiv> mul_w 128"
abbreviation "add64 \<equiv> add_w 64"
abbreviation "mul64 \<equiv> mul_w 64"

lemma fits_Some [arith_checked]: "(fits w x = Some y) = (x < 2 ^ w \<and> y = x)"
  by (auto simp: fits_def)

lemma add_w_Some [arith_checked]: "(add_w w a b = Some c) = (a + b < 2 ^ w \<and> c = a + b)"
  by (auto simp: add_w_def fits_def)

lemma sub_w_Some [arith_checked]: "(sub_w a b = Some c) = (b \<le> a \<and> c = a - b)"
  by (auto simp: sub_w_def)

lemma mul_w_Some [arith_checked]: "(mul_w w a b = Some c) = (a * b < 2 ^ w \<and> c = a * b)"
  by (auto simp: mul_w_def fits_def)

lemma div_w_Some [arith_checked]: "(div_w a b = Some c) = (b \<noteq> 0 \<and> c = a div b)"
  by (auto simp: div_w_def)

lemma div_w_zero [simp]: "div_w a 0 = None"
  by (simp add: div_w_def)

text \<open>A checked result is the wrapping result on words.\<close>

lemma word_add_checked:
  assumes "add_w LENGTH('l::len) (unat a) (unat b) = Some c"
  shows "unat (a + b :: 'l word) = c"
  using assms by (auto simp: add_w_Some unat_word_ariths)

lemma word_sub_checked:
  assumes "sub_w (unat a) (unat b) = Some c"
  shows "unat (a - b :: 'l::len word) = c"
  using assms by (auto simp: sub_w_Some unat_sub word_le_nat_alt)

lemma word_mul_checked:
  assumes "mul_w LENGTH('l::len) (unat a) (unat b) = Some c"
  shows "unat (a * b :: 'l word) = c"
  using assms by (auto simp: mul_w_Some unat_word_ariths)

section \<open>Numbers as texts\<close>

fun decimal :: "nat \<Rightarrow> string" where
  "decimal n = (if n < 10 then [char_of (48 + n)] else decimal (n div 10) @ [char_of (48 + n mod 10)])"

section \<open>Ordered maps\<close>

type_synonym ('k, 'v) btree_map = "('k \<times> 'v) list"

definition bt_get :: "('k, 'v) btree_map \<Rightarrow> 'k \<Rightarrow> 'v option" where
  "bt_get m k = map_of m k"

fun bt_put :: "'k::linorder \<Rightarrow> 'v \<Rightarrow> ('k, 'v) btree_map \<Rightarrow> ('k, 'v) btree_map" where
  "bt_put k v [] = [(k, v)]"
| "bt_put k v (e # m) =
     (if fst e < k then e # bt_put k v m
      else if fst e = k then (k, v) # m
      else (k, v) # e # m)"

definition bt_del :: "'k \<Rightarrow> ('k, 'v) btree_map \<Rightarrow> ('k, 'v) btree_map" where
  "bt_del k m = filter (\<lambda>e. fst e \<noteq> k) m"

definition bt_keys :: "('k, 'v) btree_map \<Rightarrow> 'k list" where
  "bt_keys m = map fst m"

definition bt_vals :: "('k, 'v) btree_map \<Rightarrow> 'v list" where
  "bt_vals m = map snd m"

definition bt_ok :: "('k::linorder, 'v) btree_map \<Rightarrow> bool" where
  "bt_ok m = sorted_wrt (<) (map fst m)"

text \<open>\<open>entry(k).or_default()\<close> reads the stored value or the default.\<close>

definition bt_or :: "'v \<Rightarrow> ('k, 'v) btree_map \<Rightarrow> 'k \<Rightarrow> 'v" where
  "bt_or d m k = (case bt_get m k of Some v \<Rightarrow> v | None \<Rightarrow> d)"

lemma bt_get_Nil [simp]: "bt_get [] k = None"
  by (simp add: bt_get_def)

lemma bt_get_put [simp]: "bt_get (bt_put k v m) k' = (if k' = k then Some v else bt_get m k')"
  by (induction m) (auto simp: bt_get_def)

lemma bt_get_del [simp]: "bt_get (bt_del k m) k' = (if k' = k then None else bt_get m k')"
  by (induction m) (auto simp: bt_get_def bt_del_def)

lemma bt_or_put [simp]: "bt_or d (bt_put k v m) k' = (if k' = k then v else bt_or d m k')"
  by (simp add: bt_or_def)

lemma fst_bt_put: "fst ` set (bt_put k v m) = insert k (fst ` set m)"
  by (induction m) auto

lemma bt_ok_Nil [simp]: "bt_ok []"
  by (simp add: bt_ok_def)

lemma bt_ok_Cons: "bt_ok (e # m) = ((\<forall>k \<in> fst ` set m. fst e < k) \<and> bt_ok m)"
  by (auto simp: bt_ok_def)

lemma bt_ok_put [simp, intro]: "bt_ok m \<Longrightarrow> bt_ok (bt_put k v m)"
proof (induction m)
  case Nil
  then show ?case by (simp add: bt_ok_def)
next
  case (Cons e m)
  consider "fst e < k" | "fst e = k" | "k < fst e" by force
  then show ?case
  proof cases
    case 1
    with Cons show ?thesis by (simp add: bt_ok_Cons fst_bt_put)
  next
    case 2
    with Cons show ?thesis by (simp add: bt_ok_Cons)
  next
    case 3
    then have "\<not> fst e < k" and "fst e \<noteq> k" by auto
    moreover have "bt_ok ((k, v) # e # m)"
      using 3 Cons.prems by (auto simp: bt_ok_Cons [of "(k, v)"] bt_ok_Cons [of e])
    ultimately show ?thesis by simp
  qed
qed

lemma bt_ok_del [simp, intro]: "bt_ok m \<Longrightarrow> bt_ok (bt_del k m)"
  unfolding bt_ok_def bt_del_def
  by (induction m) auto

lemma bt_ok_distinct: "bt_ok m \<Longrightarrow> distinct (map fst m)"
  unfolding bt_ok_def using strict_sorted_iff by blast

lemma bt_get_SomeD: "bt_get m k = Some v \<Longrightarrow> (k, v) \<in> set m"
  by (simp add: bt_get_def map_of_SomeD)

lemma bt_get_iff: "bt_ok m \<Longrightarrow> (bt_get m k = Some v) = ((k, v) \<in> set m)"
  by (simp add: bt_get_def bt_ok_distinct)

lemma bt_get_None: "(bt_get m k = None) = (k \<notin> fst ` set m)"
  by (simp add: bt_get_def map_of_eq_None_iff)

lemma bt_put_same: "bt_ok m \<Longrightarrow> bt_get m k = Some v \<Longrightarrow> bt_put k v m = m"
proof (induction m)
  case (Cons e m)
  then have "bt_ok m" by (simp add: bt_ok_Cons)
  moreover have "\<not> k < fst e"
    using Cons.prems by (fastforce dest!: bt_get_SomeD simp: bt_ok_Cons)
  ultimately show ?case
    using Cons by (cases e) (auto simp: bt_get_def split: if_splits)
qed simp

text \<open>The interface a client of an ordered map relies on.\<close>

locale ordered_map =
  fixes get :: "'m \<Rightarrow> 'k::linorder \<Rightarrow> 'v option"
    and put :: "'k \<Rightarrow> 'v \<Rightarrow> 'm \<Rightarrow> 'm"
    and del :: "'k \<Rightarrow> 'm \<Rightarrow> 'm"
    and keys :: "'m \<Rightarrow> 'k list"
    and ok :: "'m \<Rightarrow> bool"
  assumes get_put: "get (put k v m) k' = (if k' = k then Some v else get m k')"
    and get_del: "get (del k m) k' = (if k' = k then None else get m k')"
    and ok_put: "ok m \<Longrightarrow> ok (put k v m)"
    and ok_del: "ok m \<Longrightarrow> ok (del k m)"
    and keys_sorted: "ok m \<Longrightarrow> sorted_wrt (<) (keys m)"
    and keys_get: "(k \<in> set (keys m)) = (get m k \<noteq> None)"
begin

lemma put_get_same: "get (put k v m) k = Some v"
  by (simp add: get_put)

lemma put_frame: "k' \<noteq> k \<Longrightarrow> get (put k v m) k' = get m k'"
  by (simp add: get_put)

lemma del_put: "get m k = None \<Longrightarrow> get (del k (put k v m)) = get m"
  by (rule ext) (simp add: get_put get_del)

lemma keys_put: "set (keys (put k v m)) = insert k (set (keys m))"
  by (simp add: set_eq_iff keys_get get_put)

lemma keys_del: "set (keys (del k m)) = set (keys m) - {k}"
  by (simp add: set_eq_iff keys_get get_del)

lemma keys_distinct: "ok m \<Longrightarrow> distinct (keys m)"
  using keys_sorted strict_sorted_iff by blast

text \<open>Two well-formed maps with the same lookups list the same keys in the same order.\<close>

lemma keys_determined:
  assumes "ok m" and "ok m'" and "get m = get m'"
  shows "keys m = keys m'"
proof -
  have "set (keys m) = set (keys m')"
    using assms(3) by (auto simp: keys_get)
  moreover have "sorted (keys m)" "sorted (keys m')" "distinct (keys m)" "distinct (keys m')"
    using assms(1,2) keys_sorted keys_distinct strict_sorted_iff by blast+
  ultimately show ?thesis
    using sorted_distinct_set_unique by blast
qed

end

lemma bt_keys_get: "(k \<in> set (bt_keys m)) = (bt_get m k \<noteq> None)"
  by (auto simp: bt_keys_def bt_get_def map_of_eq_None_iff)

interpretation bt: ordered_map bt_get bt_put bt_del bt_keys bt_ok
  by unfold_locales (simp_all add: bt_keys_get bt_ok_put bt_ok_del, simp add: bt_ok_def bt_keys_def)

subsection \<open>Sums over the values of a map\<close>

definition bt_sum :: "('k, nat) btree_map \<Rightarrow> nat" where
  "bt_sum m = sum_list (map snd m)"

lemma bt_sum_Nil [simp]: "bt_sum [] = 0"
  by (simp add: bt_sum_def)

lemma bt_get_smaller: "bt_ok (e # m) \<Longrightarrow> k \<le> fst e \<Longrightarrow> bt_get m k = None"
  by (force simp: bt_ok_def bt_get_None)

text \<open>Storing a value replaces the old value (or 0) in the sum.\<close>

lemma bt_sum_put:
  assumes "bt_ok m"
  shows "bt_sum (bt_put k v m) + bt_or 0 m k = bt_sum m + v"
  using assms
proof (induction m)
  case Nil
  then show ?case by (simp add: bt_sum_def bt_or_def)
next
  case (Cons e m)
  then have ok: "bt_ok m" by (simp add: bt_ok_def)
  show ?case
  proof (cases "fst e < k")
    case True
    with Cons.IH [OF ok] show ?thesis
      by (cases e) (auto simp: bt_sum_def bt_or_def bt_get_def)
  next
    case False
    then have "k < fst e \<or> k = fst e" by auto
    moreover have "bt_get m k = None"
      using bt_get_smaller [OF Cons.prems] False by auto
    ultimately show ?thesis
      by (cases e) (auto simp: bt_sum_def bt_or_def bt_get_def)
  qed
qed

lemma bt_or_le_sum: "bt_or 0 m k \<le> bt_sum m"
  by (induction m) (auto simp: bt_or_def bt_get_def bt_sum_def split: option.splits)

section \<open>Lists\<close>

text \<open>\<open>iter().map(f).collect::<Result<Vec<_>, _>>()\<close>: the first error ends the iteration.\<close>

fun collect_results :: "('a \<Rightarrow> 'e + 'b) \<Rightarrow> 'a list \<Rightarrow> 'e + 'b list" where
  "collect_results f [] = Inr []"
| "collect_results f (x # xs) =
     (case f x of Inl e \<Rightarrow> Inl e
      | Inr y \<Rightarrow> (case collect_results f xs of Inl e \<Rightarrow> Inl e | Inr ys \<Rightarrow> Inr (y # ys)))"

lemma collect_results_Inr: "(\<And>x. x \<in> set xs \<Longrightarrow> f x = Inr (g x)) \<Longrightarrow> collect_results f xs = Inr (map g xs)"
  by (induction xs) simp_all

lemma distinct_remdups_adj_sorted: "sorted xs \<Longrightarrow> distinct (remdups_adj xs)"
  by (induction xs rule: remdups_adj.induct) (auto simp: order_le_less)

text \<open>A checked sum, as \<open>iter().sum()\<close> computes it from left to right.\<close>

fun sum_w :: "nat \<Rightarrow> nat \<Rightarrow> nat list \<Rightarrow> nat option" where
  "sum_w w acc [] = Some acc"
| "sum_w w acc (x # xs) = do { acc' \<leftarrow> add_w w acc x; sum_w w acc' xs }"

lemma sum_w_Some [arith_checked]:
  "(sum_w w acc xs = Some s) = (s = acc + sum_list xs \<and> (xs \<noteq> [] \<longrightarrow> s < 2 ^ w))"
proof (induction xs arbitrary: acc)
  case Nil
  then show ?case by auto
next
  case (Cons x xs)
  show ?case
    unfolding sum_w.simps bind_SomeD Cons.IH add_w_Some
    by (cases "xs = []") auto
qed

text \<open>A map whose function may panic.\<close>

fun map_opt :: "('a \<Rightarrow> 'b option) \<Rightarrow> 'a list \<Rightarrow> 'b list option" where
  "map_opt f [] = Some []"
| "map_opt f (x # xs) = do { y \<leftarrow> f x; ys \<leftarrow> map_opt f xs; Some (y # ys) }"

lemma map_opt_Some:
  "(map_opt f xs = Some ys) = list_all2 (\<lambda>x y. f x = Some y) xs ys"
  by (induction xs arbitrary: ys) (auto simp: monad_simps list_all2_Cons1)

text \<open>A loop over a list with a state that may panic.\<close>

fun fold_opt :: "('a \<Rightarrow> 's \<Rightarrow> 's option) \<Rightarrow> 'a list \<Rightarrow> 's \<Rightarrow> 's option" where
  "fold_opt f [] s = Some s"
| "fold_opt f (x # xs) s = do { s' \<leftarrow> f x s; fold_opt f xs s' }"

lemma fold_opt_append:
  "fold_opt f (xs @ ys) s = do { s' \<leftarrow> fold_opt f xs s; fold_opt f ys s' }"
  by (induction xs arbitrary: s) (auto split: Option.bind_splits)

lemma fold_opt_invariant:
  assumes "fold_opt f xs s = Some s'" and "P s"
    and "\<And>x s s'. x \<in> set xs \<Longrightarrow> P s \<Longrightarrow> f x s = Some s' \<Longrightarrow> P s'"
  shows "P s'"
  using assms
proof (induction xs arbitrary: s)
  case Nil
  then show ?case by simp
next
  case (Cons x xs)
  from Cons.prems(1) obtain t where "f x s = Some t" and t: "fold_opt f xs t = Some s'"
    by (auto simp: monad_simps)
  with Cons.prems have "P t" by auto
  with t show ?case
    by (rule Cons.IH) (use Cons.prems(3) in auto)
qed

end
