(* ===== verification/Identifiers.thy ===== *)
theory Identifiers
  imports Prelude
begin

text \<open>
  The identifiers of the board (\<open>common/mine-with-friends-board/src/entity.rs\<close>, and the pointer
  types of \<open>tokens/mod.rs\<close>, \<open>nfts/mod.rs\<close> and \<open>tokens/token_swap.rs\<close>): \<open>EntityID\<close>, its
  allocator, \<open>TokenPointer\<close>, \<open>NftPtr\<close> and \<open>TradingPairID\<close>, with the orders the source derives
  and their text form. An \<open>EntityID\<close> is written in hexadecimal and read back by
  \<open>u64::from_str_radix(_, 16)\<close>, a trading pair as two of them around a colon.
\<close>

section \<open>Entity ids\<close>

datatype EntityID = EntityID (eid: u64)

instantiation EntityID :: linorder
begin
definition less_eq_EntityID :: "EntityID \<Rightarrow> EntityID \<Rightarrow> bool" where
  "less_eq_EntityID a b = (eid a \<le> eid b)"
definition less_EntityID :: "EntityID \<Rightarrow> EntityID \<Rightarrow> bool" where
  "less_EntityID a b = (eid a < eid b)"
instance
  by standard (auto simp: less_eq_EntityID_def less_EntityID_def EntityID.expand)
end

lemma EntityID_le_simps [simp]:
  "(EntityID m \<le> EntityID n) = (m \<le> n)"
  "(EntityID m < EntityID n) = (m < n)"
  by (simp_all add: less_eq_EntityID_def less_EntityID_def)

definition is_valid :: "EntityID \<Rightarrow> bool" where
  "is_valid a = (eid a \<noteq> 0)"

subsection \<open>The allocator\<close>

datatype EntityIDAllocator = EntityIDAllocator (last_id: u64)

definition new_allocator :: EntityIDAllocator where
  "new_allocator = EntityIDAllocator 0x000c0de0000"

definition alloc_make :: "EntityIDAllocator \<Rightarrow> (EntityID \<times> EntityIDAllocator) option" where
  "alloc_make al = do {
     n \<leftarrow> add64 (last_id al) 1;
     Some (EntityID n, EntityIDAllocator n)
   }"

lemma alloc_make_Some [monad_simps]:
  "(alloc_make al = Some (i, al')) =
     (last_id al + 1 < 2 ^ 64 \<and> i = EntityID (last_id al + 1) \<and> al' = EntityIDAllocator (last_id al + 1))"
  by (auto simp: alloc_make_def monad_simps arith_checked)

text \<open>What a user of the allocator relies on: a fresh id is above every id handed out before.\<close>

locale id_source =
  fixes fresh :: "'s \<Rightarrow> (EntityID \<times> 's) option"
    and issued :: "'s \<Rightarrow> EntityID \<Rightarrow> bool"
  assumes fresh_not_issued: "fresh s = Some (i, s') \<Longrightarrow> \<not> issued s i"
    and fresh_issued: "fresh s = Some (i, s') \<Longrightarrow> issued s' i"
    and issued_mono: "fresh s = Some (i, s') \<Longrightarrow> issued s j \<Longrightarrow> issued s' j"
begin

lemma fresh_differs: "fresh s = Some (i, s') \<Longrightarrow> issued s j \<Longrightarrow> i \<noteq> j"
  using fresh_not_issued by blast

lemma two_fresh_differ:
  "fresh s = Some (i, s') \<Longrightarrow> fresh s' = Some (j, s'') \<Longrightarrow> i \<noteq> j"
  using fresh_issued fresh_not_issued by blast

end

interpretation allocator: id_source alloc_make "\<lambda>al i. eid i \<le> last_id al"
  by unfold_locales (auto simp: alloc_make_Some)

section \<open>Pointers\<close>

datatype TokenPointer = TokenPointer (as_id: EntityID)

instantiation TokenPointer :: linorder
begin
definition less_eq_TokenPointer :: "TokenPointer \<Rightarrow> TokenPointer \<Rightarrow> bool" where
  "less_eq_TokenPointer a b = (as_id a \<le> as_id b)"
definition less_TokenPointer :: "TokenPointer \<Rightarrow> TokenPointer \<Rightarrow> bool" where
  "less_TokenPointer a b = (as_id a < as_id b)"
instance
  by standard (auto simp: less_eq_TokenPointer_def less_TokenPointer_def TokenPointer.expand)
end

datatype NftPtr = NftPtr (nft_inner: EntityID)

instantiation NftPtr :: linorder
begin
definition less_eq_NftPtr :: "NftPtr \<Rightarrow> NftPtr \<Rightarrow> bool" where
  "less_eq_NftPtr a b = (nft_inner a \<le> nft_inner b)"
definition less_NftPtr :: "NftPtr \<Rightarrow> NftPtr \<Rightarrow> bool" where
  "less_NftPtr a b = (nft_inner a < nft_inner b)"
instance
  by standard (auto simp: less_eq_NftPtr_def less_NftPtr_def NftPtr.expand)
end

lemma pointer_le_simps [simp]:
  "(TokenPointer a \<le> TokenPointer b) = (a \<le> b)"
  "(TokenPointer a < TokenPointer b) = (a < b)"
  "(NftPtr a \<le> NftPtr b) = (a \<le> b)"
  "(NftPtr a < NftPtr b) = (a < b)"
  by (simp_all add: less_eq_TokenPointer_def less_TokenPointer_def less_eq_NftPtr_def less_NftPtr_def)

lemma as_id_inject [simp]: "(as_id p = as_id q) = (p = q)"
  by (cases p; cases q) simp

lemma nft_inner_inject [simp]: "(nft_inner p = nft_inner q) = (p = q)"
  by (cases p; cases q) simp

section \<open>Trading pairs\<close>

datatype TradingPairID = TradingPairID (asset_a: TokenPointer) (asset_b: TokenPointer)

instantiation TradingPairID :: linorder
begin
definition less_eq_TradingPairID :: "TradingPairID \<Rightarrow> TradingPairID \<Rightarrow> bool" where
  "less_eq_TradingPairID p q =
     (asset_a p < asset_a q \<or> asset_a p = asset_a q \<and> asset_b p \<le> asset_b q)"
definition less_TradingPairID :: "TradingPairID \<Rightarrow> TradingPairID \<Rightarrow> bool" where
  "less_TradingPairID p q =
     (asset_a p < asset_a q \<or> asset_a p = asset_a q \<and> asset_b p < asset_b q)"
instance
  by standard (auto simp: less_eq_TradingPairID_def less_TradingPairID_def TradingPairID.expand)
end

lemma TradingPairID_le_simps [simp]:
  "(TradingPairID a b \<le> TradingPairID c d) = (a < c \<or> a = c \<and> b \<le> d)"
  "(TradingPairID a b < TradingPairID c d) = (a < c \<or> a = c \<and> b < d)"
  by (simp_all add: less_eq_TradingPairID_def less_TradingPairID_def)

definition normalize :: "TradingPairID \<Rightarrow> TradingPairID" where
  "normalize p =
     (if asset_a p \<le> asset_b p then p else TradingPairID (asset_b p) (asset_a p))"

definition is_normal :: "TradingPairID \<Rightarrow> bool" where
  "is_normal p = (asset_a p \<le> asset_b p)"

lemma is_normal_normalize [simp]: "is_normal (normalize p)"
  by (auto simp: is_normal_def normalize_def)

lemma normalize_normal [simp]: "is_normal p \<Longrightarrow> normalize p = p"
  by (simp add: is_normal_def normalize_def)

lemma normalize_idem [simp]: "normalize (normalize p) = normalize p"
  by simp

lemma normalize_swap: "normalize (TradingPairID a b) = normalize (TradingPairID b a)"
  by (auto simp: normalize_def)

section \<open>Text form\<close>

datatype ParseIntError = Empty | InvalidDigit | PosOverflow

definition hex_char :: "nat \<Rightarrow> char" where
  "hex_char d = (if d < 10 then char_of (48 + d) else char_of (87 + d))"

fun format_hex :: "nat \<Rightarrow> string" where
  "format_hex n = (if n < 16 then [hex_char n] else format_hex (n div 16) @ [hex_char (n mod 16)])"

declare format_hex.simps [simp del]

definition to_digit16 :: "char \<Rightarrow> nat option" where
  "to_digit16 c =
     (let n = (of_char c :: nat)
      in if 48 \<le> n \<and> n \<le> 57 then Some (n - 48)
         else if 97 \<le> n \<and> n \<le> 102 then Some (n - 87)
         else if 65 \<le> n \<and> n \<le> 70 then Some (n - 55)
         else None)"

fun parse_digits16 :: "u64 \<Rightarrow> string \<Rightarrow> ParseIntError + u64" where
  "parse_digits16 acc [] = Inr acc"
| "parse_digits16 acc (c # cs) =
     (case to_digit16 c of
        None \<Rightarrow> Inl InvalidDigit
      | Some d \<Rightarrow>
          (if 2 ^ 64 \<le> acc * 16 + d then Inl PosOverflow
           else parse_digits16 (acc * 16 + d) cs))"

text \<open>\<open>u64::from_str_radix(s, 16)\<close>: a leading plus sign is accepted, a lone sign is not a number.\<close>

definition from_str_radix16 :: "string \<Rightarrow> ParseIntError + u64" where
  "from_str_radix16 s =
     (case s of
        [] \<Rightarrow> Inl Empty
      | c # cs \<Rightarrow>
          (if c \<in> {CHR ''+'', CHR ''-''} \<and> cs = [] then Inl InvalidDigit
           else if c = CHR ''+'' then parse_digits16 0 cs
           else parse_digits16 0 s))"

definition entity_to_string :: "EntityID \<Rightarrow> string" where
  "entity_to_string a = format_hex (eid a)"

definition entity_try_from :: "string \<Rightarrow> ParseIntError + EntityID" where
  "entity_try_from s = map_sum (\<lambda>e. e) EntityID (from_str_radix16 s)"

fun split_char :: "char \<Rightarrow> string \<Rightarrow> string list" where
  "split_char c [] = [[]]"
| "split_char c (x # xs) =
     (if x = c then [] # split_char c xs
      else (case split_char c xs of [] \<Rightarrow> [[x]] | w # ws \<Rightarrow> (x # w) # ws))"

datatype TradingPairIDParseError = WrongNumberOfTerms | EntityIDParseError ParseIntError

definition pair_try_from :: "string \<Rightarrow> TradingPairIDParseError + TradingPairID" where
  "pair_try_from value =
     (case split_char CHR '':'' value of
        [a0, a1] \<Rightarrow>
          (case entity_try_from a0 of
             Inl e \<Rightarrow> Inl (EntityIDParseError e)
           | Inr a \<Rightarrow>
               (case entity_try_from a1 of
                  Inl e \<Rightarrow> Inl (EntityIDParseError e)
                | Inr b \<Rightarrow> Inr (TradingPairID (TokenPointer a) (TokenPointer b))))
      | _ \<Rightarrow> Inl WrongNumberOfTerms)"

definition pair_to_string :: "TradingPairID \<Rightarrow> string" where
  "pair_to_string p =
     entity_to_string (as_id (asset_a p)) @ '':'' @ entity_to_string (as_id (asset_b p))"

subsection \<open>Reading back what was written\<close>

lemma of_char_hex_char: "d < 16 \<Longrightarrow> of_char (hex_char d) = (if d < 10 then 48 + d else 87 + d)"
  by (simp add: hex_char_def)

lemma to_digit16_hex_char [simp]: "d < 16 \<Longrightarrow> to_digit16 (hex_char d) = Some d"
  by (simp add: to_digit16_def Let_def of_char_hex_char)

lemma parse_digits16_snoc:
  "parse_digits16 acc (s @ [c]) =
     (case parse_digits16 acc s of Inl e \<Rightarrow> Inl e | Inr n \<Rightarrow> parse_digits16 n [c])"
  by (induction s arbitrary: acc) (auto split: option.splits)

lemma parse_format_hex: "n < 2 ^ 64 \<Longrightarrow> parse_digits16 0 (format_hex n) = Inr n"
proof (induction n rule: format_hex.induct)
  case (1 n)
  show ?case
  proof (cases "n < 16")
    case True
    then show ?thesis by (simp add: format_hex.simps [of n])
  next
    case False
    moreover from "1.prems" have "n div 16 < 2 ^ 64" by linarith
    ultimately have "parse_digits16 0 (format_hex (n div 16)) = Inr (n div 16)"
      by (rule "1.IH")
    moreover have "n div 16 * 16 + n mod 16 = n" by simp
    ultimately show ?thesis
      using False "1.prems" by (simp add: format_hex.simps [of n] parse_digits16_snoc del: mod_div_mult_eq)
  qed
qed

lemma format_hex_digits: "c \<in> set (format_hex n) \<Longrightarrow> to_digit16 c \<noteq> None"
proof (induction n rule: format_hex.induct)
  case (1 n)
  then show ?case
    by (cases "n < 16") (auto simp: format_hex.simps [of n])
qed

lemma format_hex_nonempty [simp]: "format_hex n \<noteq> []"
  by (subst format_hex.simps) simp

lemma from_str_format_hex: "n < 2 ^ 64 \<Longrightarrow> from_str_radix16 (format_hex n) = Inr n"
proof -
  assume n: "n < 2 ^ 64"
  obtain c cs where s: "format_hex n = c # cs"
    by (cases "format_hex n") auto
  then have "to_digit16 c \<noteq> None" using format_hex_digits [of c n] by simp
  then have "c \<noteq> CHR ''+''" and "c \<noteq> CHR ''-''"
    by (auto simp: to_digit16_def)
  then show ?thesis
    using parse_format_hex [OF n] s by (simp add: from_str_radix16_def)
qed

lemma split_char_none: "c \<notin> set s \<Longrightarrow> split_char c s = [s]"
  by (induction s) auto

lemma split_char_append: "c \<notin> set s \<Longrightarrow> split_char c (s @ c # t) = s # split_char c t"
  by (induction s) auto

lemma colon_not_hex: "CHR '':'' \<notin> set (format_hex n)"
  using format_hex_digits [of "CHR '':''" n] by (auto simp: to_digit16_def)

lemma entity_round_trip: "eid a < 2 ^ 64 \<Longrightarrow> entity_try_from (entity_to_string a) = Inr a"
  by (simp add: entity_try_from_def entity_to_string_def from_str_format_hex)

lemma pair_round_trip:
  assumes "eid (as_id (asset_a p)) < 2 ^ 64" and "eid (as_id (asset_b p)) < 2 ^ 64"
  shows "pair_try_from (pair_to_string p) = Inr p"
proof -
  have "split_char CHR '':'' (pair_to_string p) =
      [entity_to_string (as_id (asset_a p)), entity_to_string (as_id (asset_b p))]"
    by (simp add: pair_to_string_def entity_to_string_def split_char_append split_char_none colon_not_hex)
  then show ?thesis
    using assms [THEN entity_round_trip] by (simp add: pair_try_from_def)
qed

text \<open>What is read is within the range of \<open>u64\<close>.\<close>

lemma parse_digits16_bound: "parse_digits16 acc s = Inr n \<Longrightarrow> acc < 2 ^ 64 \<Longrightarrow> n < 2 ^ 64"
  by (induction s arbitrary: acc) (auto split: option.splits if_splits)

section \<open>Decimal text\<close>

fun format_dec :: "nat \<Rightarrow> string" where
  "format_dec n =
     (if n < 10 then [char_of (48 + n)] else format_dec (n div 10) @ [char_of (48 + n mod 10)])"

declare format_dec.simps [simp del]

section \<open>Properties\<close>

text \<open>An entity id and a trading pair of 64-bit ids are read back from their text form.\<close>

theorem ids_round_trip:
  assumes "eid a < 2 ^ 64" and "eid b < 2 ^ 64"
  shows "entity_try_from (entity_to_string a) = Inr a \<and>
    pair_try_from (pair_to_string (TradingPairID (TokenPointer a) (TokenPointer b))) =
      Inr (TradingPairID (TokenPointer a) (TokenPointer b))"
  using assms entity_round_trip pair_round_trip [of "TradingPairID (TokenPointer a) (TokenPointer b)"] by simp

theorem ids_round_trip_witness:
  "entity_try_from (entity_to_string (EntityID 3235774465)) = Inr (EntityID 3235774465) \<and>
    pair_try_from (pair_to_string (TradingPairID (TokenPointer (EntityID 3235774465)) (TokenPointer (EntityID 5)))) =
      Inr (TradingPairID (TokenPointer (EntityID 3235774465)) (TokenPointer (EntityID 5)))"
  using ids_round_trip [of "EntityID 3235774465" "EntityID 5"] by simp

end
