(* ===== verification/Tokens.thy ===== *)
theory Tokens
  imports Identifiers
begin

text \<open>
  Tokens (\<open>common/mine-with-friends-board/src/tokens/mod.rs\<close> and the data types of
  \<open>tokens/instances\<close>): \<open>TokenBase\<close>, the only implementation of the \<open>Token\<close> trait, and
  \<open>TokenRegistry\<close>. The calls \<open>transaction\<close> and \<open>end_transaction\<close> and the field
  \<open>in_transaction\<close> exist under \<open>cfg(test)\<close> only and have no effect in the program, so they
  are absent here. The locales \<open>ledger\<close> and \<open>multi_ledger\<close> are what the market maker, the NFT
  sales and the callbacks rely on; they are interpreted on \<open>TokenBase\<close> and on the registry.
\<close>

section \<open>Ledgers, abstractly\<close>

text \<open>The books after \<open>n\<close> units of \<open>p\<close> went from \<open>a\<close> to \<open>b\<close>.\<close>

definition moved ::
  "('p \<Rightarrow> 'a \<Rightarrow> nat) \<Rightarrow> 'p \<Rightarrow> 'a \<Rightarrow> 'a \<Rightarrow> nat \<Rightarrow> 'p \<Rightarrow> 'a \<Rightarrow> nat" where
  "moved B p a b n =
     (\<lambda>q e. if q = p then B p e - (if e = a then n else 0) + (if e = b then n else 0) else B q e)"

lemma moved_other [simp]: "q \<noteq> p \<Longrightarrow> moved B p a b n q = B q"
  by (simp add: moved_def)

lemma moved_bystander [simp]: "e \<noteq> a \<Longrightarrow> e \<noteq> b \<Longrightarrow> moved B p a b n q e = B q e"
  by (simp add: moved_def)

lemma moved_from [simp]: "a \<noteq> b \<Longrightarrow> moved B p a b n p a = B p a - n"
  by (simp add: moved_def)

lemma moved_to [simp]: "a \<noteq> b \<Longrightarrow> moved B p a b n p b = B p b + n"
  by (simp add: moved_def)

lemma moved_zero [simp]: "moved B p a b 0 = B"
  by (intro ext) (simp add: moved_def)

lemma moved_self: "n \<le> B p a \<Longrightarrow> moved B p a a n = B"
  by (intro ext) (simp add: moved_def)

lemma moved_back: "n \<le> B p a \<Longrightarrow> moved (moved B p a b n) p b a n = B"
  by (intro ext) (simp add: moved_def)

lemma moved_back_enough: "n \<le> B p a \<Longrightarrow> n \<le> moved B p a b n p b"
  by (simp add: moved_def)

text \<open>One token: who holds how much, and transfers that either happen or change nothing.\<close>

locale ledger =
  fixes bal :: "'s \<Rightarrow> 'a \<Rightarrow> nat"
    and minted :: "'s \<Rightarrow> nat"
    and xfer :: "'s \<Rightarrow> 'a \<Rightarrow> 'a \<Rightarrow> nat \<Rightarrow> (bool \<times> 's) option"
    and ok :: "'s \<Rightarrow> bool"
  assumes xfer_refused: "ok s \<Longrightarrow> bal s a < n \<Longrightarrow> xfer s a b n = Some (False, s)"
    and xfer_done: "ok s \<Longrightarrow> n \<le> bal s a \<Longrightarrow>
      \<exists>s'. xfer s a b n = Some (True, s') \<and> ok s' \<and> minted s' = minted s \<and>
        bal s' = (\<lambda>e. bal s e - (if e = a then n else 0) + (if e = b then n else 0))"
begin

lemma xfer_total: "ok s \<Longrightarrow> \<exists>r s'. xfer s a b n = Some (r, s') \<and> ok s' \<and> minted s' = minted s"
  using xfer_refused xfer_done by (metis not_less)

lemma xfer_supply:
  assumes "ok s" and "xfer s a b n = Some (r, s')"
  shows "ok s'" and "minted s' = minted s"
  using xfer_total [OF assms(1), of a b n] assms(2) by auto

lemma xfer_result: "ok s \<Longrightarrow> xfer s a b n = Some (r, s') \<Longrightarrow> r = (n \<le> bal s a)"
  using xfer_refused [of s a n b] xfer_done [of s n a b] by (cases "n \<le> bal s a") auto

lemma xfer_round_trip:
  assumes "ok s" and "n \<le> bal s a"
  shows "\<exists>s' s''. xfer s a b n = Some (True, s') \<and> xfer s' b a n = Some (True, s'') \<and> bal s'' = bal s"
proof -
  from xfer_done [OF assms, of b] obtain s' where s': "xfer s a b n = Some (True, s')" "ok s'"
    "bal s' = (\<lambda>e. bal s e - (if e = a then n else 0) + (if e = b then n else 0))"
    by blast
  have "n \<le> bal s' b" using s'(3) assms(2) by simp
  from xfer_done [OF s'(2) this, of a] obtain s'' where "xfer s' b a n = Some (True, s'')"
    "bal s'' = (\<lambda>e. bal s' e - (if e = b then n else 0) + (if e = a then n else 0))"
    by blast
  moreover have "\<dots> = bal s"
    using s'(3) assms(2) by (intro ext) simp
  ultimately show ?thesis using s'(1) by auto
qed

end

text \<open>Many tokens: a transfer of one leaves the others alone.\<close>

locale multi_ledger =
  fixes has :: "'s \<Rightarrow> 'p \<Rightarrow> bool"
    and bal :: "'s \<Rightarrow> 'p \<Rightarrow> 'a \<Rightarrow> nat"
    and minted :: "'s \<Rightarrow> 'p \<Rightarrow> nat"
    and xfer :: "'s \<Rightarrow> 'p \<Rightarrow> 'a \<Rightarrow> 'a \<Rightarrow> nat \<Rightarrow> (bool \<times> 's) option"
    and ok :: "'s \<Rightarrow> bool"
  assumes xfer_missing: "\<not> has s p \<Longrightarrow> xfer s p a b n = None"
    and xfer_refused: "ok s \<Longrightarrow> has s p \<Longrightarrow> bal s p a < n \<Longrightarrow> xfer s p a b n = Some (False, s)"
    and xfer_done: "ok s \<Longrightarrow> has s p \<Longrightarrow> n \<le> bal s p a \<Longrightarrow>
      \<exists>s'. xfer s p a b n = Some (True, s') \<and> ok s' \<and> has s' = has s \<and> minted s' = minted s \<and>
        bal s' = moved (bal s) p a b n"
begin

sublocale single: ledger "\<lambda>s. bal s p" "\<lambda>s. minted s p" "\<lambda>s. xfer s p" "\<lambda>s. ok s \<and> has s p" for p
proof unfold_locales
  fix s a n b
  assume "ok s \<and> has s p" and "bal s p a < n"
  then show "xfer s p a b n = Some (False, s)" by (simp add: xfer_refused)
next
  fix s n a b
  assume "ok s \<and> has s p" and "n \<le> bal s p a"
  then obtain s' where "xfer s p a b n = Some (True, s')" "ok s'" "has s' = has s"
    "minted s' = minted s" "bal s' = moved (bal s) p a b n"
    using xfer_done by blast
  then show "\<exists>s'. xfer s p a b n = Some (True, s') \<and> (ok s' \<and> has s' p) \<and> minted s' p = minted s p \<and>
      bal s' p = (\<lambda>e. bal s p e - (if e = a then n else 0) + (if e = b then n else 0))"
    using \<open>ok s \<and> has s p\<close> by (auto simp: moved_def)
qed

lemma xfer_cases:
  assumes "ok s" and "xfer s p a b n = Some (r, s')"
  obtains (xrefused) "\<not> r" "bal s p a < n" "s' = s" "has s p"
    | (xdone) r "n \<le> bal s p a" "has s p" "ok s'" "has s' = has s" "minted s' = minted s"
        "bal s' = moved (bal s) p a b n"
proof -
  have h: "has s p" using assms(2) xfer_missing by fastforce
  show thesis
  proof (cases "n \<le> bal s p a")
    case True
    with xfer_done [OF assms(1) h, of n a b] assms(2) h show thesis by (auto intro: xdone)
  next
    case False
    with xfer_refused [OF assms(1) h, of a n b] assms(2) h show thesis by (auto intro: xrefused)
  qed
qed

lemma xfer_frame:
  assumes "ok s" and "xfer s p a b n = Some (r, s')"
  shows "ok s'" and "has s' = has s" and "minted s' = minted s"
  using assms by (auto elim: xfer_cases)

lemma xfer_returns: "ok s \<Longrightarrow> has s p \<Longrightarrow> xfer s p a b n \<noteq> None"
  using xfer_done xfer_refused by (metis not_less option.distinct(1))

end

section \<open>\<open>TokenBase\<close>\<close>

record TokenBase =
  balances :: "(EntityID, u128) btree_map"
  total :: u128
  token_this :: EntityID
  nickname :: "string option"

definition new_from_alloc :: "EntityIDAllocator \<Rightarrow> string \<Rightarrow> (TokenBase \<times> EntityIDAllocator) option" where
  "new_from_alloc al nick = do {
     (i, al') \<leftarrow> alloc_make al;
     Some (\<lparr>balances = [], total = 0, token_this = i, nickname = Some nick\<rparr>, al')
   }"

definition balance_check :: "TokenBase \<Rightarrow> EntityID \<Rightarrow> u128" where
  "balance_check t to = bt_or 0 (balances t) to"

definition total_coins :: "TokenBase \<Rightarrow> u128" where
  "total_coins t = total t"

definition mint :: "TokenBase \<Rightarrow> EntityID \<Rightarrow> u128 \<Rightarrow> TokenBase option" where
  "mint t to amount = do {
     amt \<leftarrow> add128 (bt_or 0 (balances t) to) amount;
     tot \<leftarrow> add128 (total t) amount;
     Some (t\<lparr>balances := bt_put to amt (balances t), total := tot\<rparr>)
   }"

definition burn :: "TokenBase \<Rightarrow> EntityID \<Rightarrow> u128 \<Rightarrow> TokenBase option" where
  "burn t to amount = do {
     amt \<leftarrow> sub_w (bt_or 0 (balances t) to) amount;
     tot \<leftarrow> sub_w (total t) amount;
     Some (t\<lparr>balances := bt_put to amt (balances t), total := tot\<rparr>)
   }"

definition transfer :: "TokenBase \<Rightarrow> EntityID \<Rightarrow> EntityID \<Rightarrow> u128 \<Rightarrow> (bool \<times> TokenBase) option" where
  "transfer t sender receiver amount =
     (if balance_check t sender < amount then Some (False, t)
      else do {
        t' \<leftarrow> burn t sender amount;
        t'' \<leftarrow> mint t' receiver amount;
        Some (True, t'')
      })"

definition ptr :: "TokenBase \<Rightarrow> TokenPointer" where
  "ptr t = TokenPointer (token_this t)"

text \<open>
  The field \<open>total\<close> is documented as the cached sum of the balances. A well-formed token keeps
  that, and keeps its balances in key order.
\<close>

definition token_ok :: "TokenBase \<Rightarrow> bool" where
  "token_ok t = (bt_ok (balances t) \<and> total t = bt_sum (balances t) \<and> total t < 2 ^ 128)"

lemma balance_le_total: "token_ok t \<Longrightarrow> balance_check t e \<le> total t"
  by (simp add: token_ok_def balance_check_def bt_or_le_sum)

lemma mint_ok:
  assumes "token_ok t" and "mint t to n = Some t'"
  shows "token_ok t'" and "total t' = total t + n" and "token_this t' = token_this t"
    and "nickname t' = nickname t"
    and "balance_check t' = (\<lambda>e. balance_check t e + (if e = to then n else 0))"
  using assms bt_sum_put [of "balances t" to "bt_or 0 (balances t) to + n"]
  by (auto simp: mint_def monad_simps arith_checked token_ok_def balance_check_def)

lemma burn_ok:
  assumes "token_ok t" and "burn t to n = Some t'"
  shows "token_ok t'" and "total t' = total t - n" and "n \<le> balance_check t to"
    and "token_this t' = token_this t" and "nickname t' = nickname t"
    and "balance_check t' = (\<lambda>e. balance_check t e - (if e = to then n else 0))"
  using assms bt_sum_put [of "balances t" to "bt_or 0 (balances t) to - n"]
  by (auto simp: burn_def monad_simps arith_checked token_ok_def balance_check_def)

text \<open>A well-formed token never panics on a mint that fits its total, or on a covered burn.\<close>

lemma mint_returns: "token_ok t \<Longrightarrow> total t + n < 2 ^ 128 \<Longrightarrow> \<exists>t'. mint t to n = Some t'"
  using balance_le_total [of t to]
  by (simp add: mint_def add_w_def fits_def balance_check_def)

lemma burn_returns: "token_ok t \<Longrightarrow> n \<le> balance_check t to \<Longrightarrow> \<exists>t'. burn t to n = Some t'"
  using balance_le_total [of t to]
  by (simp add: burn_def sub_w_def balance_check_def)

lemma transfer_refused: "balance_check t a < n \<Longrightarrow> transfer t a b n = Some (False, t)"
  by (simp add: transfer_def)

lemma transfer_done:
  assumes ok: "token_ok t" and n: "n \<le> balance_check t a"
  shows "\<exists>t'. transfer t a b n = Some (True, t') \<and> token_ok t' \<and> total t' = total t \<and>
    token_this t' = token_this t \<and> nickname t' = nickname t \<and>
    balance_check t' = (\<lambda>e. balance_check t e - (if e = a then n else 0) + (if e = b then n else 0))"
proof -
  from burn_returns [OF ok n] obtain t1 where t1: "burn t a n = Some t1" ..
  note b = burn_ok [OF ok t1]
  have "n \<le> total t" using n balance_le_total [OF ok, of a] by simp
  moreover from this have "total t1 + n < 2 ^ 128" using b(2) ok by (simp add: token_ok_def)
  ultimately obtain t2 where t2: "mint t1 b n = Some t2"
    using mint_returns [OF b(1)] by blast
  note m = mint_ok [OF b(1) t2]
  show ?thesis
    using n t1 t2 b m \<open>n \<le> total t\<close> by (simp add: transfer_def)
qed

interpretation token: ledger balance_check total transfer token_ok
  using transfer_refused transfer_done by unfold_locales blast+

section \<open>Registry\<close>

record HashBoardData =
  hash_per_watt :: u128
  reliability :: nat

datatype SteelVariety = Structural

record Steel =
  variety :: SteelVariety
  steel_weight_in_kg :: u64

record Silicon =
  silicon_weight_in_kg :: u64

record TokenRegistry =
  reg_tokens :: "(EntityID, TokenBase) btree_map"
  hashboards :: "(TokenPointer, HashBoardData) btree_map"
  steel :: "(TokenPointer, Steel) btree_map"
  silicon :: "(TokenPointer, Silicon) btree_map"

definition default_registry :: TokenRegistry where
  "default_registry = \<lparr>reg_tokens = [], hashboards = [], steel = [], silicon = []\<rparr>"

definition new_token :: "TokenRegistry \<Rightarrow> TokenBase \<Rightarrow> TokenPointer \<times> TokenRegistry" where
  "new_token reg new =
     (TokenPointer (token_this new), reg\<lparr>reg_tokens := bt_put (token_this new) new (reg_tokens reg)\<rparr>)"

text \<open>Indexing panics on a pointer that is not registered.\<close>

definition tok_index :: "TokenRegistry \<Rightarrow> TokenPointer \<Rightarrow> TokenBase option" where
  "tok_index reg p = bt_get (reg_tokens reg) (as_id p)"

definition tok_index_mut ::
  "TokenRegistry \<Rightarrow> TokenPointer \<Rightarrow> (TokenBase \<Rightarrow> ('r \<times> TokenBase) option) \<Rightarrow> ('r \<times> TokenRegistry) option" where
  "tok_index_mut reg p f = do {
     t \<leftarrow> tok_index reg p;
     (r, t') \<leftarrow> f t;
     Some (r, reg\<lparr>reg_tokens := bt_put (as_id p) t' (reg_tokens reg)\<rparr>)
   }"

abbreviation reg_transfer ::
  "TokenRegistry \<Rightarrow> TokenPointer \<Rightarrow> EntityID \<Rightarrow> EntityID \<Rightarrow> u128 \<Rightarrow> (bool \<times> TokenRegistry) option" where
  "reg_transfer reg p a b n \<equiv> tok_index_mut reg p (\<lambda>t. transfer t a b n)"

abbreviation reg_mint :: "TokenRegistry \<Rightarrow> TokenPointer \<Rightarrow> EntityID \<Rightarrow> u128 \<Rightarrow> (unit \<times> TokenRegistry) option" where
  "reg_mint reg p a n \<equiv> tok_index_mut reg p (\<lambda>t. map_option (Pair ()) (mint t a n))"

definition reg_balance :: "TokenRegistry \<Rightarrow> TokenPointer \<Rightarrow> EntityID \<Rightarrow> u128 option" where
  "reg_balance reg p e = map_option (\<lambda>t. balance_check t e) (tok_index reg p)"

text \<open>A registry without its tokens; changing tokens leaves the rest alone.\<close>

definition reg_rest :: "TokenRegistry \<Rightarrow> TokenRegistry" where
  "reg_rest reg = reg\<lparr>reg_tokens := []\<rparr>"

lemma reg_rest_put [simp]: "reg_rest (reg\<lparr>reg_tokens := m\<rparr>) = reg_rest reg"
  by (simp add: reg_rest_def)

lemma reg_rest_mut: "tok_index_mut reg p f = Some (r, reg') \<Longrightarrow> reg_rest reg' = reg_rest reg"
  by (auto simp: tok_index_mut_def monad_simps)

lemma reg_rest_new: "new_token reg t = (p, reg') \<Longrightarrow> reg_rest reg' = reg_rest reg"
  by (auto simp: new_token_def)

lemma reg_rest_hashboards: "reg_rest reg' = reg_rest reg \<Longrightarrow> hashboards reg' = hashboards reg"
  unfolding reg_rest_def by (metis TokenRegistry.select_convs(2) TokenRegistry.surjective TokenRegistry.update_convs(1))

subsection \<open>The books of a registry\<close>

definition reg_has :: "TokenRegistry \<Rightarrow> TokenPointer \<Rightarrow> bool" where
  "reg_has reg p = (tok_index reg p \<noteq> None)"

definition books :: "TokenRegistry \<Rightarrow> TokenPointer \<Rightarrow> EntityID \<Rightarrow> nat" where
  "books reg p e = (case tok_index reg p of None \<Rightarrow> 0 | Some t \<Rightarrow> balance_check t e)"

definition reg_supply :: "TokenRegistry \<Rightarrow> TokenPointer \<Rightarrow> nat" where
  "reg_supply reg p = (case tok_index reg p of None \<Rightarrow> 0 | Some t \<Rightarrow> total t)"

definition reg_ok :: "TokenRegistry \<Rightarrow> bool" where
  "reg_ok reg =
     (bt_ok (reg_tokens reg) \<and>
      (\<forall>(k, t) \<in> set (reg_tokens reg). token_this t = k \<and> token_ok t \<and> nickname t \<noteq> None))"

lemma reg_balance_books: "reg_has reg p \<Longrightarrow> reg_balance reg p e = Some (books reg p e)"
  by (auto simp: reg_has_def reg_balance_def books_def)

lemma reg_balance_Some:
  "(reg_balance reg p e = Some n) = (reg_has reg p \<and> n = books reg p e)"
  by (auto simp: reg_has_def reg_balance_def books_def)

lemma reg_supply_none: "\<not> reg_has reg p \<Longrightarrow> reg_supply reg p = 0"
  by (simp add: reg_has_def reg_supply_def)

lemma tok_index_ok:
  "reg_ok reg \<Longrightarrow> tok_index reg p = Some t \<Longrightarrow> token_this t = as_id p \<and> token_ok t \<and> nickname t \<noteq> None"
  by (auto simp: reg_ok_def tok_index_def dest!: bt_get_SomeD)

lemma set_bt_put: "set (bt_put k v m) \<subseteq> insert (k, v) (set m)"
  by (induction m) auto

lemma reg_ok_put:
  assumes "reg_ok reg" and "token_this t = k" and "token_ok t" and "nickname t \<noteq> None"
  shows "reg_ok (reg\<lparr>reg_tokens := bt_put k t (reg_tokens reg)\<rparr>)"
  using assms set_bt_put [of k t "reg_tokens reg"] by (fastforce simp: reg_ok_def)

lemma tok_index_put [simp]:
  "tok_index (reg\<lparr>reg_tokens := bt_put k t (reg_tokens reg)\<rparr>) p =
     (if as_id p = k then Some t else tok_index reg p)"
  by (simp add: tok_index_def)

lemma reg_mint_ok:
  assumes ok: "reg_ok reg" and m: "reg_mint reg p a n = Some (u, reg')"
  shows "reg_ok reg'" and "reg_has reg' = reg_has reg"
    and "books reg' = (\<lambda>q e. books reg q e + (if q = p \<and> e = a then n else 0))"
    and "reg_supply reg' = (\<lambda>q. reg_supply reg q + (if q = p then n else 0))"
    and "hashboards reg' = hashboards reg"
proof -
  from m obtain t t' where t: "tok_index reg p = Some t" and t': "mint t a n = Some t'"
    and reg': "reg' = reg\<lparr>reg_tokens := bt_put (as_id p) t' (reg_tokens reg)\<rparr>"
    by (auto simp: tok_index_mut_def monad_simps)
  note tok = tok_index_ok [OF ok t]
  then have "token_ok t" by simp
  note mt = mint_ok [OF this t']
  show "reg_ok reg'" unfolding reg' by (rule reg_ok_put [OF ok]) (use tok mt in auto)
  show "reg_has reg' = reg_has reg" using t by (intro ext) (auto simp: reg' reg_has_def)
  show "books reg' = (\<lambda>q e. books reg q e + (if q = p \<and> e = a then n else 0))"
    using t mt by (intro ext) (simp add: reg' books_def)
  show "reg_supply reg' = (\<lambda>q. reg_supply reg q + (if q = p then n else 0))"
    using t mt by (intro ext) (simp add: reg' reg_supply_def)
  show "hashboards reg' = hashboards reg" by (simp add: reg')
qed

text \<open>Registering a token that nobody holds yet, under a fresh id.\<close>

lemma new_token_books:
  assumes ok: "reg_ok reg" and fresh: "\<not> reg_has reg (TokenPointer (token_this t))"
    and t: "balances t = []" "total t = 0" "nickname t \<noteq> None" and n: "new_token reg t = (p, reg')"
  shows "p = TokenPointer (token_this t)" and "reg_ok reg'"
    and "reg_has reg' q = (q = p \<or> reg_has reg q)" and "books reg' = books reg"
    and "reg_supply reg' = reg_supply reg"
proof -
  from n have p: "p = TokenPointer (token_this t)"
    and r: "reg' = reg\<lparr>reg_tokens := bt_put (token_this t) t (reg_tokens reg)\<rparr>"
    by (auto simp: new_token_def)
  have id: "(as_id q = token_this t) = (q = p)" for q by (cases q) (simp add: p)
  from fresh have none: "tok_index reg p = None" by (simp add: reg_has_def p)
  show "p = TokenPointer (token_this t)" by (rule p)
  show "reg_ok reg'" unfolding r by (rule reg_ok_put [OF ok]) (simp_all add: t token_ok_def)
  show "reg_has reg' q = (q = p \<or> reg_has reg q)" by (simp add: r reg_has_def id)
  show "books reg' = books reg"
    using none by (intro ext) (simp add: r books_def id t balance_check_def bt_or_def)
  show "reg_supply reg' = reg_supply reg"
    using none by (intro ext) (simp add: r reg_supply_def id t)
qed

lemma reg_transfer_done:
  assumes ok: "reg_ok reg" and h: "reg_has reg p" and n: "n \<le> books reg p a"
  shows "\<exists>reg'. reg_transfer reg p a b n = Some (True, reg') \<and> reg_ok reg' \<and>
    reg_has reg' = reg_has reg \<and> reg_supply reg' = reg_supply reg \<and>
    books reg' = moved (books reg) p a b n"
proof -
  from h obtain t where t: "tok_index reg p = Some t" by (auto simp: reg_has_def)
  note tok = tok_index_ok [OF ok t]
  moreover have "n \<le> balance_check t a" using n t by (simp add: books_def)
  ultimately obtain t' where t': "transfer t a b n = Some (True, t')" "token_ok t'" "total t' = total t"
    "token_this t' = token_this t" "nickname t' = nickname t"
    "balance_check t' = (\<lambda>e. balance_check t e - (if e = a then n else 0) + (if e = b then n else 0))"
    using transfer_done [of t n a b] by blast
  let ?reg = "reg\<lparr>reg_tokens := bt_put (as_id p) t' (reg_tokens reg)\<rparr>"
  have "reg_transfer reg p a b n = Some (True, ?reg)"
    using t t'(1) by (simp add: tok_index_mut_def)
  moreover have "reg_ok ?reg" by (rule reg_ok_put [OF ok]) (use tok t' in auto)
  moreover have "reg_has ?reg = reg_has reg" "reg_supply ?reg = reg_supply reg"
    using t t'(3) by (auto simp: fun_eq_iff reg_has_def reg_supply_def)
  moreover have "books ?reg = moved (books reg) p a b n"
    using t t'(6) by (intro ext) (simp add: books_def moved_def)
  ultimately show ?thesis by blast
qed

lemma reg_transfer_refused:
  assumes ok: "reg_ok reg" and h: "reg_has reg p" and n: "books reg p a < n"
  shows "reg_transfer reg p a b n = Some (False, reg)"
proof -
  from h obtain t where t: "tok_index reg p = Some t" by (auto simp: reg_has_def)
  then have "balance_check t a < n" using n by (simp add: books_def)
  moreover have "bt_put (as_id p) t (reg_tokens reg) = reg_tokens reg"
    using t ok by (simp add: tok_index_def reg_ok_def bt_put_same)
  ultimately show ?thesis
    using t by (simp add: tok_index_mut_def transfer_refused)
qed

interpretation registry: multi_ledger reg_has books reg_supply reg_transfer reg_ok
proof unfold_locales
  fix reg p a b n
  assume "\<not> reg_has reg p"
  then show "reg_transfer reg p a b n = None" by (simp add: reg_has_def tok_index_mut_def)
qed (use reg_transfer_refused reg_transfer_done in blast)+

end
