(* ===== verification/Nfts.thy ===== *)
theory Nfts
  imports Tokens
begin

text \<open>
  NFTs and their sales (\<open>common/mine-with-friends-board/src/nfts/mod.rs\<close>, \<open>nfts/sale.rs\<close> and
  the data types of \<open>nfts/instances/powerplant/mod.rs\<close>): \<open>BaseNFT\<close>, the only implementation
  of the \<open>NFT\<close> trait, \<open>NFTRegistry\<close>, and \<open>NFTSaleRegistry\<close> with \<open>cancel_sale\<close>,
  \<open>list_nft\<close> and \<open>purchase\<close>. The lemmas give the effect of a purchase on each of its branches.
\<close>

section \<open>NFTs\<close>

record BaseNFT =
  owner :: EntityID
  nft_id :: EntityID
  transfer_count :: u128

text \<open>\<open>u128::max_value()\<close> as transfer count marks an NFT that cannot be transferred.\<close>

definition u128_max :: u128 where
  "u128_max = 2 ^ 128 - 1"

definition nft_transfer :: "BaseNFT \<Rightarrow> EntityID \<Rightarrow> BaseNFT option" where
  "nft_transfer n to =
     (if transfer_count n = u128_max then Some n
      else do {
        c \<leftarrow> add128 (transfer_count n) 1;
        Some (n\<lparr>owner := to, transfer_count := c\<rparr>)
      })"

datatype PlantType = Solar | Hydro | Flare

record PowerPlant =
  plant_id :: NftPtr
  plant_type :: PlantType
  watts :: u128
  coordinates :: "int \<times> int"

record NFTRegistry =
  nft_map :: "(NftPtr, BaseNFT) btree_map"
  power_plants :: "(NftPtr, PowerPlant) btree_map"

definition nft_add :: "NFTRegistry \<Rightarrow> BaseNFT \<Rightarrow> NftPtr \<times> NFTRegistry" where
  "nft_add r n =
     (let i = NftPtr (nft_id n)
      in (i, case bt_get (nft_map r) i of
               None \<Rightarrow> r\<lparr>nft_map := bt_put i n (nft_map r)\<rparr>
             | Some _ \<Rightarrow> r))"

definition nft_index :: "NFTRegistry \<Rightarrow> NftPtr \<Rightarrow> BaseNFT option" where
  "nft_index r i = bt_get (nft_map r) i"

definition nft_index_mut :: "NFTRegistry \<Rightarrow> NftPtr \<Rightarrow> (BaseNFT \<Rightarrow> BaseNFT option) \<Rightarrow> NFTRegistry option" where
  "nft_index_mut r i f = do {
     n \<leftarrow> nft_index r i;
     n' \<leftarrow> f n;
     Some (r\<lparr>nft_map := bt_put i n' (nft_map r)\<rparr>)
   }"

lemma nft_index_add: "nft_index (snd (nft_add r n)) i =
    (if i = NftPtr (nft_id n) \<and> nft_index r i = None then Some n else nft_index r i)"
  by (auto simp: nft_add_def nft_index_def Let_def split: option.splits)

lemma power_plants_add [simp]: "power_plants (snd (nft_add r n)) = power_plants r"
  by (simp add: nft_add_def Let_def split: option.splits)

section \<open>Sales\<close>

record NFTSale =
  price :: u128
  sale_currency :: TokenPointer
  seller :: EntityID
  sale_transfer_count :: u128

type_synonym NFTSaleRegistry = "(NftPtr, NFTSale) btree_map"

definition cancel_sale :: "NFTSaleRegistry \<Rightarrow> NftPtr \<Rightarrow> NFTRegistry \<Rightarrow> EntityID \<Rightarrow> NFTSaleRegistry option" where
  "cancel_sale sales asset nfts user =
     (case bt_get sales asset of
        None \<Rightarrow> Some sales
      | Some s \<Rightarrow> do {
          n \<leftarrow> nft_index nfts asset;
          Some (if seller s = owner n \<and> seller s = user then bt_del asset sales else sales)
        })"

definition list_nft ::
  "NFTSaleRegistry \<Rightarrow> EntityID \<Rightarrow> NftPtr \<Rightarrow> u128 \<Rightarrow> TokenPointer \<Rightarrow> NFTRegistry \<Rightarrow> NFTSaleRegistry option" where
  "list_nft sales sender asset pr cur nfts = do {
     n \<leftarrow> nft_index nfts asset;
     Some (if sender = owner n
       then bt_put asset \<lparr>price = pr, sale_currency = cur, seller = owner n,
              sale_transfer_count = transfer_count n\<rparr> sales
       else sales)
   }"

text \<open>\<open>purchase\<close> changes the sales, the tokens and the NFTs; each early return leaves all three.\<close>

definition purchase ::
  "NFTSaleRegistry \<Rightarrow> EntityID \<Rightarrow> NftPtr \<Rightarrow> TokenRegistry \<Rightarrow> NFTRegistry \<Rightarrow> u128 \<Rightarrow> TokenPointer \<Rightarrow>
   (NFTSaleRegistry \<times> TokenRegistry \<times> NFTRegistry) option" where
  "purchase sales sender asset toks nfts limit_price limit_currency =
     (case bt_get sales asset of
        None \<Rightarrow> Some (sales, toks, nfts)
      | Some s \<Rightarrow> do {
          n \<leftarrow> nft_index nfts asset;
          if seller s \<noteq> owner n then Some (sales, toks, nfts)
          else if sale_transfer_count s \<noteq> transfer_count n then Some (sales, toks, nfts)
          else if limit_currency \<noteq> sale_currency s then Some (sales, toks, nfts)
          else if limit_price < price s then Some (sales, toks, nfts)
          else do {
            (paid, toks') \<leftarrow> reg_transfer toks (sale_currency s) sender (owner n) (price s);
            if paid then do {
              nfts' \<leftarrow> nft_index_mut nfts asset (\<lambda>n. nft_transfer n sender);
              Some (bt_del asset sales, toks', nfts')
            }
            else Some (sales, toks', nfts)
          }
        })"

text \<open>A listing that no longer matches its NFT, or that the buyer's limits reject.\<close>

definition sale_open :: "NFTSale \<Rightarrow> BaseNFT \<Rightarrow> u128 \<Rightarrow> TokenPointer \<Rightarrow> bool" where
  "sale_open s n limit_price limit_currency =
     (seller s = owner n \<and> sale_transfer_count s = transfer_count n \<and>
      limit_currency = sale_currency s \<and> price s \<le> limit_price)"

lemma purchase_closed:
  assumes "bt_get sales asset = Some s" and "nft_index nfts asset = Some n"
    and "\<not> sale_open s n lim cur"
  shows "purchase sales sender asset toks nfts lim cur = Some (sales, toks, nfts)"
  using assms by (auto simp: purchase_def sale_open_def)

lemma purchase_unlisted:
  "bt_get sales asset = None \<Longrightarrow> purchase sales sender asset toks nfts lim cur = Some (sales, toks, nfts)"
  by (simp add: purchase_def)

lemma purchase_unaffordable:
  assumes "bt_get sales asset = Some s" and "nft_index nfts asset = Some n" and "sale_open s n lim cur"
    and "reg_ok toks" and "reg_has toks cur" and "books toks cur sender < price s"
  shows "purchase sales sender asset toks nfts lim cur = Some (sales, toks, nfts)"
  using assms registry.xfer_refused [of toks cur sender "price s" "owner n"]
  by (auto simp: purchase_def sale_open_def)

lemma nft_transfer_moves:
  "transfer_count n < u128_max \<Longrightarrow>
    nft_transfer n to = Some (n\<lparr>owner := to, transfer_count := transfer_count n + 1\<rparr>)"
  by (simp add: nft_transfer_def u128_max_def add_w_def fits_def)

lemma nft_transfer_locked: "transfer_count n = u128_max \<Longrightarrow> nft_transfer n to = Some n"
  by (simp add: nft_transfer_def)

lemma purchase_paid:
  assumes "bt_get sales asset = Some s" and "nft_index nfts asset = Some n" and "sale_open s n lim cur"
    and "reg_ok toks" and "reg_has toks cur" and "price s \<le> books toks cur sender"
    and "nft_transfer n sender = Some n'"
  shows "\<exists>toks'. purchase sales sender asset toks nfts lim cur =
      Some (bt_del asset sales, toks', nfts\<lparr>nft_map := bt_put asset n' (nft_map nfts)\<rparr>) \<and>
    reg_ok toks' \<and> reg_has toks' = reg_has toks \<and> reg_supply toks' = reg_supply toks \<and>
    books toks' = moved (books toks) cur sender (seller s) (price s)"
proof -
  from assms(3) have "sale_currency s = cur" "owner n = seller s"
    by (auto simp: sale_open_def)
  with registry.xfer_done [OF assms(4,5,6), of "seller s"] assms show ?thesis
    by (auto simp: purchase_def sale_open_def nft_index_mut_def)
qed

text \<open>A purchase of a listed NFT never panics on a well-formed registry.\<close>

lemma purchase_cases:
  assumes "reg_ok toks" and "purchase sales sender asset toks nfts lim cur = Some (sales', toks', nfts')"
  obtains (unchanged) "sales' = sales" "toks' = toks" "nfts' = nfts"
    | (bought) s n n' where "bt_get sales asset = Some s" "nft_index nfts asset = Some n"
        "sale_open s n lim cur" "price s \<le> books toks cur sender" "reg_has toks cur"
        "nft_transfer n sender = Some n'" "sales' = bt_del asset sales"
        "nfts' = nfts\<lparr>nft_map := bt_put asset n' (nft_map nfts)\<rparr>"
        "reg_ok toks'" "reg_has toks' = reg_has toks" "reg_supply toks' = reg_supply toks"
        "books toks' = moved (books toks) cur sender (seller s) (price s)" "reg_rest toks' = reg_rest toks"
proof (cases "bt_get sales asset")
  case None
  with assms(2) purchase_unlisted [OF None] show thesis by (auto intro: unchanged)
next
  case (Some s)
  with assms(2) obtain n where n: "nft_index nfts asset = Some n"
    by (auto simp: purchase_def monad_simps)
  show thesis
  proof (cases "sale_open s n lim cur")
    case False
    from purchase_closed [OF Some n this] assms(2) show thesis by (auto intro: unchanged)
  next
    case op: True
    then have "sale_currency s = cur" "owner n = seller s" by (auto simp: sale_open_def)
    with assms(2) Some n op obtain r toks1 where x: "reg_transfer toks cur sender (seller s) (price s) = Some (r, toks1)"
      and rest: "(if r then do { nfts' \<leftarrow> nft_index_mut nfts asset (\<lambda>n. nft_transfer n sender);
            Some (bt_del asset sales, toks1, nfts') } else Some (sales, toks1, nfts)) = Some (sales', toks', nfts')"
      by (auto simp: purchase_def sale_open_def monad_simps)
    from assms(1) x show thesis
    proof (cases rule: registry.xfer_cases)
      case xrefused
      with rest show thesis by (auto intro: unchanged)
    next
      case xdone
      with rest n obtain n' where "nft_transfer n sender = Some n'" "sales' = bt_del asset sales" "toks' = toks1"
        "nfts' = nfts\<lparr>nft_map := bt_put asset n' (nft_map nfts)\<rparr>"
        by (auto simp: nft_index_mut_def monad_simps)
      with xdone Some n op reg_rest_mut [OF x] show thesis by (auto intro: bought)
    qed
  qed
qed

section \<open>Listings shown to the user\<close>

record UXNFTSale =
  ux_nft_id :: NftPtr
  ux_price :: u128
  ux_currency :: TokenPointer
  ux_seller :: EntityID
  ux_transfer_count :: u128

record UXPlantData =
  uxp_id :: NftPtr
  uxp_coordinates :: "int \<times> int"
  uxp_for_sale :: bool
  uxp_miners :: u128
  uxp_owner :: EntityID
  uxp_plant_type :: PlantType
  uxp_watts :: u128
  uxp_hashrate :: u128

end
