(* ===== verification/Board.thy ===== *)
theory Board
  imports Nfts "HOL-Library.List_Lexorder" "HOL-Library.Char_ord"
begin

text \<open>
  The state of the game (\<open>common/mine-with-friends-board/src/game/mod.rs\<close>,
  \<open>game/game_move.rs\<close>, \<open>callbacks.rs\<close>, \<open>sanitize.rs\<close>): the moves, the errors, the callbacks
  and \<open>GameBoard\<close> itself. A struct around a single map is that map. \<open>Box<dyn Callback>\<close> is the
  datatype of the structs that implement \<open>Callback\<close>; the four producers of
  \<open>tokens/instances\<close> have the same fields, so one record serves them and the constructor says
  which one it is. The strings of Rust are byte strings, ordered bytewise as \<open>String\<close> is.
\<close>

section \<open>Markets\<close>

record ConstantFunctionMarketMakerPair =
  mkt_pair :: TradingPairID
  mkt_id :: EntityID
  lp :: TokenPointer
  reserve_a :: u128
  reserve_b :: u128

type_synonym ConstantFunctionMarketMaker =
  "(TradingPairID, ConstantFunctionMarketMakerPair) btree_map"

datatype TradeError = InvalidTrade string | InsufficientTokens string | MarketSlipped

record TradeOutcome =
  trading_pair :: TradingPairID
  asset_player_purchased :: string
  amount_player_purchased :: u128
  asset_player_sold :: string
  amount_player_sold :: u128

record UXMaterialsPriceData =
  uxm_trading_pair :: TradingPairID
  uxm_asset_a :: string
  uxm_mkt_qty_a :: u128
  uxm_asset_b :: string
  uxm_mkt_qty_b :: u128
  uxm_display_asset :: string

section \<open>Moves\<close>

text \<open>A variant of \<open>GameMove\<close> carries the fields of its struct.\<close>

datatype GameMove =
    Heartbeat
  | Trade TradingPairID u128 u128 bool "u128 option"
  | PurchaseNFT NftPtr u128 TokenPointer
  | ListNFTForSale NftPtr u128 TokenPointer
  | SendTokens EntityID u128 TokenPointer
  | RemoveTokens NftPtr u128 TokenPointer
  | Chat string
  | MintPowerPlant u64 "int \<times> int" PlantType
  | SuperMintPowerPlant u64 "int \<times> int" PlantType

record MoveEnvelope =
  move_d :: GameMove
  move_sequence :: u64
  time_millis :: u64

datatype SanitizationError =
    InvalidTokenPointer TokenPointer
  | InvalidNFTPtr NftPtr
  | InvalidUser EntityID
  | MintScaleIsZero

datatype FinishReason = TimeExpired | DominatingPlayer EntityID

datatype MoveRejectReason =
    NoSuchUser
  | GameIsFinished FinishReason
  | MoveSanitizationError SanitizationError
  | TradeRejected TradeError

text \<open>The third variant of \<open>LogEvent\<close> carries an arbitrary JSON value and is never built.\<close>

datatype LogEvent =
    LogGameMove GameMove
  | LogMoveRejectReason MoveRejectReason

datatype CloseError = GameNotFinished

section \<open>Callbacks\<close>

record PowerPlantEvent =
  event_time :: u64
  event_period :: u64

record Producer =
  prod_id :: EntityID
  total_units :: u128
  base_price :: u128
  price_asset :: TokenPointer
  hash_asset :: TokenPointer
  adjusts_every :: u64
  prod_elapsed_time :: u64
  first :: bool

record CoinLockup =
  lock_id :: NftPtr
  time_when_free :: u64
  lock_asset :: TokenPointer

datatype Callback =
    PowerPlantEventCb PowerPlantEvent
  | ASICProducer Producer
  | SteelSmelter Producer
  | SiliconRefinery Producer
  | ConcreteMiller Producer
  | CoinLockupCb CoinLockup

fun cb_time :: "Callback \<Rightarrow> u64" where
  "cb_time (PowerPlantEventCb e) = event_time e"
| "cb_time (ASICProducer p) = prod_elapsed_time p"
| "cb_time (SteelSmelter p) = prod_elapsed_time p"
| "cb_time (SiliconRefinery p) = prod_elapsed_time p"
| "cb_time (ConcreteMiller p) = prod_elapsed_time p"
| "cb_time (CoinLockupCb l) = time_when_free l"

type_synonym CallbackRegistry = "(u64, Callback list) btree_map"

definition schedule :: "CallbackRegistry \<Rightarrow> Callback \<Rightarrow> CallbackRegistry" where
  "schedule cbs cb = bt_put (cb_time cb) (bt_or [] cbs (cb_time cb) @ [cb]) cbs"

section \<open>The board\<close>

record Tick =
  first_time :: u64
  tick_elapsed :: u64

record UserData =
  user_key :: string

type_synonym PowerPlantPrices = "PlantType \<rightharpoonup> (TokenPointer \<times> u128) list"

record GameBoard =
  tokens :: TokenRegistry
  swap :: ConstantFunctionMarketMaker
  turn_count :: u64
  alloc_ids :: EntityIDAllocator
  users :: "(EntityID, UserData) btree_map"
  users_by_key :: "(string, EntityID) btree_map"
  nfts :: NFTRegistry
  nft_sales :: NFTSaleRegistry
  player_move_sequence :: "(EntityID, u64) btree_map"
  bitcoin_token_id :: TokenPointer
  real_sats_token_id :: TokenPointer
  steel_token_id :: TokenPointer
  silicon_token_id :: TokenPointer
  concrete_token_id :: TokenPointer
  asic_token_id :: TokenPointer
  root_user :: EntityID
  callbacks :: CallbackRegistry
  elapsed_time :: u64
  finish_time :: u64
  mining_subsidy :: u128
  ticks :: "(EntityID, Tick) btree_map"
  chat_log :: "(u64 \<times> EntityID \<times> string) list"
  nicks :: "(EntityID, string) btree_map"
  chat_counter :: u64
  event_log :: "(u64 \<times> EntityID \<times> LogEvent) list"
  event_log_counter :: u64
  plant_prices :: PowerPlantPrices

record GameSetup =
  players :: "string list"
  start_amount :: u64
  setup_finish_time :: u64

section \<open>Operations of the board's parts, on the board\<close>

definition alloc :: "GameBoard \<Rightarrow> (EntityID \<times> GameBoard) option" where
  "alloc g = do {
     (i, al) \<leftarrow> alloc_make (alloc_ids g);
     Some (i, g\<lparr>alloc_ids := al\<rparr>)
   }"

definition transfer_tokens ::
  "GameBoard \<Rightarrow> TokenPointer \<Rightarrow> EntityID \<Rightarrow> EntityID \<Rightarrow> u128 \<Rightarrow> (bool \<times> GameBoard) option" where
  "transfer_tokens g p a b n = do {
     (r, reg) \<leftarrow> reg_transfer (tokens g) p a b n;
     Some (r, g\<lparr>tokens := reg\<rparr>)
   }"

definition mint_tokens :: "GameBoard \<Rightarrow> TokenPointer \<Rightarrow> EntityID \<Rightarrow> u128 \<Rightarrow> GameBoard option" where
  "mint_tokens g p a n = do {
     (_, reg) \<leftarrow> reg_mint (tokens g) p a n;
     Some (g\<lparr>tokens := reg\<rparr>)
   }"

definition balance :: "GameBoard \<Rightarrow> TokenPointer \<Rightarrow> EntityID \<Rightarrow> u128 option" where
  "balance g p e = reg_balance (tokens g) p e"

definition token_name :: "GameBoard \<Rightarrow> TokenPointer \<Rightarrow> string option" where
  "token_name g p = do { t \<leftarrow> tok_index (tokens g) p; nickname t }"

definition schedule_cb :: "GameBoard \<Rightarrow> Callback \<Rightarrow> GameBoard" where
  "schedule_cb g cb = g\<lparr>callbacks := schedule (callbacks g) cb\<rparr>"

text \<open>The tokens of a board are a multi-token ledger.\<close>

abbreviation has_token :: "GameBoard \<Rightarrow> TokenPointer \<Rightarrow> bool" where
  "has_token g p \<equiv> reg_has (tokens g) p"

abbreviation holding :: "GameBoard \<Rightarrow> TokenPointer \<Rightarrow> EntityID \<Rightarrow> nat" where
  "holding g p e \<equiv> books (tokens g) p e"

abbreviation supply_of :: "GameBoard \<Rightarrow> TokenPointer \<Rightarrow> nat" where
  "supply_of g p \<equiv> reg_supply (tokens g) p"

abbreviation tokens_ok :: "GameBoard \<Rightarrow> bool" where
  "tokens_ok g \<equiv> reg_ok (tokens g)"

lemma token_name_ok: "tokens_ok g \<Longrightarrow> has_token g p \<Longrightarrow> \<exists>n. token_name g p = Some n"
  by (auto simp: token_name_def reg_has_def dest: tok_index_ok)

lemma balance_Some: "(balance g p e = Some n) = (has_token g p \<and> n = holding g p e)"
  by (simp add: balance_def reg_balance_Some)

lemma transfer_tokens_Some:
  "(transfer_tokens g p a b n = Some (r, g')) =
     (\<exists>reg. reg_transfer (tokens g) p a b n = Some (r, reg) \<and> g' = g\<lparr>tokens := reg\<rparr>)"
  by (auto simp: transfer_tokens_def monad_simps)

lemma transfer_tokens_board:
  "transfer_tokens g p a b n = Some (r, g') \<Longrightarrow> g' = g\<lparr>tokens := tokens g'\<rparr>"
  by (auto simp: transfer_tokens_Some)

interpretation board: multi_ledger has_token holding supply_of transfer_tokens tokens_ok
proof unfold_locales
  fix g p a b n
  assume "\<not> has_token g p"
  then show "transfer_tokens g p a b n = None"
    using registry.xfer_missing by (simp add: transfer_tokens_def)
next
  fix g p a n b
  assume "tokens_ok g" and "has_token g p" and "holding g p a < n"
  then show "transfer_tokens g p a b n = Some (False, g)"
    using registry.xfer_refused by (simp add: transfer_tokens_def)
next
  fix g p n a b
  assume "tokens_ok g" and "has_token g p" and "n \<le> holding g p a"
  from registry.xfer_done [OF this, of b] obtain reg where
    "reg_transfer (tokens g) p a b n = Some (True, reg)" "reg_ok reg" "reg_has reg = reg_has (tokens g)"
    "reg_supply reg = reg_supply (tokens g)" "books reg = moved (books (tokens g)) p a b n"
    by blast
  then show "\<exists>g'. transfer_tokens g p a b n = Some (True, g') \<and> tokens_ok g' \<and>
      has_token g' = has_token g \<and> supply_of g' = supply_of g \<and> holding g' = moved (holding g) p a b n"
    by (auto simp: transfer_tokens_def)
qed

lemma alloc_Some [monad_simps]:
  "(alloc g = Some (i, g')) =
     (last_id (alloc_ids g) + 1 < 2 ^ 64 \<and> i = EntityID (last_id (alloc_ids g) + 1) \<and>
      g' = g\<lparr>alloc_ids := EntityIDAllocator (last_id (alloc_ids g) + 1)\<rparr>)"
  by (auto simp: alloc_def monad_simps)

interpretation board_ids: id_source alloc "\<lambda>g i. eid i \<le> last_id (alloc_ids g)"
  by unfold_locales (auto simp: alloc_Some)

end
