(* ===== verification/Swap.thy ===== *)
theory Swap
  imports Board
begin

text \<open>
  The market maker (\<open>common/mine-with-friends-board/src/tokens/token_swap.rs\<close>): creation of a
  market, deposits, the two trades and the swap they end in, over the whole board as in the
  source. The price arithmetic of the trades is in \<open>buy_quote\<close> and \<open>sell_quote\<close>, so that it can
  be studied alone: the lemmas of that section say that a quote is the best the constant
  product allows. The section on frames says what the operations leave alone, the last ones
  that the books stay balanced, and what a trade does to them.
\<close>

section \<open>Markets\<close>

definition has_market :: "GameBoard \<Rightarrow> TradingPairID \<Rightarrow> bool" where
  "has_market g pair = (bt_get (swap g) (normalize pair) \<noteq> None)"

definition name_or_id :: "GameBoard \<Rightarrow> TokenPointer \<Rightarrow> string option" where
  "name_or_id g p = do {
     t \<leftarrow> tok_index (tokens g) p;
     Some (case nickname t of Some n \<Rightarrow> n | None \<Rightarrow> format_dec (eid (as_id p)))
   }"

text \<open>The market of a pair, created with empty reserves and a share token when there is none.\<close>

definition ensure ::
  "GameBoard \<Rightarrow> TradingPairID \<Rightarrow> (ConstantFunctionMarketMakerPair \<times> GameBoard) option" where
  "ensure g pair0 =
     (let pair = normalize pair0 in
      case bt_get (swap g) pair of
        Some m \<Rightarrow> Some (m, g)
      | None \<Rightarrow> do {
          name_a \<leftarrow> name_or_id g (asset_a pair);
          name_b \<leftarrow> name_or_id g (asset_b pair);
          (base_id, g1) \<leftarrow> alloc g;
          (i, g2) \<leftarrow> alloc g1;
          let (share, reg) = new_token (tokens g2)
                \<lparr>balances = [], total = 0, token_this = base_id,
                 nickname = Some (''swap('' @ name_a @ '','' @ name_b @ '')::shares'')\<rparr>;
              m = \<lparr>mkt_pair = pair, mkt_id = i, lp = share, reserve_a = 0, reserve_b = 0\<rparr>
          in Some (m, g2\<lparr>tokens := reg, swap := bt_put pair m (swap g2)\<rparr>)
        })"

definition amt_a :: "GameBoard \<Rightarrow> ConstantFunctionMarketMakerPair \<Rightarrow> u128 option" where
  "amt_a g m = balance g (asset_a (mkt_pair m)) (mkt_id m)"

definition amt_b :: "GameBoard \<Rightarrow> ConstantFunctionMarketMakerPair \<Rightarrow> u128 option" where
  "amt_b g m = balance g (asset_b (mkt_pair m)) (mkt_id m)"

definition get_pair_price_data :: "GameBoard \<Rightarrow> TradingPairID \<Rightarrow> ((u128 \<times> u128) \<times> GameBoard) option" where
  "get_pair_price_data g pair = do {
     (m, g1) \<leftarrow> ensure g pair;
     a \<leftarrow> amt_a g1 m;
     b \<leftarrow> amt_b g1 m;
     Some ((a, b), g1)
   }"

text \<open>Amounts given in the order of a pair, in the order of the normalized pair.\<close>

definition normalize_amounts :: "TradingPairID \<Rightarrow> u128 \<Rightarrow> u128 \<Rightarrow> u128 \<times> u128" where
  "normalize_amounts pair a b = (if is_normal pair then (a, b) else (b, a))"

definition update_market ::
  "GameBoard \<Rightarrow> TradingPairID \<Rightarrow>
   (ConstantFunctionMarketMakerPair \<Rightarrow> ConstantFunctionMarketMakerPair option) \<Rightarrow> GameBoard option" where
  "update_market g pair f = do {
     m \<leftarrow> bt_get (swap g) pair;
     m' \<leftarrow> f m;
     Some (g\<lparr>swap := bt_put pair m' (swap g)\<rparr>)
   }"

section \<open>Deposits\<close>

text \<open>The end of a deposit, when both transfers went through.\<close>

definition finish_deposit ::
  "GameBoard \<Rightarrow> ConstantFunctionMarketMakerPair \<Rightarrow> u128 \<Rightarrow> u128 \<Rightarrow> EntityID \<Rightarrow> GameBoard option" where
  "finish_deposit g mkt amount_a amount_b from_id = do {
     share \<leftarrow> tok_index (tokens g) (lp mkt);
     n \<leftarrow> mul128 (total_coins share) amount_a;
     qa \<leftarrow> amt_a g mkt;
     to_mint \<leftarrow> div_w n qa;
     g' \<leftarrow> mint_tokens g (lp mkt) from_id to_mint;
     update_market g' (mkt_pair mkt) (\<lambda>m. do {
       ra \<leftarrow> add128 (reserve_a m) amount_a;
       rb \<leftarrow> add128 (reserve_b m) amount_b;
       Some (m\<lparr>reserve_a := ra, reserve_b := rb\<rparr>)
     })
   }"

definition deposit :: "GameBoard \<Rightarrow> TradingPairID \<Rightarrow> u128 \<Rightarrow> u128 \<Rightarrow> EntityID \<Rightarrow> GameBoard option" where
  "deposit g pair amount_a0 amount_b0 from_id =
     (let i = normalize pair; (amount_a, amount_b) = normalize_amounts pair amount_a0 amount_b0 in
      if amount_a = 0 \<or> amount_b = 0 then Some g
      else do {
        (mkt, g1) \<leftarrow> ensure g i;
        qb \<leftarrow> amt_b g1 mkt;
        l \<leftarrow> mul128 amount_a qb;
        qa \<leftarrow> amt_a g1 mkt;
        r \<leftarrow> mul128 qa amount_b;
        if l \<noteq> r then Some g1
        else do {
          (sent_a, g2) \<leftarrow> transfer_tokens g1 (asset_a i) from_id (mkt_id mkt) amount_a;
          if \<not> sent_a then Some g2
          else do {
            (sent_b, g3) \<leftarrow> transfer_tokens g2 (asset_b i) from_id (mkt_id mkt) amount_b;
            if \<not> sent_b then do {
              (_, g4) \<leftarrow> transfer_tokens g3 (asset_a i) (mkt_id mkt) from_id amount_a;
              Some g4
            }
            else finish_deposit g3 mkt amount_a amount_b from_id
          }
        }
      })"

section \<open>Swaps\<close>

text \<open>The guarded transfers of \<open>raw_swap\<close>: what was sent, 0 when nothing was.\<close>

definition send_out ::
  "GameBoard \<Rightarrow> TokenPointer \<Rightarrow> EntityID \<Rightarrow> EntityID \<Rightarrow> u128 \<Rightarrow> (u128 \<times> GameBoard) option" where
  "send_out g p from_id to_id amount =
     (if amount > 0 then do {
        (sent, g') \<leftarrow> transfer_tokens g p from_id to_id amount;
        Some (if sent then amount else 0, g')
      }
      else Some (0, g))"

text \<open>A transfer that panics when it is refused.\<close>

definition transfer_or_panic ::
  "GameBoard \<Rightarrow> TokenPointer \<Rightarrow> EntityID \<Rightarrow> EntityID \<Rightarrow> u128 \<Rightarrow> GameBoard option" where
  "transfer_or_panic g p from_id to_id amount = do {
     (sent, g') \<leftarrow> transfer_tokens g p from_id to_id amount;
     if sent then Some g' else None
   }"

definition raw_swap ::
  "GameBoard \<Rightarrow> TradingPairID \<Rightarrow> u128 \<Rightarrow> u128 \<Rightarrow> EntityID \<Rightarrow> ((TradeError + unit) \<times> GameBoard) option" where
  "raw_swap g pair amount_a0 amount_b0 sender =
     (let i = normalize pair; (amount_a, amount_b) = normalize_amounts pair amount_a0 amount_b0 in
      do {
        (mkt, g1) \<leftarrow> ensure g i;
        let a = asset_a (mkt_pair mkt); b = asset_b (mkt_pair mkt) in do {
          (send_a_amt, g2) \<leftarrow> send_out g1 a (mkt_id mkt) sender amount_a;
          (send_b_amt, g3) \<leftarrow> send_out g2 b (mkt_id mkt) sender amount_b;
          if send_a_amt \<noteq> amount_a \<or> send_b_amt \<noteq> amount_b then do {
            g4 \<leftarrow> transfer_or_panic g3 a sender (mkt_id mkt) send_a_amt;
            g5 \<leftarrow> transfer_or_panic g4 b sender (mkt_id mkt) send_b_amt;
            Some (Inl (InsufficientTokens ''Insufficient funds asset''), g5)
          }
          else do {
            a_reserves_2 \<leftarrow> balance g3 a (mkt_id mkt);
            b_reserves_2 \<leftarrow> balance g3 b (mkt_id mkt);
            k_2 \<leftarrow> mul128 a_reserves_2 b_reserves_2;
            k_1 \<leftarrow> mul128 (reserve_a mkt) (reserve_b mkt);
            if k_2 < k_1 then do {
              g4 \<leftarrow> transfer_or_panic g3 a sender (mkt_id mkt) amount_a;
              g5 \<leftarrow> transfer_or_panic g4 b sender (mkt_id mkt) amount_b;
              Some (Inl (InvalidTrade ''Reserves Not Preserved''), g5)
            }
            else do {
              g4 \<leftarrow> update_market g3 (mkt_pair mkt)
                (\<lambda>m. Some (m\<lparr>reserve_a := a_reserves_2, reserve_b := b_reserves_2\<rparr>));
              Some (Inr (), g4)
            }
          }
        }
      })"

definition swap_helper ::
  "TokenPointer \<Rightarrow> TokenPointer \<Rightarrow> GameBoard \<Rightarrow> u128 \<Rightarrow> u128 \<Rightarrow> EntityID \<Rightarrow>
   ((TradeError + unit) \<times> GameBoard) option" where
  "swap_helper selling buying g sell_amt buy_amt sender =
     (let trade_pair = TradingPairID selling buying in
      if is_normal trade_pair then raw_swap g trade_pair sell_amt buy_amt sender
      else raw_swap g (normalize trade_pair) buy_amt sell_amt sender)"

text \<open>
  The common end of both trades: the player pays the market, the market pays the player, and
  the payment goes back when that fails.
\<close>

definition settle ::
  "GameBoard \<Rightarrow> ConstantFunctionMarketMakerPair \<Rightarrow> TokenPointer \<Rightarrow> TokenPointer \<Rightarrow> u128 \<Rightarrow> u128 \<Rightarrow>
   EntityID \<Rightarrow> ((TradeError + unit) \<times> GameBoard) option" where
  "settle g mkt selling buying sell_amt buy_amt sender = do {
     g1 \<leftarrow> transfer_or_panic g selling sender (mkt_id mkt) sell_amt;
     (r, g2) \<leftarrow> swap_helper selling buying g1 0 buy_amt sender;
     case r of
       Inr _ \<Rightarrow> Some (Inr (), g2)
     | Inl e \<Rightarrow> do {
         (_, g3) \<leftarrow> transfer_tokens g2 selling (mkt_id mkt) sender sell_amt;
         Some (Inl e, g3)
       }
   }"

section \<open>Quotes and trades\<close>

definition roundup_div :: "u128 \<Rightarrow> u128 \<Rightarrow> u128 option" where
  "roundup_div n rhs = do {
     s \<leftarrow> add128 n rhs;
     t \<leftarrow> sub_w s 1;
     div_w t rhs
   }"

text \<open>What a player pays for \<open>buy_amt0\<close>, and what he gets: \<open>(sell_amt, buy_amt)\<close>.\<close>

definition buy_quote :: "u128 \<Rightarrow> u128 \<Rightarrow> u128 \<Rightarrow> (u128 \<times> u128) option" where
  "buy_quote mkt_qty_selling mkt_qty_buying buy_amt0 = do {
     k \<leftarrow> mul128 mkt_qty_selling mkt_qty_buying;
     d \<leftarrow> sub_w mkt_qty_buying buy_amt0;
     x \<leftarrow> roundup_div k d;
     sell_amt \<leftarrow> sub_w x mkt_qty_selling;
     s \<leftarrow> add128 mkt_qty_selling sell_amt;
     y \<leftarrow> roundup_div k s;
     buy_amt \<leftarrow> sub_w mkt_qty_buying y;
     Some (sell_amt, buy_amt)
   }"

definition sell_quote :: "u128 \<Rightarrow> u128 \<Rightarrow> u128 \<Rightarrow> (u128 \<times> u128) option" where
  "sell_quote mkt_qty_selling mkt_qty_buying sell_amt0 = do {
     k \<leftarrow> mul128 mkt_qty_buying mkt_qty_selling;
     s \<leftarrow> add128 mkt_qty_selling sell_amt0;
     x \<leftarrow> roundup_div k s;
     buy_amt \<leftarrow> sub_w mkt_qty_buying x;
     d \<leftarrow> sub_w mkt_qty_buying buy_amt;
     y \<leftarrow> roundup_div k d;
     sell_amt \<leftarrow> sub_w y mkt_qty_selling;
     Some (sell_amt, buy_amt)
   }"

definition both_zero :: TradeError where
  "both_zero = InvalidTrade ''Both token amounts cannot be zero''"

definition one_not_zero :: TradeError where
  "one_not_zero = InvalidTrade ''One token amount must be zero''"

definition user_insufficient :: TradeError where
  "user_insufficient = InsufficientTokens ''User has insufficient tokens''"

text \<open>The part of both trades after the quote has been accepted.\<close>

definition finish_trade ::
  "GameBoard \<Rightarrow> TradingPairID \<Rightarrow> ConstantFunctionMarketMakerPair \<Rightarrow> TokenPointer \<Rightarrow> TokenPointer \<Rightarrow> string \<Rightarrow> string \<Rightarrow>
   u128 \<Rightarrow> u128 \<Rightarrow> bool \<Rightarrow> EntityID \<Rightarrow> ((TradeError + TradeOutcome) \<times> GameBoard) option" where
  "finish_trade g i mkt selling buying buying_name selling_name sell_amt buy_amt simulate sender = do {
     funds \<leftarrow> balance g selling sender;
     if sell_amt > funds then Some (Inl user_insufficient, g)
     else do {
       (r, g') \<leftarrow> (if simulate then Some (Inr (), g)
                  else settle g mkt selling buying sell_amt buy_amt sender);
       Some (case r of
           Inl e \<Rightarrow> Inl e
         | Inr _ \<Rightarrow> Inr \<lparr>trading_pair = i, asset_player_purchased = buying_name,
             amount_player_purchased = buy_amt, asset_player_sold = selling_name,
             amount_player_sold = sell_amt\<rparr>, g')
     }
   }"

definition internal_do_trade_buy_fixed_amount ::
  "GameBoard \<Rightarrow> TradingPairID \<Rightarrow> u128 \<Rightarrow> u128 \<Rightarrow> u128 option \<Rightarrow> bool \<Rightarrow> EntityID \<Rightarrow>
   ((TradeError + TradeOutcome) \<times> GameBoard) option" where
  "internal_do_trade_buy_fixed_amount g pair amount_a0 amount_b0 sell_max simulate sender =
     (let i = normalize pair; (amount_a, amount_b) = normalize_amounts pair amount_a0 amount_b0 in
      do {
        (mkt, g1) \<leftarrow> ensure g i;
        if amount_a = 0 \<and> amount_b = 0 then Some (Inl both_zero, g1)
        else if amount_a \<noteq> 0 \<and> amount_b \<noteq> 0 then Some (Inl one_not_zero, g1)
        else
          let (buying, selling, buy_amt0) =
                (if amount_a = 0 then (asset_b i, asset_a i, amount_b) else (asset_a i, asset_b i, amount_a))
          in do {
            selling_asset_name \<leftarrow> token_name g1 selling;
            buying_asset_name \<leftarrow> token_name g1 buying;
            mkt_qty_selling \<leftarrow> balance g1 selling (mkt_id mkt);
            mkt_qty_buying \<leftarrow> balance g1 buying (mkt_id mkt);
            if buy_amt0 > mkt_qty_buying
            then Some (Inl (InsufficientTokens ''Market has insufficient tokens''), g1)
            else do {
              (sell_amt, buy_amt) \<leftarrow> buy_quote mkt_qty_selling mkt_qty_buying buy_amt0;
              if (case sell_max of Some m \<Rightarrow> sell_amt > m | None \<Rightarrow> False) then Some (Inl MarketSlipped, g1)
              else finish_trade g1 i mkt selling buying buying_asset_name selling_asset_name
                sell_amt buy_amt simulate sender
            }
          }
      })"

definition internal_do_trade_sell_fixed_amount ::
  "GameBoard \<Rightarrow> TradingPairID \<Rightarrow> u128 \<Rightarrow> u128 \<Rightarrow> u128 option \<Rightarrow> bool \<Rightarrow> EntityID \<Rightarrow>
   ((TradeError + TradeOutcome) \<times> GameBoard) option" where
  "internal_do_trade_sell_fixed_amount g pair amount_a0 amount_b0 buy_min simulate sender =
     (let i = normalize pair; (amount_a, amount_b) = normalize_amounts pair amount_a0 amount_b0 in
      do {
        (mkt, g1) \<leftarrow> ensure g i;
        if amount_a = 0 \<and> amount_b = 0 then Some (Inl both_zero, g1)
        else if amount_a \<noteq> 0 \<and> amount_b \<noteq> 0 then Some (Inl one_not_zero, g1)
        else
          let (buying, selling, sell_amt0) =
                (if amount_a = 0 then (asset_a i, asset_b i, amount_b) else (asset_b i, asset_a i, amount_a))
          in do {
            buying_asset_name \<leftarrow> token_name g1 buying;
            selling_asset_name \<leftarrow> token_name g1 selling;
            mkt_qty_selling \<leftarrow> balance g1 selling (mkt_id mkt);
            mkt_qty_buying \<leftarrow> balance g1 buying (mkt_id mkt);
            if (case buy_min of Some m \<Rightarrow> mkt_qty_buying < m | None \<Rightarrow> False)
            then Some (Inl (InsufficientTokens ''Not Enough Liquidity to Buy Min''), g1)
            else do {
              (sell_amt, buy_amt) \<leftarrow> sell_quote mkt_qty_selling mkt_qty_buying sell_amt0;
              if (case buy_min of Some m \<Rightarrow> buy_amt < m | None \<Rightarrow> False) then Some (Inl MarketSlipped, g1)
              else finish_trade g1 i mkt selling buying buying_asset_name selling_asset_name
                sell_amt buy_amt simulate sender
            }
          }
      })"

definition do_sell_trade ::
  "GameBoard \<Rightarrow> TradingPairID \<Rightarrow> u128 \<Rightarrow> u128 \<Rightarrow> u128 option \<Rightarrow> bool \<Rightarrow> EntityID \<Rightarrow>
   ((TradeError + TradeOutcome) \<times> GameBoard) option" where
  "do_sell_trade g pair amount_a amount_b buy_min simulate sender =
     internal_do_trade_sell_fixed_amount g pair amount_a amount_b buy_min simulate sender"

definition do_buy_trade ::
  "GameBoard \<Rightarrow> TradingPairID \<Rightarrow> u128 \<Rightarrow> u128 \<Rightarrow> u128 option \<Rightarrow> bool \<Rightarrow> EntityID \<Rightarrow>
   ((TradeError + TradeOutcome) \<times> GameBoard) option" where
  "do_buy_trade g pair amount_a amount_b sell_max simulate sender =
     internal_do_trade_buy_fixed_amount g pair amount_a amount_b sell_max simulate sender"

section \<open>Quotes are the best the constant product allows\<close>

text \<open>\<open>roundup_div\<close> is the division that rounds up: the least number that times the divisor covers.\<close>

lemma roundup_div_le:
  assumes "roundup_div n d = Some c"
  shows "(c \<le> x) = (n \<le> d * x)" and "d \<noteq> 0"
proof -
  from assms have d: "d \<noteq> 0" and c: "c = (n + d - 1) div d"
    by (auto simp: roundup_div_def monad_simps arith_checked)
  show "d \<noteq> 0" by (rule d)
  have "(c \<le> x) = ((n + d - 1) div d < Suc x)" unfolding c by auto
  also have "\<dots> = (n + d - 1 < Suc x * d)" using d by (simp add: div_less_iff_less_mult)
  also have "\<dots> = (n \<le> d * x)" using d by (auto simp: algebra_simps)
  finally show "(c \<le> x) = (n \<le> d * x)" .
qed

lemma roundup_div_covers: "roundup_div n d = Some c \<Longrightarrow> n \<le> d * c"
  using roundup_div_le(1) [of n d c c] by simp

lemma roundup_div_returns: "d \<noteq> 0 \<Longrightarrow> n + d < 2 ^ 128 \<Longrightarrow> \<exists>c. roundup_div n d = Some c"
  by (simp add: roundup_div_def add_w_def sub_w_def div_w_def fits_def)

lemma roundup_div_zero [simp]: "roundup_div n 0 = None"
  by (cases "roundup_div n 0") (auto dest: roundup_div_le(2))

text \<open>
  A quote that takes \<open>s\<close> for \<open>b\<close> out of reserves \<open>qs\<close> and \<open>qb\<close> keeps the product, and \<open>s\<close> is
  the least payment that does.
\<close>

definition fair :: "u128 \<Rightarrow> u128 \<Rightarrow> u128 \<Rightarrow> u128 \<Rightarrow> bool" where
  "fair qs qb s b = (b \<le> qb \<and> qs * qb \<le> (qs + s) * (qb - b))"

lemma sell_quote_fair:
  assumes q: "sell_quote qs qb n = Some (s, b)"
  shows "fair qs qb s b" and "s \<le> n" and "\<And>s'. fair qs qb s' b \<Longrightarrow> s \<le> s'"
    and "\<And>b'. fair qs qb n b' \<Longrightarrow> b' \<le> b" and "b < qb"
proof -
  from q obtain x y where x: "roundup_div (qb * qs) (qs + n) = Some x" and "x \<le> qb" and b: "b = qb - x"
    and y: "roundup_div (qb * qs) (qb - b) = Some y" and "qs \<le> y" and s: "s = y - qs"
    by (auto simp: sell_quote_def monad_simps arith_checked)
  then have qb: "qb - b = x" and qs: "qs + s = y" by auto
  have cov: "qs * qb \<le> (qs + n) * x" "qs * qb \<le> y * x"
    using roundup_div_covers [OF x] roundup_div_covers [OF y] by (simp_all add: qb mult.commute)
  show "fair qs qb s b" using cov(2) b \<open>x \<le> qb\<close> by (simp add: fair_def qs)
  have "y \<le> qs + n" using cov(1) roundup_div_le(1) [OF y] by (simp add: qb mult.commute)
  then show "s \<le> n" using s by simp
  show "s \<le> s'" if "fair qs qb s' b" for s'
    using that roundup_div_le(1) [OF y, of "qs + s'"] s by (auto simp: fair_def qb mult.commute)
  show "b' \<le> b" if "fair qs qb n b'" for b'
    using that roundup_div_le(1) [OF x, of "qb - b'"] b \<open>x \<le> qb\<close> by (auto simp: fair_def mult.commute)
  show "b < qb" using roundup_div_le(2) [OF y] by simp
qed

lemma buy_quote_fair:
  assumes q: "buy_quote qs qb n = Some (s, b)"
  shows "fair qs qb s b" and "n \<le> b" and "\<And>s'. fair qs qb s' n \<Longrightarrow> s \<le> s'"
    and "\<And>b'. fair qs qb s b' \<Longrightarrow> b' \<le> b" and "n < qb"
proof -
  from q obtain x y where x: "roundup_div (qs * qb) (qb - n) = Some x" and "qs \<le> x" and s: "s = x - qs"
    and y: "roundup_div (qs * qb) (qs + s) = Some y" and "y \<le> qb" and b: "b = qb - y"
    by (auto simp: buy_quote_def monad_simps arith_checked)
  then have qs: "qs + s = x" and qb: "qb - b = y" by auto
  show "n < qb" using roundup_div_le(2) [OF x] by simp
  have cov: "qs * qb \<le> (qb - n) * x" "qs * qb \<le> x * y"
    using roundup_div_covers [OF x] roundup_div_covers [OF y] by (simp_all add: qs)
  show "fair qs qb s b" using cov(2) b \<open>y \<le> qb\<close> by (simp add: fair_def qs)
  have "y \<le> qb - n" using cov(1) roundup_div_le(1) [OF y] by (simp add: qs mult.commute)
  then show "n \<le> b" using b \<open>n < qb\<close> by simp
  show "s \<le> s'" if "fair qs qb s' n" for s'
    using that roundup_div_le(1) [OF x, of "qs + s'"] s by (auto simp: fair_def mult.commute)
  show "b' \<le> b" if "fair qs qb s b'" for b'
    using that roundup_div_le(1) [OF y, of "qb - b'"] b \<open>y \<le> qb\<close> by (auto simp: fair_def qs)
qed

text \<open>Within 63 bits no step of a quote overflows, and it panics exactly on an empty divisor.\<close>

lemma mult_bound: "(a::nat) < 2 ^ 63 \<Longrightarrow> b < 2 ^ 63 \<Longrightarrow> a * b < 2 ^ 126"
proof -
  assume "a < 2 ^ 63" and "b < 2 ^ 63"
  then have "a * b < 2 ^ 63 * 2 ^ 63" by (rule mult_strict_mono) auto
  then show ?thesis by (simp add: power_add [symmetric])
qed

lemma mul128_small: "a < 2 ^ 63 \<Longrightarrow> b < 2 ^ 63 \<Longrightarrow> mul128 a b = Some (a * b)"
  using mult_bound [of a b] by (simp add: mul_w_def fits_def)

lemma roundup_div_small:
  "n < 2 ^ 126 \<Longrightarrow> d < 2 ^ 64 \<Longrightarrow> d \<noteq> 0 \<Longrightarrow> \<exists>c. roundup_div n d = Some c"
  by (rule roundup_div_returns) auto

lemma sell_quote_returns:
  assumes "qs < 2 ^ 63" "qb < 2 ^ 63" "n < 2 ^ 63" and "0 < qs" "0 < qb"
  shows "\<exists>s b. sell_quote qs qb n = Some (s, b)"
proof -
  have k: "qb * qs < 2 ^ 126" using assms mult_bound by blast
  then have "\<exists>x. roundup_div (qb * qs) (qs + n) = Some x"
    by (rule roundup_div_small) (use assms in auto)
  then obtain x where x: "roundup_div (qb * qs) (qs + n) = Some x" ..
  have x_le: "x \<le> qb" using roundup_div_le(1) [OF x, of qb] by (simp add: algebra_simps)
  have "x \<noteq> 0" using roundup_div_covers [OF x] assms(4,5) by (intro notI) simp
  from k have "\<exists>y. roundup_div (qb * qs) x = Some y"
    by (rule roundup_div_small) (use assms x_le \<open>x \<noteq> 0\<close> in auto)
  then obtain y where y: "roundup_div (qb * qs) x = Some y" ..
  have "\<not> y \<le> qs - 1"
  proof
    assume "y \<le> qs - 1"
    then have "qb * qs \<le> x * (qs - 1)" using roundup_div_le(1) [OF y] by simp
    also have "\<dots> \<le> qb * (qs - 1)" using x_le by simp
    finally show False using assms by auto
  qed
  then have "qs \<le> y" by simp
  moreover have "qs + n < 2 ^ 128" using assms by simp
  ultimately show ?thesis
    using x y x_le mul128_small [OF assms(2,1)] by (simp add: sell_quote_def sub_w_def add_w_def fits_def)
qed

lemma buy_quote_returns:
  assumes "qs < 2 ^ 63" "qb < 2 ^ 63" "n < qb" and "0 < qs"
  shows "\<exists>s b. buy_quote qs qb n = Some (s, b)"
proof -
  have k: "qs * qb < 2 ^ 126" using assms mult_bound by blast
  then have "\<exists>x. roundup_div (qs * qb) (qb - n) = Some x"
    by (rule roundup_div_small) (use assms in auto)
  then obtain x where x: "roundup_div (qs * qb) (qb - n) = Some x" ..
  have x_le: "x \<le> qs * qb"
    using roundup_div_le(1) [OF x, of "qs * qb"] assms by (simp add: mult_le_cancel2)
  have cov: "qs * qb \<le> (qb - n) * x" by (rule roundup_div_covers [OF x])
  have "qs \<le> x"
  proof (rule ccontr)
    assume "\<not> qs \<le> x"
    then have "x < qs" by simp
    have "(qb - n) * x \<le> qb * x" by simp
    also have "\<dots> < qb * qs" using \<open>x < qs\<close> assms by simp
    finally show False using cov by (simp add: mult.commute)
  qed
  have "\<exists>y. roundup_div (qs * qb) x = Some y"
    by (rule roundup_div_returns) (use \<open>qs \<le> x\<close> assms x_le k in auto)
  then obtain y where y: "roundup_div (qs * qb) x = Some y" ..
  have "y \<le> qb - n" using cov roundup_div_le(1) [OF y] by (simp add: mult.commute)
  moreover have "x < 2 ^ 128" using x_le k by simp
  ultimately show ?thesis
    using x y \<open>qs \<le> x\<close> assms mul128_small [OF assms(1,2)]
    by (simp add: buy_quote_def sub_w_def add_w_def fits_def)
qed

section \<open>Properties\<close>

text \<open>C4: A sale quote charges no more than the seller offers, never empties the market, keeps
  the product of the reserves, charges the least that buys what it gives, and gives the most
  that the offer can buy.\<close>

theorem sell_quote_best:
  assumes "sell_quote qs qb n = Some (s, b)"
  shows "s \<le> n \<and> b < qb \<and> fair qs qb s b \<and>
    (\<forall>s'. fair qs qb s' b \<longrightarrow> s \<le> s') \<and> (\<forall>b'. fair qs qb n b' \<longrightarrow> b' \<le> b)"
  using sell_quote_fair [OF assms] by blast

theorem sell_quote_best_witness: "fair 1000 1000 99 90 \<and> (99::nat) \<le> 100"
proof -
  have "sell_quote 1000 1000 100 = Some (99, 90)"
    by (simp add: sell_quote_def roundup_div_def mul_w_def add_w_def sub_w_def div_w_def fits_def)
  from sell_quote_best [OF this] show ?thesis by blast
qed

text \<open>A purchase quote gives at least what the buyer asks for, keeps the product of the
  reserves, charges the least that buys the amount asked for, and gives the most that the
  charge can buy.\<close>

theorem buy_quote_best:
  assumes "buy_quote qs qb n = Some (s, b)"
  shows "n \<le> b \<and> n < qb \<and> fair qs qb s b \<and>
    (\<forall>s'. fair qs qb s' n \<longrightarrow> s \<le> s') \<and> (\<forall>b'. fair qs qb s b' \<longrightarrow> b' \<le> b)"
  using buy_quote_fair [OF assms] by blast

theorem buy_quote_best_witness: "fair 1000 1000 99 90 \<and> (90::nat) < 1000"
proof -
  have "buy_quote 1000 1000 90 = Some (99, 90)"
    by (simp add: buy_quote_def roundup_div_def mul_w_def add_w_def sub_w_def div_w_def fits_def)
  from buy_quote_best [OF this] show ?thesis by blast
qed

text \<open>C13: On a market with something on both sides and below 63 bits, the quote of a sale below 63
  bits never panics, and the quote of a purchase returns exactly when the buyer asks for less than the market holds:
  asking for exactly everything panics, and asking for more would, had the code not refused it
  before the quote.\<close>

theorem quotes_return:
  assumes "0 < qs" "0 < qb" and "qs < 2 ^ 63" "qb < 2 ^ 63" and "n < 2 ^ 63"
  shows "(\<exists>s b. sell_quote qs qb n = Some (s, b)) \<and> (\<forall>m. (\<exists>s b. buy_quote qs qb m = Some (s, b)) = (m < qb))"
proof -
  have "(\<exists>s b. buy_quote qs qb m = Some (s, b)) = (m < qb)" for m
    using buy_quote_returns [OF assms(3,4) _ assms(1), of m] buy_quote_fair(5) [of qs qb m] by blast
  with sell_quote_returns [OF assms(3,4,5,1,2)] show ?thesis by blast
qed

theorem quotes_return_witness:
  "(\<exists>s b. sell_quote 1000 1000 100 = Some (s, b)) \<and> (\<exists>s b. buy_quote 1000 1000 999 = Some (s, b)) \<and>
    \<not> (\<exists>s b. buy_quote 1000 1000 1000 = Some (s, b))"
  using quotes_return [of 1000 1000 100] by simp

text \<open>Asking for exactly everything a market holds panics, and so does a sale to a market
  that holds nothing of one of its assets.\<close>

theorem quotes_panic: "buy_quote qs qb qb = None \<and> sell_quote 0 qb n = None \<and> sell_quote qs 0 n = None"
proof (intro conjI)
  show "buy_quote qs qb qb = None"
  proof (cases "buy_quote qs qb qb")
    case (Some r)
    then show ?thesis using buy_quote_fair(5) [of qs qb qb "fst r" "snd r"] by simp
  qed
  show "sell_quote qs 0 n = None"
  proof (cases "sell_quote qs 0 n")
    case (Some r)
    then show ?thesis using sell_quote_fair(5) [of qs 0 n "fst r" "snd r"] by simp
  qed
  show "sell_quote 0 qb n = None"
  proof (cases "sell_quote 0 qb n")
    case (Some r)
    then have "qb \<le> snd r" and "snd r < qb"
      using sell_quote_fair(4,5) [of 0 qb n "fst r" "snd r"] by (simp_all add: fair_def)
    then show ?thesis by simp
  qed
qed

end
