(* ===== verification/Example_Board.thy ===== *)
theory Example_Board
  imports Board
begin

text \<open>
  A small board for concrete instances of the theorems: the six tokens of a game with the ids 101
  to 106, one market of bitcoin and steel with the id 108 and the share token 107, the users
  109 (alice) and 110 (bob), the power plant 111 of alice with five miners, and an NFT 112 of
  bob that is locked.
\<close>

abbreviation tok :: "nat \<Rightarrow> TokenPointer" where
  "tok i \<equiv> TokenPointer (EntityID i)"

abbreviation example_token :: "nat \<Rightarrow> string \<Rightarrow> (EntityID, u128) btree_map \<Rightarrow> EntityID \<times> TokenBase" where
  "example_token i n b \<equiv>
     (EntityID i, \<lparr>balances = b, total = bt_sum b, token_this = EntityID i, nickname = Some n\<rparr>)"

abbreviation example_pair :: TradingPairID where
  "example_pair \<equiv> TradingPairID (tok 101) (tok 105)"

definition example_market :: ConstantFunctionMarketMakerPair where
  "example_market = \<lparr>mkt_pair = example_pair, mkt_id = EntityID 108, lp = tok 107, reserve_a = 1000, reserve_b = 1000\<rparr>"

definition example_tokens :: TokenRegistry where
  "example_tokens =
     \<lparr>reg_tokens =
        [example_token 101 ''Virtual Sats'' [(EntityID 108, 1000), (EntityID 109, 500), (EntityID 110, 100)],
         example_token 102 ''Real World Sats'' [],
         example_token 103 ''Concrete (1mt)'' [(EntityID 109, 10)],
         example_token 104 ''ASIC Gen 1'' [(EntityID 111, 5)],
         example_token 105 ''Steel (1mt)'' [(EntityID 108, 1000), (EntityID 109, 10)],
         example_token 106 ''Silicon (10kg)'' [(EntityID 109, 10)],
         example_token 107 ''swap(Virtual Sats,Steel (1mt))::shares'' []],
      hashboards = [(tok 104, \<lparr>hash_per_watt = 3, reliability = 100\<rparr>)], steel = [], silicon = []\<rparr>"

definition example_nfts :: NFTRegistry where
  "example_nfts =
     \<lparr>nft_map =
        [(NftPtr (EntityID 111), \<lparr>owner = EntityID 109, nft_id = EntityID 111, transfer_count = 0\<rparr>),
         (NftPtr (EntityID 112), \<lparr>owner = EntityID 110, nft_id = EntityID 112, transfer_count = u128_max\<rparr>)],
      power_plants =
        [(NftPtr (EntityID 111), \<lparr>plant_id = NftPtr (EntityID 111), plant_type = Solar, watts = 3, coordinates = (0, 0)\<rparr>)]\<rparr>"

definition example_sales :: NFTSaleRegistry where
  "example_sales =
     [(NftPtr (EntityID 111), \<lparr>price = 60, sale_currency = tok 101, seller = EntityID 109, sale_transfer_count = 0\<rparr>),
      (NftPtr (EntityID 112), \<lparr>price = 50, sale_currency = tok 101, seller = EntityID 110, sale_transfer_count = u128_max\<rparr>)]"

definition example_prices :: PowerPlantPrices where
  "example_prices = (\<lambda>_. None)
     (Solar := Some [(tok 105, 1), (tok 106, 8), (tok 103, 1)],
      Hydro := Some [(tok 105, 3), (tok 106, 1), (tok 103, 6)],
      Flare := Some [(tok 105, 4), (tok 106, 2), (tok 103, 4)])"

definition example_board :: GameBoard where
  "example_board =
     \<lparr>tokens = example_tokens, swap = [(example_pair, example_market)], turn_count = 0,
      alloc_ids = EntityIDAllocator 120,
      users = [(EntityID 109, \<lparr>user_key = ''alice''\<rparr>), (EntityID 110, \<lparr>user_key = ''bob''\<rparr>)],
      users_by_key = [(''alice'', EntityID 109), (''bob'', EntityID 110)],
      nfts = example_nfts, nft_sales = example_sales, player_move_sequence = [],
      bitcoin_token_id = tok 101, real_sats_token_id = tok 102, steel_token_id = tok 105, silicon_token_id = tok 106,
      concrete_token_id = tok 103, asic_token_id = tok 104, root_user = EntityID 113,
      callbacks = [], elapsed_time = 0, finish_time = 1000, mining_subsidy = 100, ticks = [],
      chat_log = [], nicks = [], chat_counter = 0, event_log = [], event_log_counter = 0,
      plant_prices = example_prices\<rparr>"

lemma example_fields [simp]:
  "tokens example_board = example_tokens"
  "swap example_board = [(example_pair, example_market)]"
  "alloc_ids example_board = EntityIDAllocator 120"
  "users example_board = [(EntityID 109, \<lparr>user_key = ''alice''\<rparr>), (EntityID 110, \<lparr>user_key = ''bob''\<rparr>)]"
  "users_by_key example_board = [(''alice'', EntityID 109), (''bob'', EntityID 110)]"
  "nfts example_board = example_nfts" "nft_sales example_board = example_sales"
  "player_move_sequence example_board = []"
  "bitcoin_token_id example_board = tok 101" "real_sats_token_id example_board = tok 102"
  "steel_token_id example_board = tok 105" "silicon_token_id example_board = tok 106"
  "concrete_token_id example_board = tok 103" "asic_token_id example_board = tok 104"
  "callbacks example_board = []" "elapsed_time example_board = 0" "finish_time example_board = 1000"
  "mining_subsidy example_board = 100" "ticks example_board = []" "chat_log example_board = []"
  "nicks example_board = []" "chat_counter example_board = 0" "event_log example_board = []"
  "event_log_counter example_board = 0" "plant_prices example_board = example_prices"
  by (simp_all add: example_board_def)

lemma example_reg_ok [simp]: "reg_ok example_tokens"
  by (simp add: reg_ok_def example_tokens_def bt_ok_def token_ok_def bt_sum_def)

lemma example_has_token [simp]: "reg_has example_tokens p = (eid (as_id p) \<in> {101..107})"
  by (cases p; cases "as_id p") (auto simp: reg_has_def tok_index_def example_tokens_def bt_get_def)

lemma example_books:
  "books example_tokens (tok 101) = (\<lambda>e. if eid e = 108 then 1000 else if eid e = 109 then 500 else if eid e = 110 then 100 else 0)"
  "books example_tokens (tok 105) = (\<lambda>e. if eid e = 108 then 1000 else if eid e = 109 then 10 else 0)"
  "books example_tokens (tok 104) = (\<lambda>e. if eid e = 111 then 5 else 0)"
proof -
  have e: "(EntityID n = e) = (eid e = n)" "(e = EntityID n) = (eid e = n)" for n e by (cases e; auto)+
  show "books example_tokens (tok 101) = (\<lambda>e. if eid e = 108 then 1000 else if eid e = 109 then 500 else if eid e = 110 then 100 else 0)"
    "books example_tokens (tok 105) = (\<lambda>e. if eid e = 108 then 1000 else if eid e = 109 then 10 else 0)"
    "books example_tokens (tok 104) = (\<lambda>e. if eid e = 111 then 5 else 0)"
    by (auto simp: fun_eq_iff books_def tok_index_def example_tokens_def bt_get_def balance_check_def bt_or_def e
        split: option.splits)
qed

lemma example_supply: "reg_supply example_tokens (tok 107) = 0"
  by (simp add: reg_supply_def tok_index_def example_tokens_def bt_get_def)

lemma example_market_at: "bt_get (swap example_board) p = (if p = example_pair then Some example_market else None)"
  by (auto simp: bt_get_def)

lemma example_nft_index:
  "nft_index example_nfts i =
     (if i = NftPtr (EntityID 111) then Some \<lparr>owner = EntityID 109, nft_id = EntityID 111, transfer_count = 0\<rparr>
      else if i = NftPtr (EntityID 112) then Some \<lparr>owner = EntityID 110, nft_id = EntityID 112, transfer_count = u128_max\<rparr>
      else None)"
  by (auto simp: nft_index_def example_nfts_def bt_get_def)

end
