(* ===== verification/Swap_Books.thy ===== *)
theory Swap_Books
  imports Swap Example_Board
begin

text \<open>
  What the market maker does to the books of the board. \<open>rebooked\<close> and \<open>traded\<close> say what an
  operation may change; \<open>swap_ok\<close> is the invariant that the tokens are well formed, every
  market is stored under its own normalized pair with both its tokens registered, no two
  markets share an id, no market holds less than the reserves it records, and no share of a
  market was ever minted. A \<open>customer\<close>
  is an id handed out by the allocator that is not a market: a user, a producer or an NFT.
\<close>

section \<open>Steps that only move tokens\<close>

text \<open>The board without its tokens, and without anything the market maker may change.\<close>

definition but_tokens :: "GameBoard \<Rightarrow> GameBoard" where
  "but_tokens g = g\<lparr>tokens := reg_rest (tokens g)\<rparr>"

definition but_swap :: "GameBoard \<Rightarrow> GameBoard" where
  "but_swap g = g\<lparr>tokens := reg_rest (tokens g), swap := [], alloc_ids := new_allocator\<rparr>"

lemma but_tokens_update: "reg_rest t = reg_rest (tokens g) \<Longrightarrow> but_tokens (g\<lparr>tokens := t\<rparr>) = but_tokens g"
  by (simp add: but_tokens_def)

lemma but_swap_update [simp]:
  "but_swap (g\<lparr>swap := s\<rparr>) = but_swap g"
  "but_swap (g\<lparr>alloc_ids := a\<rparr>) = but_swap g"
  by (simp_all add: but_swap_def)

lemma but_swap_tokens: "reg_rest t = reg_rest (tokens g) \<Longrightarrow> but_swap (g\<lparr>tokens := t\<rparr>) = but_swap g"
  by (simp add: but_swap_def)

lemma reg_rest_idem [simp]: "reg_rest (reg_rest r) = reg_rest r"
  by (simp add: reg_rest_def)

lemma but_swap_but_tokens: "but_swap g = but_swap (but_tokens g)"
  by (simp add: but_tokens_def but_swap_def)

lemma but_tokensD:
  assumes "but_tokens g' = but_tokens g"
  shows "swap g' = swap g" and "alloc_ids g' = alloc_ids g"
  using arg_cong [OF assms, of swap] arg_cong [OF assms, of alloc_ids] by (simp_all add: but_tokens_def)

definition rebooked :: "GameBoard \<Rightarrow> GameBoard \<Rightarrow> bool" where
  "rebooked g g' = (tokens_ok g' \<and> has_token g' = has_token g \<and> supply_of g' = supply_of g \<and>
     but_tokens g' = but_tokens g)"

lemma rebooked_refl: "tokens_ok g \<Longrightarrow> rebooked g g"
  by (simp add: rebooked_def)

lemma rebooked_trans: "rebooked g g' \<Longrightarrow> rebooked g' g'' \<Longrightarrow> rebooked g g''"
  by (simp add: rebooked_def)

lemma rebookedD:
  assumes "rebooked g g'"
  shows "tokens_ok g'" "has_token g' = has_token g" "supply_of g' = supply_of g"
    and "swap g' = swap g" "alloc_ids g' = alloc_ids g" and "but_swap g' = but_swap g"
  using assms but_tokensD [of g' g] but_swap_but_tokens [of g] but_swap_but_tokens [of g']
  by (simp_all add: rebooked_def)

lemma transfer_tokens_books:
  assumes "tokens_ok g" and "transfer_tokens g p a b n = Some (r, g')"
  shows "rebooked g g'" and "has_token g p" and "r = (n \<le> holding g p a)"
    and "holding g' = moved (holding g) p a b (if n \<le> holding g p a then n else 0)"
proof -
  have fr: "but_tokens g' = but_tokens g"
    using assms(2) by (auto simp: transfer_tokens_Some intro: but_tokens_update reg_rest_mut)
  from assms have "rebooked g g' \<and> has_token g p \<and> r = (n \<le> holding g p a) \<and>
      holding g' = moved (holding g) p a b (if n \<le> holding g p a then n else 0)"
    by (cases rule: board.xfer_cases) (use assms fr in \<open>simp_all add: rebooked_def\<close>)
  then show "rebooked g g'" "has_token g p" "r = (n \<le> holding g p a)"
    "holding g' = moved (holding g) p a b (if n \<le> holding g p a then n else 0)" by blast+
qed

lemma transfer_or_panic_books:
  assumes "tokens_ok g" and "transfer_or_panic g p a b n = Some g'"
  shows "rebooked g g'" and "has_token g p" and "n \<le> holding g p a"
    and "holding g' = moved (holding g) p a b n"
  using assms transfer_tokens_books [OF assms(1), of p a b n]
  by (auto simp: transfer_or_panic_def monad_simps)

lemma transfer_or_panic_returns:
  assumes "tokens_ok g" "has_token g p" "n \<le> holding g p a"
  shows "\<exists>g'. transfer_or_panic g p a b n = Some g'"
  using board.xfer_done [OF assms, of b] by (auto simp: transfer_or_panic_def)

lemma send_out_books:
  assumes "tokens_ok g" and "send_out g p a b n = Some (k, g')"
  shows "rebooked g g'" and "k = (if n \<le> holding g p a then n else 0)"
    and "holding g' = moved (holding g) p a b k"
  using assms transfer_tokens_books [OF assms(1), of p a b n]
  by (auto simp: send_out_def monad_simps rebooked_refl split: if_splits)

lemma send_out_returns:
  assumes "tokens_ok g" "has_token g p"
  shows "\<exists>k g'. send_out g p a b n = Some (k, g')"
  using board.xfer_returns [OF assms, of a b n] by (auto simp: send_out_def)

lemma moved_undo:
  assumes "ka \<le> B p a" and "kb \<le> moved B p a b ka q a"
  shows "moved (moved (moved (moved B p a b ka) q a b kb) p b a ka) q b a kb = B"
  using assms by (intro ext) (auto simp: moved_def)

section \<open>The invariant\<close>

definition ledger_ok :: "GameBoard \<Rightarrow> bool" where
  "ledger_ok g = (tokens_ok g \<and> (\<forall>p. has_token g p \<longrightarrow> eid (as_id p) \<le> last_id (alloc_ids g)))"

definition market_ok :: "GameBoard \<Rightarrow> TradingPairID \<Rightarrow> ConstantFunctionMarketMakerPair \<Rightarrow> bool" where
  "market_ok g p m = (mkt_pair m = p \<and> is_normal p \<and>
     has_token g (asset_a p) \<and> has_token g (asset_b p) \<and> has_token g (lp m) \<and>
     supply_of g (lp m) = 0 \<and> eid (mkt_id m) \<le> last_id (alloc_ids g) \<and>
     reserve_a m \<le> holding g (asset_a p) (mkt_id m) \<and>
     reserve_b m \<le> holding g (asset_b p) (mkt_id m))"

definition is_market :: "GameBoard \<Rightarrow> EntityID \<Rightarrow> bool" where
  "is_market g e = (\<exists>p m. bt_get (swap g) p = Some m \<and> mkt_id m = e)"

definition plain_token :: "GameBoard \<Rightarrow> TokenPointer \<Rightarrow> bool" where
  "plain_token g t = (has_token g t \<and> (\<forall>p m. bt_get (swap g) p = Some m \<longrightarrow> lp m \<noteq> t))"

definition markets_ok :: "GameBoard \<Rightarrow> bool" where
  "markets_ok g = (bt_ok (swap g) \<and> (\<forall>p m. bt_get (swap g) p = Some m \<longrightarrow> market_ok g p m) \<and>
     (\<forall>p m q m'. bt_get (swap g) p = Some m \<longrightarrow> bt_get (swap g) q = Some m' \<longrightarrow>
        mkt_id m = mkt_id m' \<longrightarrow> p = q))"

definition swap_ok :: "GameBoard \<Rightarrow> bool" where
  "swap_ok g = (ledger_ok g \<and> markets_ok g)"

definition customer :: "GameBoard \<Rightarrow> EntityID \<Rightarrow> bool" where
  "customer g e = (eid e \<le> last_id (alloc_ids g) \<and> \<not> is_market g e)"

lemma swap_okD:
  assumes "swap_ok g"
  shows "tokens_ok g" and "ledger_ok g"
    and "bt_get (swap g) p = Some m \<Longrightarrow> market_ok g p m"
    and "bt_get (swap g) p = Some m \<Longrightarrow> bt_get (swap g) q = Some m' \<Longrightarrow> mkt_id m = mkt_id m' \<Longrightarrow> p = q"
  using assms unfolding swap_ok_def ledger_ok_def markets_ok_def by blast+

text \<open>Moving tokens keeps the invariant when no market ends with less.\<close>

lemma swap_ok_rebooked:
  assumes ok: "swap_ok g" and st: "rebooked g g'"
    and more: "\<And>p m q. bt_get (swap g) p = Some m \<Longrightarrow> holding g q (mkt_id m) \<le> holding g' q (mkt_id m)"
  shows "swap_ok g'"
proof -
  note fr = rebookedD [OF st]
  have "market_ok g' p m" if m: "bt_get (swap g') p = Some m" for p m
    using swap_okD(3) [OF ok, of p m] more [of p m "asset_a p"] more [of p m "asset_b p"] m fr
    by (simp add: market_ok_def)
  with ok fr show ?thesis
    unfolding swap_ok_def ledger_ok_def markets_ok_def by simp
qed

lemma customer_rebooked [simp]: "rebooked g g' \<Longrightarrow> customer g' e = customer g e"
  by (simp add: customer_def is_market_def rebookedD)

lemma plain_rebooked [simp]: "rebooked g g' \<Longrightarrow> plain_token g' t = plain_token g t"
  by (simp add: plain_token_def rebookedD)

text \<open>So every payment by a customer keeps it.\<close>

lemma transfer_tokens_ok:
  assumes ok: "swap_ok g" and x: "transfer_tokens g p a b n = Some (r, g')" and c: "customer g a"
  shows "swap_ok g'"
proof (rule swap_ok_rebooked [OF ok])
  note bk = transfer_tokens_books [OF swap_okD(1) [OF ok] x]
  show "rebooked g g'" by (rule bk)
  fix q m p'
  assume "bt_get (swap g) p' = Some m"
  then have "mkt_id m \<noteq> a" using c by (auto simp: customer_def is_market_def)
  then show "holding g q (mkt_id m) \<le> holding g' q (mkt_id m)"
    by (simp add: bk(4) moved_def)
qed

section \<open>What every operation of the market maker leaves alone\<close>

definition traded :: "GameBoard \<Rightarrow> GameBoard \<Rightarrow> bool" where
  "traded g g' =
     (but_swap g' = but_swap g \<and>
      last_id (alloc_ids g) \<le> last_id (alloc_ids g') \<and>
      (\<forall>p. has_token g p \<longrightarrow> has_token g' p) \<and>
      supply_of g' = supply_of g \<and>
      (\<forall>e. customer g e \<longrightarrow> customer g' e) \<and>
      (\<forall>t. plain_token g t \<longrightarrow> plain_token g' t) \<and>
      (\<forall>p m. bt_get (swap g) p = Some m \<longrightarrow>
         (\<exists>m'. bt_get (swap g') p = Some m' \<and> mkt_id m' = mkt_id m \<and> lp m' = lp m)))"

lemma tradedD:
  assumes "traded g g'"
  shows "has_token g p \<Longrightarrow> has_token g' p" and "supply_of g' = supply_of g"
    and "customer g e \<Longrightarrow> customer g' e" and "last_id (alloc_ids g) \<le> last_id (alloc_ids g')"
    and "but_swap g' = but_swap g"
    and "bt_get (swap g) q = Some m \<Longrightarrow>
      \<exists>m'. bt_get (swap g') q = Some m' \<and> mkt_id m' = mkt_id m \<and> lp m' = lp m"
    and "plain_token g t \<Longrightarrow> plain_token g' t"
  using assms unfolding traded_def by blast+

lemma traded_refl: "traded g g"
  by (simp add: traded_def)

lemma traded_trans:
  assumes 1: "traded g g'" and 2: "traded g' g''"
  shows "traded g g''"
  unfolding traded_def
proof (intro conjI allI impI)
  show "but_swap g'' = but_swap g" using tradedD(5) [OF 1] tradedD(5) [OF 2] by simp
  show "last_id (alloc_ids g) \<le> last_id (alloc_ids g'')" using tradedD(4) [OF 1] tradedD(4) [OF 2] by simp
  show "has_token g'' p" if "has_token g p" for p using that tradedD(1) [OF 1] tradedD(1) [OF 2] by blast
  show "supply_of g'' = supply_of g" using tradedD(2) [OF 1] tradedD(2) [OF 2] by simp
  show "customer g'' e" if "customer g e" for e using that tradedD(3) [OF 1] tradedD(3) [OF 2] by blast
  show "plain_token g'' t" if "plain_token g t" for t using that tradedD(7) [OF 1] tradedD(7) [OF 2] by blast
  fix p m
  assume "bt_get (swap g) p = Some m"
  from tradedD(6) [OF 1 this] obtain m' where m': "bt_get (swap g') p = Some m'"
    and "mkt_id m' = mkt_id m" "lp m' = lp m" by blast
  with tradedD(6) [OF 2 m']
  show "\<exists>m''. bt_get (swap g'') p = Some m'' \<and> mkt_id m'' = mkt_id m \<and> lp m'' = lp m" by auto
qed

lemma traded_rebooked: "rebooked g g' \<Longrightarrow> traded g g'"
  using rebookedD [of g g'] by (simp add: traded_def)

section \<open>Finding or creating a market\<close>

lemma ensure_present: "bt_get (swap g) (normalize pair) = Some m \<Longrightarrow> ensure g pair = Some (m, g)"
  by (simp add: ensure_def)

lemma ensure_absent:
  assumes "ensure g pair = Some (m, g')" and "bt_get (swap g) (normalize pair) = None"
  obtains reg nm where
    "new_token (tokens g) \<lparr>balances = [], total = 0, token_this = EntityID (last_id (alloc_ids g) + 1),
       nickname = Some nm\<rparr> = (lp m, reg)"
    "m = \<lparr>mkt_pair = normalize pair, mkt_id = EntityID (last_id (alloc_ids g) + 2), lp = lp m,
       reserve_a = 0, reserve_b = 0\<rparr>"
    "g' = g\<lparr>alloc_ids := EntityIDAllocator (last_id (alloc_ids g) + 2), tokens := reg,
       swap := bt_put (normalize pair) m (swap g)\<rparr>"
    "has_token g (asset_a (normalize pair))" "has_token g (asset_b (normalize pair))"
  using assms
  by (auto simp: ensure_def monad_simps name_or_id_def new_token_def reg_has_def Let_def)

lemma ensure_books:
  assumes ok: "swap_ok g" and e: "ensure g pair = Some (m, g')"
  shows "swap_ok g'" and "traded g g'" and "holding g' = holding g"
    and "bt_get (swap g') (normalize pair) = Some m"
proof -
  let ?p = "normalize pair"
  have "swap_ok g' \<and> traded g g' \<and> holding g' = holding g \<and> bt_get (swap g') ?p = Some m"
  proof (cases "bt_get (swap g) ?p")
    case (Some m')
    with e ensure_present [OF Some] ok show ?thesis by (simp add: traded_refl)
  next
    case None
    from e None obtain reg nm where
      reg: "new_token (tokens g) \<lparr>balances = [], total = 0, token_this = EntityID (last_id (alloc_ids g) + 1),
         nickname = Some nm\<rparr> = (lp m, reg)"
      and m: "m = \<lparr>mkt_pair = ?p, mkt_id = EntityID (last_id (alloc_ids g) + 2), lp = lp m,
         reserve_a = 0, reserve_b = 0\<rparr>"
      and g': "g' = g\<lparr>alloc_ids := EntityIDAllocator (last_id (alloc_ids g) + 2), tokens := reg,
         swap := bt_put ?p m (swap g)\<rparr>"
      and h: "has_token g (asset_a ?p)" "has_token g (asset_b ?p)"
      by (rule ensure_absent)
    have mid: "mkt_id m = EntityID (last_id (alloc_ids g) + 2)" and mp: "mkt_pair m = ?p"
      and mr: "reserve_a m = 0" "reserve_b m = 0"
      by (subst m, simp)+
    have fresh: "\<not> has_token g (TokenPointer (EntityID (last_id (alloc_ids g) + 1)))"
      using swap_okD(2) [OF ok] by (force simp: ledger_ok_def)
    note nt = new_token_books [OF swap_okD(1) [OF ok] _ _ _ _ reg, simplified, OF fresh [simplified]]
    have le: "eid (as_id p) \<le> last_id (alloc_ids g)" if "has_token g p" for p
      using that swap_okD(2) [OF ok] by (simp add: ledger_ok_def)
    have "ledger_ok g'" using nt le by (fastforce simp: ledger_ok_def g')
    moreover have "market_ok g' q n" if "bt_get (swap g') q = Some n" for q n
      using that swap_okD(3) [OF ok, of q n] nt h mid mp mr reg_supply_none [OF fresh]
      by (auto simp: g' market_ok_def split: if_splits)
    moreover have "q = r" if "bt_get (swap g') q = Some n" "bt_get (swap g') r = Some n'" "mkt_id n = mkt_id n'"
      for q r n n'
    proof (rule ccontr)
      note hyps = that
      have look: "bt_get (swap g') y = (if y = ?p then Some m else bt_get (swap g) y)" for y
        by (simp add: g')
      have old: "eid (mkt_id x) < eid (mkt_id m)" if "bt_get (swap g) y = Some x" for x y
        using swap_okD(3) [OF ok that] by (simp add: market_ok_def mid)
      assume "q \<noteq> r"
      then consider "n = m" "bt_get (swap g) r = Some n'" | "n' = m" "bt_get (swap g) q = Some n"
        | "bt_get (swap g) q = Some n" "bt_get (swap g) r = Some n'"
        using hyps(1,2) unfolding look by (cases "q = ?p"; cases "r = ?p") simp_all
      then show False
      proof cases
        case 1
        with old [of r n'] hyps(3) show False by simp
      next
        case 2
        with old [of q n] hyps(3) show False by simp
      next
        case 3
        with swap_okD(4) [OF ok 3 hyps(3)] \<open>q \<noteq> r\<close> show False by simp
      qed
    qed
    moreover have "bt_ok (swap g')"
      using ok by (auto simp: g' swap_ok_def markets_ok_def)
    ultimately have "swap_ok g'" by (auto simp: swap_ok_def markets_ok_def)
    have "customer g' x" if "customer g x" for x
      using that mid by (auto simp: customer_def is_market_def g' split: if_splits)
    moreover have "plain_token g' t" if "plain_token g t" for t
      using that fresh nt by (auto simp: plain_token_def g' split: if_splits)
    ultimately have "traded g g'"
      using nt None but_swap_tokens [OF reg_rest_new [OF reg]] by (auto simp: traded_def g' but_swap_def)
    with \<open>swap_ok g'\<close> show ?thesis using nt by (simp add: g')
  qed
  then show "swap_ok g'" "traded g g'" "holding g' = holding g" "bt_get (swap g') ?p = Some m" by auto
qed

lemma ensure_returns:
  assumes "ledger_ok g" and "has_token g (asset_a pair)" "has_token g (asset_b pair)"
    and "last_id (alloc_ids g) + 2 < 2 ^ 64"
  shows "\<exists>m g'. ensure g pair = Some (m, g')"
proof -
  have "has_token g (asset_a (normalize pair))" "has_token g (asset_b (normalize pair))"
    using assms by (simp_all add: normalize_def)
  then show ?thesis
    using assms(4)
    by (auto simp: ensure_def alloc_def alloc_make_def add_w_def fits_def name_or_id_def reg_has_def
        new_token_def Let_def split: option.splits)
qed

text \<open>Recording the reserves of a market, no more than it holds.\<close>

lemma update_market_books:
  assumes tok: "tokens_ok g" and led: "ledger_ok g" and m: "bt_get (swap g) p = Some m"
    and others: "\<And>q n. bt_get (swap g) q = Some n \<Longrightarrow> q \<noteq> p \<Longrightarrow> market_ok g q n"
    and bt: "bt_ok (swap g)"
    and ids: "\<And>q n r n'. bt_get (swap g) q = Some n \<Longrightarrow> bt_get (swap g) r = Some n' \<Longrightarrow>
      mkt_id n = mkt_id n' \<Longrightarrow> q = r"
    and u: "update_market g p f = Some g'" and f: "f m = Some m'"
    and m': "market_ok g p m'" "mkt_id m' = mkt_id m" "lp m' = lp m"
  shows "swap_ok g'" and "traded g g'" and "holding g' = holding g" and "bt_get (swap g') p = Some m'"
proof -
  from u m f have g': "g' = g\<lparr>swap := bt_put p m' (swap g)\<rparr>" by (simp add: update_market_def)
  have same: "(bt_get (swap g') q = Some n \<and> mkt_id n = i) \<Longrightarrow> \<exists>n'. bt_get (swap g) q = Some n' \<and> mkt_id n' = i"
    for q n i
    using m m' by (auto simp: g' split: if_splits)
  show "swap_ok g'"
    unfolding swap_ok_def markets_ok_def
  proof (intro conjI allI impI)
    show "ledger_ok g'" using led by (simp add: g' ledger_ok_def)
    show "bt_ok (swap g')" using bt by (simp add: g' bt_ok_put)
    show "market_ok g' q n" if "bt_get (swap g') q = Some n" for q n
      using that others m' by (auto simp: g' market_ok_def split: if_splits)
    show "q = r" if "bt_get (swap g') q = Some n" "bt_get (swap g') r = Some n'" "mkt_id n = mkt_id n'" for q r n n'
      using that ids same by metis
  qed
  have "is_market g' e \<Longrightarrow> is_market g e" for e
    using same by (fastforce simp: is_market_def)
  moreover have "plain_token g' t" if "plain_token g t" for t
    using that m m' by (auto simp: plain_token_def g' split: if_splits)
  ultimately show "traded g g'"
    using m m' by (auto simp: traded_def g' customer_def)
  show "holding g' = holding g" "bt_get (swap g') p = Some m'" by (simp_all add: g')
qed

section \<open>Swaps\<close>

text \<open>The market pays; an undone swap restores the books.\<close>

lemma undo_books:
  assumes tok: "tokens_ok g"
    and 1: "send_out g p m s a = Some (ka, g1)" and 2: "send_out g1 q m s b = Some (kb, g2)"
    and 3: "transfer_or_panic g2 p s m ka = Some g3" and 4: "transfer_or_panic g3 q s m kb = Some g4"
  shows "rebooked g g4" and "holding g4 = holding g"
proof -
  note b1 = send_out_books [OF tok 1]
  note b2 = send_out_books [OF rebookedD(1) [OF b1(1)] 2]
  note b3 = transfer_or_panic_books [OF rebookedD(1) [OF b2(1)] 3]
  note b4 = transfer_or_panic_books [OF rebookedD(1) [OF b3(1)] 4]
  show "rebooked g g4" by (meson b1(1) b2(1) b3(1) b4(1) rebooked_trans)
  have "ka \<le> holding g p m" using b1(2) by simp
  moreover have "kb \<le> moved (holding g) p m s ka q m" using b2(2) b1(3) by simp
  ultimately show "holding g4 = holding g"
    using moved_undo [of ka "holding g" p m kb s q] b1(3) b2(3) b3(4) b4(4) by simp
qed

lemma paid_out_others:
  assumes ok: "swap_ok g" and st: "rebooked g g'" and c: "customer g s" and m: "bt_get (swap g) p = Some m"
    and h: "holding g' = moved (moved (holding g) x (mkt_id m) s a) y (mkt_id m) s b"
    and n: "bt_get (swap g) q = Some n" "q \<noteq> p"
  shows "market_ok g' q n"
proof -
  have "mkt_id n \<noteq> mkt_id m" using swap_okD(4) [OF ok n(1) m] n(2) by blast
  moreover have "mkt_id n \<noteq> s" using c n by (auto simp: customer_def is_market_def)
  ultimately have "holding g' z (mkt_id n) = holding g z (mkt_id n)" for z by (simp add: h)
  then show ?thesis
    using swap_okD(3) [OF ok n(1)] rebookedD [OF st] by (simp add: market_ok_def)
qed

text \<open>\<open>raw_swap\<close> on a normalized pair, from its market on.\<close>

lemma raw_swap_at:
  assumes "is_normal pair" and "ensure g pair = Some (m, g1)"
  shows "raw_swap g pair a b s = do {
      (ka, g2) \<leftarrow> send_out g1 (asset_a (mkt_pair m)) (mkt_id m) s a;
      (kb, g3) \<leftarrow> send_out g2 (asset_b (mkt_pair m)) (mkt_id m) s b;
      if ka \<noteq> a \<or> kb \<noteq> b then do {
        g4 \<leftarrow> transfer_or_panic g3 (asset_a (mkt_pair m)) s (mkt_id m) ka;
        g5 \<leftarrow> transfer_or_panic g4 (asset_b (mkt_pair m)) s (mkt_id m) kb;
        Some (Inl (InsufficientTokens ''Insufficient funds asset''), g5)
      }
      else do {
        qa \<leftarrow> balance g3 (asset_a (mkt_pair m)) (mkt_id m);
        qb \<leftarrow> balance g3 (asset_b (mkt_pair m)) (mkt_id m);
        k_2 \<leftarrow> mul128 qa qb;
        k_1 \<leftarrow> mul128 (reserve_a m) (reserve_b m);
        if k_2 < k_1 then do {
          g4 \<leftarrow> transfer_or_panic g3 (asset_a (mkt_pair m)) s (mkt_id m) a;
          g5 \<leftarrow> transfer_or_panic g4 (asset_b (mkt_pair m)) s (mkt_id m) b;
          Some (Inl (InvalidTrade ''Reserves Not Preserved''), g5)
        }
        else do {
          g4 \<leftarrow> update_market g3 (mkt_pair m) (\<lambda>m. Some (m\<lparr>reserve_a := qa, reserve_b := qb\<rparr>));
          Some (Inr (), g4)
        }
      }
    }"
  using assms by (simp add: raw_swap_def normalize_amounts_def Let_def)

lemma raw_swap_books:
  assumes ok: "swap_ok g" and e: "raw_swap g pair a b s = Some (r, g')"
    and nrm: "is_normal pair" and c: "customer g s"
  obtains (kept) er m g1 where "r = Inl er" "swap_ok g'" "traded g g'" "holding g' = holding g"
        "ensure g pair = Some (m, g1)" "rebooked g1 g'"
    | (swapped) m where "r = Inr ()" "swap_ok g'" "traded g g'" "bt_get (swap g') pair = Some m"
        "holding g' = moved (moved (holding g) (asset_a pair) (mkt_id m) s a) (asset_b pair) (mkt_id m) s b"
        "reserve_a m = holding g' (asset_a pair) (mkt_id m)" "reserve_b m = holding g' (asset_b pair) (mkt_id m)"
proof -
  from e nrm obtain m g1 where en: "ensure g pair = Some (m, g1)"
    by (cases "ensure g pair") (auto simp: raw_swap_def normalize_amounts_def)
  note eb = ensure_books [OF ok en, simplified normalize_normal [OF nrm]]
  note g1 = swap_okD(1) [OF eb(1)]
  have mok: "market_ok g1 pair m" using swap_okD(3) [OF eb(1,4)] .
  have mp: "mkt_pair m = pair" using mok by (simp add: market_ok_def)
  note e = e [unfolded raw_swap_at [OF nrm en] mp]
  from e obtain ka g2 where s1: "send_out g1 (asset_a pair) (mkt_id m) s a = Some (ka, g2)"
    by (cases "send_out g1 (asset_a pair) (mkt_id m) s a") auto
  note e = e [unfolded s1, simplified]
  from e obtain kb g3 where s2: "send_out g2 (asset_b pair) (mkt_id m) s b = Some (kb, g3)"
    by (cases "send_out g2 (asset_b pair) (mkt_id m) s b") auto
  note e = e [unfolded s2, simplified]
  note b1 = send_out_books [OF g1 s1]
  note b2 = send_out_books [OF rebookedD(1) [OF b1(1)] s2]
  have st: "rebooked g1 g3" using b1(1) b2(1) rebooked_trans by blast
  have undo: thesis if "transfer_or_panic g3 (asset_a pair) s (mkt_id m) ka = Some g4"
    "transfer_or_panic g4 (asset_b pair) s (mkt_id m) kb = Some g5" "r = Inl er" "g' = g5" for g4 g5 er
  proof -
    note u = undo_books [OF g1 s1 s2 that(1,2)]
    have "swap_ok g5" by (rule swap_ok_rebooked [OF eb(1) u(1)]) (simp add: u(2))
    moreover have "traded g g5" using eb(2) traded_rebooked [OF u(1)] traded_trans by blast
    ultimately show thesis using that(3,4) u eb(3) en by (intro kept) simp_all
  qed
  show thesis
  proof (cases "ka \<noteq> a \<or> kb \<noteq> b")
    case True
    then obtain g4 g5 where "transfer_or_panic g3 (asset_a pair) s (mkt_id m) ka = Some g4"
      "transfer_or_panic g4 (asset_b pair) s (mkt_id m) kb = Some g5"
      "r = Inl (InsufficientTokens ''Insufficient funds asset'')" "g' = g5"
      using e by (auto simp: bind_SomeD simp del: de_Morgan_conj)
    then show thesis by (rule undo)
  next
    case False
    then have k: "ka = a" "kb = b" by auto
    let ?qa = "holding g3 (asset_a pair) (mkt_id m)" and ?qb = "holding g3 (asset_b pair) (mkt_id m)"
    let ?m = "m\<lparr>reserve_a := ?qa, reserve_b := ?qb\<rparr>"
    have bal: "balance g3 (asset_a pair) (mkt_id m) = Some ?qa" "balance g3 (asset_b pair) (mkt_id m) = Some ?qb"
      using mok rebookedD(2) [OF st] by (simp_all add: balance_Some market_ok_def)
    from e obtain k2 k1 where km: "mul128 ?qa ?qb = Some k2" "mul128 (reserve_a m) (reserve_b m) = Some k1"
      unfolding k bal by (cases "mul128 ?qa ?qb"; cases "mul128 (reserve_a m) (reserve_b m)") simp_all
    have kv: "k2 = ?qa * ?qb" "k1 = reserve_a m * reserve_b m" using km by (simp_all add: arith_checked)
    from e have rest: "(if ?qa * ?qb < reserve_a m * reserve_b m then do {
              g4 \<leftarrow> transfer_or_panic g3 (asset_a pair) s (mkt_id m) a;
              g5 \<leftarrow> transfer_or_panic g4 (asset_b pair) s (mkt_id m) b;
              Some (Inl (InvalidTrade ''Reserves Not Preserved''), g5)
            }
            else do {
              g4 \<leftarrow> update_market g3 pair (\<lambda>m. Some (m\<lparr>reserve_a := ?qa, reserve_b := ?qb\<rparr>));
              Some (Inr (), g4)
            }) = Some (r, g')"
      by (simp add: k bal km kv [symmetric])
    show thesis
    proof (cases "?qa * ?qb < reserve_a m * reserve_b m")
      case True
      with rest obtain g4 g5 where "transfer_or_panic g3 (asset_a pair) s (mkt_id m) ka = Some g4"
        "transfer_or_panic g4 (asset_b pair) s (mkt_id m) kb = Some g5"
        "r = Inl (InvalidTrade ''Reserves Not Preserved'')" "g' = g5"
        by (auto simp: bind_SomeD k)
      then show thesis by (rule undo)
    next
      case False
      with rest have u: "update_market g3 pair (\<lambda>m. Some (m\<lparr>reserve_a := ?qa, reserve_b := ?qb\<rparr>)) = Some g'"
        and r: "r = Inr ()" by (auto simp: monad_simps)
      note fr = rebookedD [OF st]
      have h: "holding g3 = moved (moved (holding g) (asset_a pair) (mkt_id m) s a) (asset_b pair) (mkt_id m) s b"
        using b1(3) b2(3) eb(3) k by simp
      have cs: "customer g1 s" using tradedD(3) [OF eb(2) c] .
      have m3: "bt_get (swap g3) pair = Some m" using eb(4) fr by simp
      have led: "ledger_ok g3" using swap_okD(2) [OF eb(1)] fr by (simp add: ledger_ok_def)
      have oth: "market_ok g3 q n" if "bt_get (swap g3) q = Some n" "q \<noteq> pair" for q n
        using paid_out_others [OF eb(1) st cs eb(4), of "asset_a pair" a "asset_b pair" b q n] h eb(3) that fr by simp
      have bt: "bt_ok (swap g3)" using eb(1) fr by (simp add: swap_ok_def markets_ok_def)
      have ids: "q = t" if "bt_get (swap g3) q = Some n" "bt_get (swap g3) t = Some n'" "mkt_id n = mkt_id n'" for q n t n'
        using swap_okD(4) [OF eb(1), of q n t n'] that fr by simp
      have mok3: "market_ok g3 pair ?m" using mok fr by (simp add: market_ok_def)
      have same: "mkt_id ?m = mkt_id m" "lp ?m = lp m" by simp_all
      note ub = update_market_books [where g = g3 and p = pair and m = m and m' = ?m and g' = g' and
          f = "\<lambda>m. Some (m\<lparr>reserve_a := ?qa, reserve_b := ?qb\<rparr>)", OF fr(1) led m3 oth bt ids u refl mok3 same]
      have "traded g g'"
        by (rule traded_trans [OF traded_trans [OF eb(2) traded_rebooked [OF st]] ub(2)])
      then show thesis
        using r ub h by (intro swapped [of ?m]) simp_all
    qed
  qed
qed

section \<open>Trades\<close>

text \<open>The reserves a market records are what it holds.\<close>

definition in_sync :: "GameBoard \<Rightarrow> ConstantFunctionMarketMakerPair \<Rightarrow> bool" where
  "in_sync g m = (reserve_a m = holding g (asset_a (mkt_pair m)) (mkt_id m) \<and>
     reserve_b m = holding g (asset_b (mkt_pair m)) (mkt_id m))"

lemma market_same:
  assumes "traded g g'" and "bt_get (swap g) p = Some m" and "bt_get (swap g') p = Some m'"
  shows "mkt_id m' = mkt_id m"
  using tradedD(6) [OF assms(1,2)] assms(3) by auto

lemma swap_helper_books:
  assumes ok: "swap_ok g" and e: "swap_helper selling buying g 0 y s = Some (r, g')"
    and c: "customer g s" and m: "bt_get (swap g) (normalize (TradingPairID selling buying)) = Some m"
  obtains (kept) er where "r = Inl er" "rebooked g g'" "holding g' = holding g"
    | (swapped) m' where "r = Inr ()" "swap_ok g'" "traded g g'"
        "bt_get (swap g') (normalize (TradingPairID selling buying)) = Some m'" "mkt_id m' = mkt_id m"
        "holding g' = moved (holding g) buying (mkt_id m) s y" "in_sync g' m'"
proof -
  let ?p = "normalize (TradingPairID selling buying)"
  have nrm: "is_normal ?p" by simp
  obtain a b where rs: "raw_swap g ?p a b s = Some (r, g')"
    and ab: "moved (moved H (asset_a ?p) M s a) (asset_b ?p) M s b = moved H buying M s y" for H M
    using e by (cases "is_normal (TradingPairID selling buying)")
      (auto simp: swap_helper_def normalize_def is_normal_def)
  from ok rs nrm c show thesis
  proof (cases rule: raw_swap_books)
    case (kept er m1 g1)
    have "ensure g ?p = Some (m, g)" by (rule ensure_present) (simp add: m)
    with kept show thesis by (intro that(1)) simp_all
  next
    case (swapped m')
    have "mkt_id m' = mkt_id m" by (rule market_same [OF swapped(3) m swapped(4)])
    moreover have "mkt_pair m' = ?p"
      using swap_okD(3) [OF swapped(2,4)] by (simp add: market_ok_def)
    ultimately show thesis
      using swapped ab by (intro that(2) [of m']) (simp_all add: in_sync_def)
  qed
qed

lemma settle_books:
  assumes ok: "swap_ok g" and e: "settle g m selling buying x y s = Some (r, g')"
    and c: "customer g s" and m: "bt_get (swap g) (normalize (TradingPairID selling buying)) = Some m"
  obtains (kept) er where "r = Inl er" "swap_ok g'" "traded g g'" "holding g' = holding g"
    | (settled) m' where "r = Inr ()" "swap_ok g'" "traded g g'" "x \<le> holding g selling s"
        "bt_get (swap g') (normalize (TradingPairID selling buying)) = Some m'" "mkt_id m' = mkt_id m"
        "holding g' = moved (moved (holding g) selling s (mkt_id m) x) buying (mkt_id m) s y" "in_sync g' m'"
proof -
  from e obtain g1 where t: "transfer_or_panic g selling s (mkt_id m) x = Some g1"
    by (cases "transfer_or_panic g selling s (mkt_id m) x") (auto simp: settle_def)
  note b1 = transfer_or_panic_books [OF swap_okD(1) [OF ok] t]
  note fr1 = rebookedD [OF b1(1)]
  have ok1: "swap_ok g1"
  proof (rule transfer_tokens_ok [OF ok _ c])
    show "transfer_tokens g selling s (mkt_id m) x = Some (True, g1)"
      using t by (auto simp: transfer_or_panic_def monad_simps)
  qed
  note t1 = traded_rebooked [OF b1(1)]
  have c1: "customer g1 s" by (rule tradedD(3) [OF t1 c])
  have m1: "bt_get (swap g1) (normalize (TradingPairID selling buying)) = Some m" using m fr1 by simp
  from e t obtain r2 g2 where h: "swap_helper selling buying g1 0 y s = Some (r2, g2)"
    and rest: "(case r2 of Inr _ \<Rightarrow> Some (Inr (), g2)
      | Inl e \<Rightarrow> do { (_, g3) \<leftarrow> transfer_tokens g2 selling (mkt_id m) s x; Some (Inl e, g3) }) = Some (r, g')"
    by (cases "swap_helper selling buying g1 0 y s") (auto simp: settle_def)
  from ok1 h c1 m1 show thesis
  proof (cases rule: swap_helper_books)
    case (kept er)
    with rest obtain q where bk: "transfer_tokens g2 selling (mkt_id m) s x = Some (q, g')" and r: "r = Inl er"
      by (auto simp: bind_SomeD)
    note b3 = transfer_tokens_books [OF rebookedD(1) [OF kept(2)] bk]
    have "x \<le> holding g2 selling (mkt_id m)"
      using b1(3) unfolding kept(3) b1(4) by (rule moved_back_enough)
    then have hg: "holding g' = holding g"
      using b3(4) kept(3) b1(4) moved_back [of x "holding g" selling s "mkt_id m"] b1(3) by simp
    have st: "rebooked g g'" using b1(1) kept(2) b3(1) rebooked_trans by blast
    have "swap_ok g'" by (rule swap_ok_rebooked [OF ok st]) (simp add: hg)
    then show thesis using r traded_rebooked [OF st] hg by (intro that(1))
  next
    case (swapped m')
    have tr: "traded g g'" using rest swapped traded_trans [OF t1 swapped(3)] by simp
    then show thesis using rest swapped b1 by (intro that(2) [of m']) simp_all
  qed
qed

lemma finish_trade_books:
  assumes ok: "swap_ok g" and e: "finish_trade g i m selling buying bn sn x y sim s = Some (r, g')"
    and c: "customer g s" and m: "bt_get (swap g) (normalize (TradingPairID selling buying)) = Some m"
  obtains (kept) er where "r = Inl er" "swap_ok g'" "traded g g'" "holding g' = holding g"
    | (simulated) "sim" "g' = g" "x \<le> holding g selling s"
        "r = Inr \<lparr>trading_pair = i, asset_player_purchased = bn, amount_player_purchased = y,
           asset_player_sold = sn, amount_player_sold = x\<rparr>"
    | (settled) m' where "\<not> sim" "swap_ok g'" "traded g g'" "x \<le> holding g selling s"
        "r = Inr \<lparr>trading_pair = i, asset_player_purchased = bn, amount_player_purchased = y,
           asset_player_sold = sn, amount_player_sold = x\<rparr>"
        "bt_get (swap g') (normalize (TradingPairID selling buying)) = Some m'" "mkt_id m' = mkt_id m"
        "holding g' = moved (moved (holding g) selling s (mkt_id m) x) buying (mkt_id m) s y" "in_sync g' m'"
proof -
  from e obtain funds where f: "balance g selling s = Some funds"
    by (cases "balance g selling s") (auto simp: finish_trade_def)
  then have fn: "funds = holding g selling s" by (simp add: balance_Some)
  note e = e [unfolded finish_trade_def f, simplified]
  show thesis
  proof (cases "x \<le> funds")
    case False
    with e ok show thesis by (intro kept [of user_insufficient]) (simp_all add: traded_refl)
  next
    case x: True
    show thesis
    proof (cases sim)
      case True
      with e x fn show thesis by (intro simulated) simp_all
    next
      case False
      with e x obtain r2 where st: "settle g m selling buying x y s = Some (r2, g')"
        and r: "r = (case r2 of Inl e \<Rightarrow> Inl e
           | Inr _ \<Rightarrow> Inr \<lparr>trading_pair = i, asset_player_purchased = bn, amount_player_purchased = y,
               asset_player_sold = sn, amount_player_sold = x\<rparr>)"
        by (cases "settle g m selling buying x y s") auto
      from ok st c m show thesis
      proof (cases rule: settle_books)
        case (kept er)
        with r show thesis by (intro that(1) [of er]) simp_all
      next
        case (settled m')
        with r False show thesis by (intro that(3) [of m']) simp_all
      qed
    qed
  qed
qed

text \<open>The sides of a trade, from the amounts a player gives for a pair.\<close>

definition sell_side :: "TradingPairID \<Rightarrow> u128 \<Rightarrow> u128 \<Rightarrow> TokenPointer \<times> TokenPointer \<times> u128" where
  "sell_side pair a b = (if a = 0 then (asset_b pair, asset_a pair, b) else (asset_a pair, asset_b pair, a))"

text \<open>Both trades from their market on, for one amount of the pair that is not 0.\<close>

lemma sell_trade_from:
  assumes "normalize pair = p" and "ensure g p = Some (m, g1)" and "(a = 0) \<noteq> (b = 0)"
    and "sell_side pair a b = (selling, buying, n)"
  shows "do_sell_trade g pair a b lim sim s = do {
      bn \<leftarrow> token_name g1 buying;
      sn \<leftarrow> token_name g1 selling;
      qs \<leftarrow> balance g1 selling (mkt_id m);
      qb \<leftarrow> balance g1 buying (mkt_id m);
      if (case lim of Some l \<Rightarrow> qb < l | None \<Rightarrow> False)
      then Some (Inl (InsufficientTokens ''Not Enough Liquidity to Buy Min''), g1)
      else do {
        (x, y) \<leftarrow> sell_quote qs qb n;
        if (case lim of Some l \<Rightarrow> y < l | None \<Rightarrow> False) then Some (Inl MarketSlipped, g1)
        else finish_trade g1 p m selling buying bn sn x y sim s
      }
    }"
  using assms
  by (auto simp: do_sell_trade_def internal_do_trade_sell_fixed_amount_def normalize_amounts_def
      sell_side_def Let_def is_normal_def normalize_def cong: prod.case_cong if_cong)

lemma buy_trade_from:
  assumes "normalize pair = p" and "ensure g p = Some (m, g1)" and "(a = 0) \<noteq> (b = 0)"
    and "sell_side pair a b = (buying, selling, n)"
  shows "do_buy_trade g pair a b lim sim s = do {
      sn \<leftarrow> token_name g1 selling;
      bn \<leftarrow> token_name g1 buying;
      qs \<leftarrow> balance g1 selling (mkt_id m);
      qb \<leftarrow> balance g1 buying (mkt_id m);
      if n > qb then Some (Inl (InsufficientTokens ''Market has insufficient tokens''), g1)
      else do {
        (x, y) \<leftarrow> buy_quote qs qb n;
        if (case lim of Some l \<Rightarrow> x > l | None \<Rightarrow> False) then Some (Inl MarketSlipped, g1)
        else finish_trade g1 p m selling buying bn sn x y sim s
      }
    }"
  using assms
  by (auto simp: do_buy_trade_def internal_do_trade_buy_fixed_amount_def normalize_amounts_def
      sell_side_def Let_def is_normal_def normalize_def cong: prod.case_cong if_cong)

text \<open>
  What either trade does: rejected, it leaves every balance alone; accepted, it moves what it
  reports, at a price that keeps the product of the reserves, and only if it is no simulation.
\<close>

definition trade_effect ::
  "GameBoard \<Rightarrow> TradingPairID \<Rightarrow> EntityID \<Rightarrow> TokenPointer \<Rightarrow> TokenPointer \<Rightarrow> bool \<Rightarrow>
   TradeError + TradeOutcome \<Rightarrow> GameBoard \<Rightarrow> bool" where
  "trade_effect g p s selling buying sim r g' =
     (case r of
        Inl _ \<Rightarrow> holding g' = holding g
      | Inr out \<Rightarrow>
          trading_pair out = p \<and> amount_player_sold out \<le> holding g selling s \<and>
          (\<exists>m. bt_get (swap g') p = Some m \<and>
             fair (holding g selling (mkt_id m)) (holding g buying (mkt_id m))
               (amount_player_sold out) (amount_player_purchased out) \<and>
             (if sim then holding g' = holding g
              else holding g' = moved (moved (holding g) selling s (mkt_id m) (amount_player_sold out))
                     buying (mkt_id m) s (amount_player_purchased out) \<and> in_sync g' m)))"

lemma finish_trade_effect:
  assumes ok: "swap_ok g" and e: "finish_trade g p m selling buying bn sn x y sim s = Some (r, g')"
    and c: "customer g s" and p: "normalize (TradingPairID selling buying) = p"
    and m: "bt_get (swap g) p = Some m"
    and f: "fair (holding g selling (mkt_id m)) (holding g buying (mkt_id m)) x y"
  shows "swap_ok g' \<and> traded g g' \<and> trade_effect g p s selling buying sim r g'"
    and "r = Inr out \<Longrightarrow> amount_player_sold out = x \<and> amount_player_purchased out = y"
proof -
  note m' = m [folded p]
  from ok e c m' have "swap_ok g' \<and> traded g g' \<and> trade_effect g p s selling buying sim r g' \<and>
      (\<forall>out. r = Inr out \<longrightarrow> amount_player_sold out = x \<and> amount_player_purchased out = y)"
  proof (cases rule: finish_trade_books)
    case (kept er)
    then show ?thesis by (simp add: trade_effect_def)
  next
    case simulated
    with ok m f show ?thesis by (simp add: trade_effect_def traded_refl)
  next
    case (settled n)
    with f p show ?thesis by (simp add: trade_effect_def)
  qed
  then show "swap_ok g' \<and> traded g g' \<and> trade_effect g p s selling buying sim r g'"
    and "r = Inr out \<Longrightarrow> amount_player_sold out = x \<and> amount_player_purchased out = y" by blast+
qed

lemma trade_effect_later:
  assumes "trade_effect g1 p s selling buying sim r g'" and "holding g1 = holding g"
  shows "trade_effect g p s selling buying sim r g'"
  using assms(1) unfolding trade_effect_def assms(2) .

lemma sell_side_pair:
  "sell_side pair a b = (selling, buying, n) \<Longrightarrow> normalize (TradingPairID selling buying) = normalize pair"
  "sell_side pair a b = (buying, selling, n) \<Longrightarrow> normalize (TradingPairID selling buying) = normalize pair"
  by (cases pair; auto simp: sell_side_def normalize_def split: if_splits)+

lemma zero_trade:
  assumes "ensure g (normalize pair) = Some (m, g1)" and "(a = 0) = (b = 0)"
  shows "\<exists>er. do_sell_trade g pair a b lim sim s = Some (Inl er, g1)"
    and "\<exists>er. do_buy_trade g pair a b lim sim s = Some (Inl er, g1)"
  using assms
  by (auto simp: do_sell_trade_def internal_do_trade_sell_fixed_amount_def do_buy_trade_def
      internal_do_trade_buy_fixed_amount_def normalize_amounts_def Let_def)

lemma trade_ensures:
  "do_sell_trade g pair a b lim sim s = Some q \<Longrightarrow> \<exists>m g1. ensure g (normalize pair) = Some (m, g1)"
  "do_buy_trade g pair a b lim sim s = Some q \<Longrightarrow> \<exists>m g1. ensure g (normalize pair) = Some (m, g1)"
  by (cases "ensure g (normalize pair)"; auto simp: do_sell_trade_def
      internal_do_trade_sell_fixed_amount_def do_buy_trade_def internal_do_trade_buy_fixed_amount_def
      normalize_amounts_def Let_def)+

lemma sell_trade_effect:
  assumes ok: "swap_ok g" and c: "customer g s" and e: "do_sell_trade g pair a b lim sim s = Some (r, g')"
    and sd: "sell_side pair a b = (selling, buying, n)"
  shows "swap_ok g' \<and> traded g g' \<and> trade_effect g (normalize pair) s selling buying sim r g'"
    and "r = Inr out \<Longrightarrow> amount_player_sold out \<le> n \<and> (\<forall>l. lim = Some l \<longrightarrow> l \<le> amount_player_purchased out)"
proof -
  from trade_ensures(1) [OF e] obtain m g1 where en: "ensure g (normalize pair) = Some (m, g1)" by blast
  note eb = ensure_books [OF ok en, simplified]
  have "swap_ok g' \<and> traded g g' \<and> trade_effect g (normalize pair) s selling buying sim r g' \<and>
      (\<forall>out. r = Inr out \<longrightarrow> amount_player_sold out \<le> n \<and> (\<forall>l. lim = Some l \<longrightarrow> l \<le> amount_player_purchased out))"
  proof (cases "(a = 0) = (b = 0)")
    case True
    with zero_trade(1) [OF en True, of lim sim s] e eb show ?thesis by (auto simp: trade_effect_def)
  next
    case False
    note e = e [unfolded sell_trade_from [OF refl en False sd]]
    let ?qs = "holding g1 selling (mkt_id m)" and ?qb = "holding g1 buying (mkt_id m)"
    from e obtain bn sn where bal: "token_name g1 buying = Some bn" "token_name g1 selling = Some sn"
      "balance g1 selling (mkt_id m) = Some ?qs" "balance g1 buying (mkt_id m) = Some ?qb"
      by (cases "token_name g1 buying"; cases "token_name g1 selling")
        (auto simp: bind_SomeD balance_Some split: if_splits)
    note e = e [unfolded bal, simplified]
    show ?thesis
    proof (cases "case lim of Some l \<Rightarrow> ?qb < l | None \<Rightarrow> False")
      case True
      with e eb show ?thesis by (auto simp: trade_effect_def)
    next
      case False
      with e obtain x y where q: "sell_quote ?qs ?qb n = Some (x, y)"
        by (cases "sell_quote ?qs ?qb n") auto
      note sf = sell_quote_fair [OF q]
      show ?thesis
      proof (cases "case lim of Some l \<Rightarrow> y < l | None \<Rightarrow> False")
        case True
        with e q False eb show ?thesis by (auto simp: trade_effect_def)
      next
        case lim: False
        with e q False have ft: "finish_trade g1 (normalize pair) m selling buying bn sn x y sim s = Some (r, g')"
          by simp
        note fe = finish_trade_effect [OF eb(1) ft tradedD(3) [OF eb(2) c] sell_side_pair(1) [OF sd] eb(4) sf(1)]
        have "traded g g'" using fe(1) traded_trans [OF eb(2)] by blast
        moreover have "trade_effect g (normalize pair) s selling buying sim r g'"
          using fe(1) eb(3) by (blast intro: trade_effect_later)
        ultimately show ?thesis using fe sf(2) lim by (auto split: option.splits)
      qed
    qed
  qed
  then show "swap_ok g' \<and> traded g g' \<and> trade_effect g (normalize pair) s selling buying sim r g'"
    and "r = Inr out \<Longrightarrow> amount_player_sold out \<le> n \<and> (\<forall>l. lim = Some l \<longrightarrow> l \<le> amount_player_purchased out)"
    by blast+
qed

lemma buy_trade_effect:
  assumes ok: "swap_ok g" and c: "customer g s" and e: "do_buy_trade g pair a b lim sim s = Some (r, g')"
    and sd: "sell_side pair a b = (buying, selling, n)"
  shows "swap_ok g' \<and> traded g g' \<and> trade_effect g (normalize pair) s selling buying sim r g'"
    and "r = Inr out \<Longrightarrow> n \<le> amount_player_purchased out \<and> (\<forall>l. lim = Some l \<longrightarrow> amount_player_sold out \<le> l)"
proof -
  from trade_ensures(2) [OF e] obtain m g1 where en: "ensure g (normalize pair) = Some (m, g1)" by blast
  note eb = ensure_books [OF ok en, simplified]
  have "swap_ok g' \<and> traded g g' \<and> trade_effect g (normalize pair) s selling buying sim r g' \<and>
      (\<forall>out. r = Inr out \<longrightarrow> n \<le> amount_player_purchased out \<and> (\<forall>l. lim = Some l \<longrightarrow> amount_player_sold out \<le> l))"
  proof (cases "(a = 0) = (b = 0)")
    case True
    with zero_trade(2) [OF en True, of lim sim s] e eb show ?thesis by (auto simp: trade_effect_def)
  next
    case False
    note e = e [unfolded buy_trade_from [OF refl en False sd]]
    let ?qs = "holding g1 selling (mkt_id m)" and ?qb = "holding g1 buying (mkt_id m)"
    from e obtain bn sn where bal: "token_name g1 buying = Some bn" "token_name g1 selling = Some sn"
      "balance g1 selling (mkt_id m) = Some ?qs" "balance g1 buying (mkt_id m) = Some ?qb"
      by (cases "token_name g1 buying"; cases "token_name g1 selling")
        (auto simp: bind_SomeD balance_Some split: if_splits)
    note e = e [unfolded bal, simplified]
    show ?thesis
    proof (cases "n > ?qb")
      case True
      with e eb show ?thesis by (auto simp: trade_effect_def)
    next
      case False
      with e obtain x y where q: "buy_quote ?qs ?qb n = Some (x, y)"
        by (cases "buy_quote ?qs ?qb n") auto
      note sf = buy_quote_fair [OF q]
      show ?thesis
      proof (cases "case lim of Some l \<Rightarrow> x > l | None \<Rightarrow> False")
        case True
        with e q False eb show ?thesis by (auto simp: trade_effect_def)
      next
        case lim: False
        with e q False have ft: "finish_trade g1 (normalize pair) m selling buying bn sn x y sim s = Some (r, g')"
          by simp
        note fe = finish_trade_effect [OF eb(1) ft tradedD(3) [OF eb(2) c] sell_side_pair(2) [OF sd] eb(4) sf(1)]
        have "traded g g'" using fe(1) traded_trans [OF eb(2)] by blast
        moreover have "trade_effect g (normalize pair) s selling buying sim r g'"
          using fe(1) eb(3) by (blast intro: trade_effect_later)
        ultimately show ?thesis using fe sf(2) lim by (auto split: option.splits)
      qed
    qed
  qed
  then show "swap_ok g' \<and> traded g g' \<and> trade_effect g (normalize pair) s selling buying sim r g'"
    and "r = Inr out \<Longrightarrow> n \<le> amount_player_purchased out \<and> (\<forall>l. lim = Some l \<longrightarrow> amount_player_sold out \<le> l)"
    by blast+
qed

section \<open>Deposits\<close>

lemma mint_tokens_books:
  assumes ok: "tokens_ok g" and e: "mint_tokens g p a n = Some g'"
  shows "tokens_ok g'" and "has_token g' = has_token g" and "but_tokens g' = but_tokens g"
    and "holding g' = (\<lambda>q e. holding g q e + (if q = p \<and> e = a then n else 0))"
    and "supply_of g' = (\<lambda>q. supply_of g q + (if q = p then n else 0))"
    and "has_token g p"
proof -
  from e obtain u reg where reg: "reg_mint (tokens g) p a n = Some (u, reg)" and g': "g' = g\<lparr>tokens := reg\<rparr>"
    by (cases "reg_mint (tokens g) p a n") (auto simp: mint_tokens_def)
  note m = reg_mint_ok [OF ok reg]
  show "tokens_ok g'" "has_token g' = has_token g" "but_tokens g' = but_tokens g"
    "holding g' = (\<lambda>q e. holding g q e + (if q = p \<and> e = a then n else 0))"
    "supply_of g' = (\<lambda>q. supply_of g q + (if q = p then n else 0))"
    using m but_tokens_update [OF reg_rest_mut [OF reg]] by (simp_all add: g')
  show "has_token g p" using reg by (auto simp: tok_index_mut_def reg_has_def bind_SomeD)
qed

text \<open>\<open>deposit\<close> on a normalized pair, from its market on.\<close>

lemma deposit_from:
  assumes "is_normal p" and "ensure g p = Some (m, g1)" and "a \<noteq> 0" "b \<noteq> 0"
  shows "deposit g p a b f = do {
      qb \<leftarrow> amt_b g1 m;
      l \<leftarrow> mul128 a qb;
      qa \<leftarrow> amt_a g1 m;
      r \<leftarrow> mul128 qa b;
      if l \<noteq> r then Some g1
      else do {
        (sent_a, g2) \<leftarrow> transfer_tokens g1 (asset_a p) f (mkt_id m) a;
        if \<not> sent_a then Some g2
        else do {
          (sent_b, g3) \<leftarrow> transfer_tokens g2 (asset_b p) f (mkt_id m) b;
          if \<not> sent_b then do {
            (_, g4) \<leftarrow> transfer_tokens g3 (asset_a p) (mkt_id m) f a;
            Some g4
          }
          else finish_deposit g3 m a b f
        }
      }
    }"
  using assms by (simp add: deposit_def normalize_amounts_def)

text \<open>No share is minted: the supply of shares that the mint is proportional to is 0.\<close>

lemma finish_deposit_books:
  assumes ok: "swap_ok g" and e: "finish_deposit g m a b f = Some g'" and m: "bt_get (swap g) p = Some m"
    and ra: "reserve_a m + a \<le> holding g (asset_a p) (mkt_id m)"
    and rb: "reserve_b m + b \<le> holding g (asset_b p) (mkt_id m)"
  shows "swap_ok g'" and "traded g g'" and "holding g' = holding g"
    and "bt_get (swap g') p = Some (m\<lparr>reserve_a := reserve_a m + a, reserve_b := reserve_b m + b\<rparr>)"
proof -
  have mok: "market_ok g p m" by (rule swap_okD(3) [OF ok m])
  then have mp: "mkt_pair m = p" and z: "supply_of g (lp m) = 0" by (simp_all add: market_ok_def)
  let ?f = "\<lambda>m. do { ra \<leftarrow> add128 (reserve_a m) a; rb \<leftarrow> add128 (reserve_b m) b;
       Some (m\<lparr>reserve_a := ra, reserve_b := rb\<rparr>) }"
  let ?m = "m\<lparr>reserve_a := reserve_a m + a, reserve_b := reserve_b m + b\<rparr>"
  from e obtain share n qa to_mint g4 where sh: "tok_index (tokens g) (lp m) = Some share"
    and n: "mul128 (total_coins share) a = Some n" and t: "div_w n qa = Some to_mint"
    and g4: "mint_tokens g (lp m) f to_mint = Some g4" and u: "update_market g4 p ?f = Some g'"
    by (auto simp: finish_deposit_def bind_SomeD mp)
  have "total_coins share = 0" using z sh by (simp add: reg_supply_def total_coins_def)
  with n t have "to_mint = 0" by (auto simp: arith_checked)
  note mt = mint_tokens_books [OF swap_okD(1) [OF ok] g4, unfolded \<open>to_mint = 0\<close>, simplified]
  have st: "rebooked g g4" using mt by (simp add: rebooked_def)
  have ok4: "swap_ok g4" by (rule swap_ok_rebooked [OF ok st]) (simp add: mt)
  note fr = rebookedD [OF st]
  have m4: "bt_get (swap g4) p = Some m" using m fr by simp
  have fm: "?f m = Some ?m"
  proof -
    from u m4 obtain m2 where "?f m = Some m2" by (auto simp: update_market_def bind_SomeD)
    then show ?thesis by (auto simp: bind_SomeD arith_checked)
  qed
  have mok': "market_ok g4 p ?m" using mok ra rb fr mt(4) by (simp add: market_ok_def)
  have same: "mkt_id ?m = mkt_id m" "lp ?m = lp m" by simp_all
  have bt: "bt_ok (swap g4)" using ok4 by (simp add: swap_ok_def markets_ok_def)
  note ub = update_market_books [where g = g4 and p = p and m = m and m' = ?m and g' = g' and f = ?f,
      OF fr(1) swap_okD(2) [OF ok4] m4 swap_okD(3) [OF ok4] bt swap_okD(4) [OF ok4] u fm mok' same]
  show "swap_ok g'" "holding g' = holding g" "bt_get (swap g') p = Some ?m"
    using ub(1,3,4) mt(4) by simp_all
  show "traded g g'" by (rule traded_trans [OF traded_rebooked [OF st] ub(2)])
qed

lemma deposit_normal:
  "deposit g pair a b f = deposit g (normalize pair) (fst (normalize_amounts pair a b)) (snd (normalize_amounts pair a b)) f"
  by (simp add: deposit_def normalize_amounts_def split: if_splits)

lemma deposit_normal_books:
  assumes ok: "swap_ok g" and c: "customer g f" and nrm: "is_normal p" and e: "deposit g p a b f = Some g'"
  obtains (kept) "swap_ok g'" "traded g g'" "holding g' = holding g"
    | (deposited) m where "swap_ok g'" "traded g g'" "bt_get (swap g') p = Some m"
        "holding g' = moved (moved (holding g) (asset_a p) f (mkt_id m) a) (asset_b p) f (mkt_id m) b"
        "a \<le> holding g (asset_a p) f"
proof (cases "a = 0 \<or> b = 0")
  case True
  with e ok show thesis by (intro kept) (auto simp: deposit_def normalize_amounts_def nrm traded_refl)
next
  case False
  then have z: "a \<noteq> 0" "b \<noteq> 0" by auto
  from e nrm z obtain m g1 where en: "ensure g p = Some (m, g1)"
    by (cases "ensure g p") (auto simp: deposit_def normalize_amounts_def)
  note eb = ensure_books [OF ok en, simplified normalize_normal [OF nrm]]
  note e = e [unfolded deposit_from [OF nrm en z]]
  from e obtain qb qa l r where q: "amt_b g1 m = Some qb" "amt_a g1 m = Some qa"
    "mul128 a qb = Some l" "mul128 qa b = Some r"
    by (cases "amt_b g1 m"; cases "amt_a g1 m") (auto simp: bind_SomeD)
  note e = e [unfolded q(1,2) Option.bind.bind_lunit, unfolded q(3,4) Option.bind.bind_lunit]
  have c1: "customer g1 f" by (rule tradedD(3) [OF eb(2) c])
  show thesis
  proof (cases "l = r")
    case False
    with e eb show thesis by (intro kept) simp_all
  next
    case True
    with e obtain sa g2 where t1: "transfer_tokens g1 (asset_a p) f (mkt_id m) a = Some (sa, g2)"
      by (cases "transfer_tokens g1 (asset_a p) f (mkt_id m) a") auto
    note b1 = transfer_tokens_books [OF swap_okD(1) [OF eb(1)] t1]
    have ok2: "swap_ok g2" by (rule transfer_tokens_ok [OF eb(1) t1 c1])
    have tr2: "traded g g2" by (rule traded_trans [OF eb(2) traded_rebooked [OF b1(1)]])
    show thesis
    proof (cases sa)
      case False
      with e t1 \<open>l = r\<close> ok2 tr2 b1 eb(3) show thesis by (intro kept) simp_all
    next
      case True
      with b1 have le_a: "a \<le> holding g1 (asset_a p) f"
        and h2: "holding g2 = moved (holding g1) (asset_a p) f (mkt_id m) a" by simp_all
      from e t1 \<open>l = r\<close> True obtain sb g3 where t2: "transfer_tokens g2 (asset_b p) f (mkt_id m) b = Some (sb, g3)"
        and rest: "(if \<not> sb then do { (_, g4) \<leftarrow> transfer_tokens g3 (asset_a p) (mkt_id m) f a; Some g4 }
          else finish_deposit g3 m a b f) = Some g'"
        by (cases "transfer_tokens g2 (asset_b p) f (mkt_id m) b") auto
      note b2 = transfer_tokens_books [OF rebookedD(1) [OF b1(1)] t2]
      have c2: "customer g2 f" using c1 b1(1) by simp
      have ok3: "swap_ok g3" by (rule transfer_tokens_ok [OF ok2 t2 c2])
      have st: "rebooked g1 g3" by (rule rebooked_trans [OF b1(1) b2(1)])
      show thesis
      proof (cases sb)
        case False
        with rest obtain q where t3: "transfer_tokens g3 (asset_a p) (mkt_id m) f a = Some (q, g')"
          by (auto simp: bind_SomeD)
        note b3 = transfer_tokens_books [OF rebookedD(1) [OF b2(1)] t3]
        have h3: "holding g3 = moved (holding g1) (asset_a p) f (mkt_id m) a" using b2 h2 False by simp
        have "a \<le> holding g3 (asset_a p) (mkt_id m)" using le_a unfolding h3 by (rule moved_back_enough)
        then have h: "holding g' = holding g1"
          using b3(4) h3 moved_back [of a "holding g1" "asset_a p" f "mkt_id m"] le_a by simp
        have st': "rebooked g1 g'" by (rule rebooked_trans [OF st b3(1)])
        have "swap_ok g'" by (rule swap_ok_rebooked [OF eb(1) st']) (simp add: h)
        with traded_trans [OF eb(2) traded_rebooked [OF st']] h eb(3) show thesis by (intro kept) simp_all
      next
        case True
        with rest have fd: "finish_deposit g3 m a b f = Some g'" by simp
        have h3: "holding g3 = moved (moved (holding g1) (asset_a p) f (mkt_id m) a) (asset_b p) f (mkt_id m) b"
          using b2 h2 True by simp
        have m3: "bt_get (swap g3) p = Some m" using eb(4) rebookedD [OF st] by simp
        have "mkt_id m \<noteq> f" using c1 eb(4) by (auto simp: customer_def is_market_def)
        moreover have "market_ok g1 p m" by (rule swap_okD(3) [OF eb(1,4)])
        ultimately have ra: "reserve_a m + a \<le> holding g3 (asset_a p) (mkt_id m)"
          and rb: "reserve_b m + b \<le> holding g3 (asset_b p) (mkt_id m)"
          by (auto simp: h3 market_ok_def moved_def)
        note fb = finish_deposit_books [OF ok3 fd m3 ra rb]
        have "traded g g'" by (rule traded_trans [OF traded_trans [OF eb(2) traded_rebooked [OF st]] fb(2)])
        with fb h3 eb(3) le_a show thesis
          by (intro deposited [of "m\<lparr>reserve_a := reserve_a m + a, reserve_b := reserve_b m + b\<rparr>"]) simp_all
      qed
    qed
  qed
qed

lemma deposit_ok:
  assumes "swap_ok g" and "customer g f" and "deposit g pair a b f = Some g'"
  shows "swap_ok g'" and "traded g g'"
  using assms by (auto simp: deposit_normal [of g pair] elim: deposit_normal_books [where p = "normalize pair"])

section \<open>Swaps that go through\<close>

lemma send_out_done:
  assumes "tokens_ok g" "has_token g p" "n \<le> holding g p a"
  shows "\<exists>g'. send_out g p a b n = Some (n, g') \<and> rebooked g g' \<and> holding g' = moved (holding g) p a b n"
proof -
  from send_out_returns [OF assms(1,2), of a b n] obtain k g' where e: "send_out g p a b n = Some (k, g')" by blast
  from send_out_books [OF assms(1) e] assms(3) e show ?thesis by simp
qed

lemma raw_swap_succeeds:
  assumes ok: "swap_ok g" and nrm: "is_normal p" and m: "bt_get (swap g) p = Some m"
    and a: "a \<le> holding g (asset_a p) (mkt_id m)"
    and b: "b \<le> moved (holding g) (asset_a p) (mkt_id m) s a (asset_b p) (mkt_id m)"
    and h: "h = moved (moved (holding g) (asset_a p) (mkt_id m) s a) (asset_b p) (mkt_id m) s b"
    and k: "reserve_a m * reserve_b m \<le> h (asset_a p) (mkt_id m) * h (asset_b p) (mkt_id m)"
    and bound: "h (asset_a p) (mkt_id m) * h (asset_b p) (mkt_id m) < 2 ^ 128"
  shows "\<exists>g'. raw_swap g p a b s = Some (Inr (), g')"
proof -
  have mok: "market_ok g p m" by (rule swap_okD(3) [OF ok m])
  then have mp: "mkt_pair m = p" and hs: "has_token g (asset_a p)" "has_token g (asset_b p)"
    by (simp_all add: market_ok_def)
  have en: "ensure g p = Some (m, g)" by (rule ensure_present) (simp add: m nrm)
  from send_out_done [OF swap_okD(1) [OF ok] hs(1) a, of s] obtain g2 where
    s1: "send_out g (asset_a p) (mkt_id m) s a = Some (a, g2)" and r1: "rebooked g g2"
    and h1: "holding g2 = moved (holding g) (asset_a p) (mkt_id m) s a" by blast
  note f1 = rebookedD [OF r1]
  have "has_token g2 (asset_b p)" "b \<le> holding g2 (asset_b p) (mkt_id m)" using hs b f1 h1 by simp_all
  from send_out_done [OF f1(1) this, of s] obtain g3 where
    s2: "send_out g2 (asset_b p) (mkt_id m) s b = Some (b, g3)" and r2: "rebooked g2 g3"
    and h2: "holding g3 = h" using h h1 by auto
  note f2 = rebookedD [OF r2]
  have bal: "balance g3 (asset_a p) (mkt_id m) = Some (h (asset_a p) (mkt_id m))"
    "balance g3 (asset_b p) (mkt_id m) = Some (h (asset_b p) (mkt_id m))"
    using hs f1 f2 h2 by (simp_all add: balance_Some)
  have mul: "mul128 (h (asset_a p) (mkt_id m)) (h (asset_b p) (mkt_id m)) =
      Some (h (asset_a p) (mkt_id m) * h (asset_b p) (mkt_id m))"
    "mul128 (reserve_a m) (reserve_b m) = Some (reserve_a m * reserve_b m)"
    using bound k by (simp_all add: mul_w_def fits_def)
  have "bt_get (swap g3) p = Some m" using m f1 f2 by simp
  then show ?thesis
    unfolding raw_swap_at [OF nrm en] mp using s1 s2 bal mul k by (simp add: update_market_def)
qed

lemma settle_succeeds:
  assumes ok: "swap_ok g" and c: "customer g s" and ne: "selling \<noteq> buying"
    and m: "bt_get (swap g) (normalize (TradingPairID selling buying)) = Some m"
    and x: "x \<le> holding g selling s"
    and f: "fair (holding g selling (mkt_id m)) (holding g buying (mkt_id m)) x y"
    and bound: "(holding g selling (mkt_id m) + x) * holding g buying (mkt_id m) < 2 ^ 128"
  shows "\<exists>g'. settle g m selling buying x y s = Some (Inr (), g')"
proof -
  let ?p = "normalize (TradingPairID selling buying)" and ?M = "mkt_id m"
  have mok: "market_ok g ?p m" by (rule swap_okD(3) [OF ok m])
  have hs: "has_token g selling" "has_token g buying"
    using mok by (auto simp: market_ok_def normalize_def split: if_splits)
  have sM: "s \<noteq> ?M" using c m by (auto simp: customer_def is_market_def)
  from transfer_or_panic_returns [OF swap_okD(1) [OF ok] hs(1) x, of ?M] obtain g1 where
    t: "transfer_or_panic g selling s ?M x = Some g1" by blast
  note b1 = transfer_or_panic_books [OF swap_okD(1) [OF ok] t]
  note f1 = rebookedD [OF b1(1)]
  have ok1: "swap_ok g1"
    using transfer_tokens_ok [OF ok _ c] t by (auto simp: transfer_or_panic_def bind_SomeD split: if_splits)
  have m1: "bt_get (swap g1) ?p = Some m" using m f1 by simp
  have qs: "holding g1 selling ?M = holding g selling ?M + x" and qb: "holding g1 buying ?M = holding g buying ?M"
    using b1(4) sM ne by (simp_all add: moved_def)
  have y: "y \<le> holding g buying ?M" using f by (simp add: fair_def)
  define h where "h = moved (holding g1) buying ?M s y"
  have h: "h selling ?M = holding g selling ?M + x" "h buying ?M = holding g buying ?M - y"
    using sM ne qs qb by (simp_all add: h_def moved_def)
  have res: "reserve_a m * reserve_b m \<le> holding g selling ?M * holding g buying ?M"
    using mok mult_le_mono [of "reserve_a m" "holding g selling ?M" "reserve_b m" "holding g buying ?M"]
      mult_le_mono [of "reserve_a m" "holding g buying ?M" "reserve_b m" "holding g selling ?M"]
    by (cases "is_normal (TradingPairID selling buying)")
      (auto simp: market_ok_def normalize_def is_normal_def mult.commute)
  also have "\<dots> \<le> h selling ?M * h buying ?M" using f by (simp add: fair_def h)
  finally have k: "reserve_a m * reserve_b m \<le> h selling ?M * h buying ?M" .
  have "h selling ?M * h buying ?M \<le> (holding g selling ?M + x) * holding g buying ?M"
    by (simp add: h)
  with bound have bd: "h selling ?M * h buying ?M < 2 ^ 128" by linarith
  have "\<exists>g2. swap_helper selling buying g1 0 y s = Some (Inr (), g2)"
  proof (cases "is_normal (TradingPairID selling buying)")
    case True
    then show ?thesis
      using raw_swap_succeeds [OF ok1, of ?p m 0 y s h] m1 k bd y qb
      by (simp add: swap_helper_def h_def)
  next
    case False
    then have "?p = TradingPairID buying selling" by (simp add: normalize_def is_normal_def)
    with False show ?thesis
      using raw_swap_succeeds [OF ok1, of ?p m y 0 s h] m1 k bd y qb
      by (simp add: swap_helper_def h_def mult.commute is_normal_def normalize_def split: if_splits)
  qed
  then show ?thesis using t by (auto simp: settle_def)
qed

section \<open>Trades that go through\<close>

lemma sell_trade_done:
  assumes ok: "swap_ok g" and c: "customer g s" and ne: "asset_a pair \<noteq> asset_b pair"
    and m: "bt_get (swap g) (normalize pair) = Some m" and one: "(a = 0) \<noteq> (b = 0)"
    and sd: "sell_side pair a b = (selling, buying, n)"
    and q: "sell_quote (holding g selling (mkt_id m)) (holding g buying (mkt_id m)) n = Some (x, y)"
    and x: "x \<le> holding g selling s"
    and small: "holding g selling (mkt_id m) + x < 2 ^ 64" "holding g buying (mkt_id m) < 2 ^ 64"
  shows "\<exists>out g'. do_sell_trade g pair a b None False s = Some (Inr out, g') \<and>
    do_sell_trade g pair a b None True s = Some (Inr out, g) \<and>
    amount_player_sold out = x \<and> amount_player_purchased out = y"
proof -
  have en: "ensure g (normalize pair) = Some (m, g)" by (rule ensure_present) (simp add: m)
  have mok: "market_ok g (normalize pair) m" by (rule swap_okD(3) [OF ok m])
  have hs: "has_token g selling" "has_token g buying" and sb: "selling \<noteq> buying"
    using mok sd ne by (auto simp: market_ok_def normalize_def sell_side_def split: if_splits)
  from token_name_ok [OF swap_okD(1) [OF ok]] hs obtain bn sn where
    nm: "token_name g buying = Some bn" "token_name g selling = Some sn" by blast
  have bal: "balance g selling (mkt_id m) = Some (holding g selling (mkt_id m))"
    "balance g buying (mkt_id m) = Some (holding g buying (mkt_id m))"
    "balance g selling s = Some (holding g selling s)"
    using hs by (simp_all add: balance_Some)
  have m': "bt_get (swap g) (normalize (TradingPairID selling buying)) = Some m"
    using m sell_side_pair(1) [OF sd] by simp
  have "(holding g selling (mkt_id m) + x) * holding g buying (mkt_id m) < 2 ^ 64 * 2 ^ 64"
    using small by (intro mult_strict_mono) auto
  then have bound: "(holding g selling (mkt_id m) + x) * holding g buying (mkt_id m) < 2 ^ 128" by simp
  from settle_succeeds [OF ok c sb m' x sell_quote_fair(1) [OF q] bound] obtain g' where
    st: "settle g m selling buying x y s = Some (Inr (), g')" by blast
  show ?thesis
    unfolding sell_trade_from [OF refl en one sd] using nm bal q x st
    by (simp add: finish_trade_def)
qed

lemma buy_trade_done:
  assumes ok: "swap_ok g" and c: "customer g s" and ne: "asset_a pair \<noteq> asset_b pair"
    and m: "bt_get (swap g) (normalize pair) = Some m" and one: "(a = 0) \<noteq> (b = 0)"
    and sd: "sell_side pair a b = (buying, selling, n)"
    and q: "buy_quote (holding g selling (mkt_id m)) (holding g buying (mkt_id m)) n = Some (x, y)"
    and x: "x \<le> holding g selling s"
    and small: "holding g selling (mkt_id m) + x < 2 ^ 64" "holding g buying (mkt_id m) < 2 ^ 64"
  shows "\<exists>out g'. do_buy_trade g pair a b None False s = Some (Inr out, g') \<and>
    do_buy_trade g pair a b None True s = Some (Inr out, g) \<and>
    amount_player_sold out = x \<and> amount_player_purchased out = y"
proof -
  have en: "ensure g (normalize pair) = Some (m, g)" by (rule ensure_present) (simp add: m)
  have mok: "market_ok g (normalize pair) m" by (rule swap_okD(3) [OF ok m])
  have hs: "has_token g selling" "has_token g buying" and sb: "selling \<noteq> buying"
    using mok sd ne by (auto simp: market_ok_def normalize_def sell_side_def split: if_splits)
  from token_name_ok [OF swap_okD(1) [OF ok]] hs obtain bn sn where
    nm: "token_name g buying = Some bn" "token_name g selling = Some sn" by blast
  have bal: "balance g selling (mkt_id m) = Some (holding g selling (mkt_id m))"
    "balance g buying (mkt_id m) = Some (holding g buying (mkt_id m))"
    "balance g selling s = Some (holding g selling s)"
    using hs by (simp_all add: balance_Some)
  have m': "bt_get (swap g) (normalize (TradingPairID selling buying)) = Some m"
    using m sell_side_pair(2) [OF sd] by simp
  have "(holding g selling (mkt_id m) + x) * holding g buying (mkt_id m) < 2 ^ 64 * 2 ^ 64"
    using small by (intro mult_strict_mono) auto
  then have bound: "(holding g selling (mkt_id m) + x) * holding g buying (mkt_id m) < 2 ^ 128" by simp
  from settle_succeeds [OF ok c sb m' x buy_quote_fair(1) [OF q] bound] obtain g' where
    st: "settle g m selling buying x y s = Some (Inr (), g')" by blast
  show ?thesis
    unfolding buy_trade_from [OF refl en one sd] using nm bal q x st
      buy_quote_fair(5) [OF q]
    by (simp add: finish_trade_def)
qed

section \<open>The small board\<close>

lemma example_swap_ok: "swap_ok example_board"
proof -
  have "market_ok example_board p m" if "bt_get (swap example_board) p = Some m" for p m
    using that unfolding example_market_at
    by (auto simp: example_market_def market_ok_def is_normal_def example_books example_supply
        split: if_splits)
  then show ?thesis
    unfolding swap_ok_def ledger_ok_def markets_ok_def example_market_at by (auto simp: bt_ok_def split: if_splits)
qed

lemma example_customer: "customer example_board e = (eid e \<le> 120 \<and> eid e \<noteq> 108)"
  unfolding customer_def is_market_def example_market_at
  by (cases e) (auto simp: example_market_def split: if_splits)

lemma example_quote: "sell_quote 1000 1000 100 = Some (99, 90)" "buy_quote 1000 1000 90 = Some (99, 90)"
  by (simp_all add: sell_quote_def buy_quote_def roundup_div_def mul_w_def add_w_def sub_w_def div_w_def fits_def)

lemma example_market_present: "bt_get (swap example_board) (normalize example_pair) = Some example_market"
  by (simp add: example_market_at normalize_def del: example_fields)

lemma example_sale:
  "\<exists>out g'. do_sell_trade example_board example_pair 100 0 None False (EntityID 109) = Some (Inr out, g') \<and>
    do_sell_trade example_board example_pair 100 0 None True (EntityID 109) = Some (Inr out, example_board) \<and>
    amount_player_sold out = 99 \<and> amount_player_purchased out = 90"
  by (rule sell_trade_done [where selling = "tok 101" and buying = "tok 105" and n = 100,
        OF example_swap_ok _ _ example_market_present])
    (simp_all add: example_customer sell_side_def example_market_def example_books example_quote)

lemma example_purchase:
  "\<exists>out g'. do_buy_trade example_board example_pair 0 90 None False (EntityID 109) = Some (Inr out, g') \<and>
    do_buy_trade example_board example_pair 0 90 None True (EntityID 109) = Some (Inr out, example_board) \<and>
    amount_player_sold out = 99 \<and> amount_player_purchased out = 90"
  by (rule buy_trade_done [where selling = "tok 101" and buying = "tok 105" and n = 90,
        OF example_swap_ok _ _ example_market_present])
    (simp_all add: example_customer sell_side_def example_market_def example_books example_quote)

section \<open>Properties\<close>

text \<open>C2: A sale on a well-formed board: rejected, it changes no balance; accepted, it moves
  exactly what it reports between the seller and the market, at a fair price, no more than was
  offered and no less than the buyer's minimum; a simulation moves nothing. The supply of
  every token and the well-formedness of the board are kept.\<close>

theorem sale_exchanges:
  assumes "swap_ok g" and "customer g s" and "do_sell_trade g pair a b lim sim s = Some (r, g')"
    and "sell_side pair a b = (selling, buying, n)"
  shows "swap_ok g' \<and> supply_of g' = supply_of g \<and>
    trade_effect g (normalize pair) s selling buying sim r g' \<and>
    (\<forall>out. r = Inr out \<longrightarrow> amount_player_sold out \<le> n \<and> (\<forall>l. lim = Some l \<longrightarrow> l \<le> amount_player_purchased out))"
  using sell_trade_effect [OF assms] tradedD(2) by blast

theorem sale_exchanges_witness:
  "\<exists>r g'. do_sell_trade example_board example_pair 100 0 None False (EntityID 109) = Some (r, g') \<and>
    swap_ok g' \<and> trade_effect example_board (normalize example_pair) (EntityID 109) (tok 101) (tok 105) False r g'"
proof -
  from example_sale obtain r g' where e: "do_sell_trade example_board example_pair 100 0 None False (EntityID 109) = Some (r, g')"
    by blast
  have c: "customer example_board (EntityID 109)" by (simp add: example_customer)
  have "sell_side example_pair 100 0 = (tok 101, tok 105, 100)" by (simp add: sell_side_def)
  from sale_exchanges [OF example_swap_ok c e this] e show ?thesis by blast
qed

text \<open>C3: A purchase on a well-formed board: as for a sale, with at least the amount asked for
  and at most the buyer's maximum price.\<close>

theorem purchase_exchanges:
  assumes "swap_ok g" and "customer g s" and "do_buy_trade g pair a b lim sim s = Some (r, g')"
    and "sell_side pair a b = (buying, selling, n)"
  shows "swap_ok g' \<and> supply_of g' = supply_of g \<and>
    trade_effect g (normalize pair) s selling buying sim r g' \<and>
    (\<forall>out. r = Inr out \<longrightarrow> n \<le> amount_player_purchased out \<and> (\<forall>l. lim = Some l \<longrightarrow> amount_player_sold out \<le> l))"
  using buy_trade_effect [OF assms] tradedD(2) by blast

theorem purchase_exchanges_witness:
  "\<exists>r g'. do_buy_trade example_board example_pair 0 90 None False (EntityID 109) = Some (r, g') \<and>
    swap_ok g' \<and> trade_effect example_board (normalize example_pair) (EntityID 109) (tok 101) (tok 105) False r g'"
proof -
  from example_purchase obtain r g' where e: "do_buy_trade example_board example_pair 0 90 None False (EntityID 109) = Some (r, g')"
    by blast
  have c: "customer example_board (EntityID 109)" by (simp add: example_customer)
  have "sell_side example_pair 0 90 = (tok 105, tok 101, 90)" by (simp add: sell_side_def)
  from purchase_exchanges [OF example_swap_ok c e this] e show ?thesis by blast
qed

text \<open>On a market whose quote the seller can pay, within 64 bits, a sale is never rejected and
  never panics, and its simulation on the same board reports the same outcome and changes
  nothing.\<close>

theorem trades_go_through:
  assumes "swap_ok g" and "customer g s" and "asset_a pair \<noteq> asset_b pair"
    and "bt_get (swap g) (normalize pair) = Some m" and "(a = 0) \<noteq> (b = 0)"
    and "sell_side pair a b = (selling, buying, n)"
    and "sell_quote (holding g selling (mkt_id m)) (holding g buying (mkt_id m)) n = Some (x, y)"
    and "x \<le> holding g selling s"
    and "holding g selling (mkt_id m) + x < 2 ^ 64" "holding g buying (mkt_id m) < 2 ^ 64"
  shows "\<exists>out g'. do_sell_trade g pair a b None False s = Some (Inr out, g') \<and>
    do_sell_trade g pair a b None True s = Some (Inr out, g) \<and>
    amount_player_sold out = x \<and> amount_player_purchased out = y"
  by (rule sell_trade_done [OF assms])

theorem trades_go_through_witness:
  "\<exists>out g'. do_sell_trade example_board example_pair 100 0 None False (EntityID 109) = Some (Inr out, g') \<and>
    do_sell_trade example_board example_pair 100 0 None True (EntityID 109) = Some (Inr out, example_board) \<and>
    amount_player_sold out = 99 \<and> amount_player_purchased out = 90"
  by (rule trades_go_through [where selling = "tok 101" and buying = "tok 105" and n = 100,
        OF example_swap_ok _ _ example_market_present])
    (simp_all add: example_customer sell_side_def example_market_def example_books example_quote)

text \<open>Asking for exactly everything a market holds of an asset is a panic of the game, not a
  rejected trade.\<close>

theorem buying_everything_panics:
  assumes "swap_ok g" and "bt_get (swap g) (normalize pair) = Some m"
    and "sell_side pair a b = (buying, selling, n)" and "(a = 0) \<noteq> (b = 0)"
    and "n = holding g buying (mkt_id m)"
  shows "do_buy_trade g pair a b lim sim s = None"
proof -
  have en: "ensure g (normalize pair) = Some (m, g)" by (rule ensure_present) (simp add: assms(2))
  have none: "buy_quote qs n n = None" for qs
    using buy_quote_fair(5) [of qs n n] by (cases "buy_quote qs n n") auto
  have bal: "balance g buying (mkt_id m) = Some q \<Longrightarrow> q = n" for q
    by (simp add: balance_Some assms(5))
  show ?thesis
    unfolding buy_trade_from [OF refl en assms(4,3)]
    by (cases "token_name g selling"; cases "token_name g buying"; cases "balance g selling (mkt_id m)";
        cases "balance g buying (mkt_id m)")
      (auto dest: bal simp: none)
qed

theorem buying_everything_panics_witness:
  "do_buy_trade example_board example_pair 0 1000 None False (EntityID 109) = None"
  by (rule buying_everything_panics [where buying = "tok 105" and selling = "tok 101" and n = 1000,
        OF example_swap_ok example_market_present])
    (simp_all add: sell_side_def example_market_def example_books)

text \<open>A deposit never mints a share of the market, and keeps the supply of every token.\<close>

theorem deposits_mint_no_shares:
  assumes "swap_ok g" and "customer g f" and "deposit g pair a b f = Some g'"
  shows "swap_ok g' \<and> supply_of g' = supply_of g"
  using deposit_ok [OF assms] tradedD(2) by blast

theorem deposits_mint_no_shares_witness:
  "\<exists>g'. deposit example_board example_pair 10 10 (EntityID 109) = Some g' \<and> supply_of g' = supply_of example_board"
proof -
  have c: "customer example_board (EntityID 109)" by (simp add: example_customer)
  have "\<exists>g'. deposit example_board example_pair 10 10 (EntityID 109) = Some g'"
    by (simp add: deposit_def finish_deposit_def normalize_amounts_def is_normal_def ensure_def normalize_def Let_def
        amt_a_def amt_b_def balance_def reg_balance_def tok_index_def tok_index_mut_def example_tokens_def
        example_market_def bt_get_def bt_or_def balance_check_def bt_sum_def mul_w_def add_w_def sub_w_def div_w_def
        fits_def transfer_tokens_def transfer_def burn_def mint_def mint_tokens_def total_coins_def update_market_def)
  then obtain g' where d: "deposit example_board example_pair 10 10 (EntityID 109) = Some g'" ..
  from deposits_mint_no_shares [OF example_swap_ok c d] d show ?thesis by blast
qed

end
