(* ===== verification/Plants.thy ===== *)
theory Plants
  imports Swap "HOL-Library.Product_Lexorder" "HOL-Library.Multiset"
begin

text \<open>
  Power plants and coin lockups (\<open>nfts/instances/powerplant/mod.rs\<close> and
  \<open>nfts/instances/lockup.rs\<close>): the bill of materials, the hash rate of a plant, moving miners in
  and out of a plant, the two ways of minting one, and the NFT that holds coins until a time.
  The lemmas show that the hash rate is the best use of the plant's power, and what minting,
  locking and releasing do to the books.
\<close>

section \<open>Materials and new plants\<close>

definition raw_materials_bill :: "PlantType \<Rightarrow> GameBoard \<Rightarrow> u64 \<Rightarrow> (TokenPointer \<times> u128) list option" where
  "raw_materials_bill ty g scale = do {
     base_prices \<leftarrow> plant_prices g ty;
     map_opt (\<lambda>(cur, qty). do { q \<leftarrow> mul128 qty scale; Some (cur, q) }) base_prices
   }"

definition new_power_plant :: "NftPtr \<Rightarrow> PlantType \<Rightarrow> int \<times> int \<Rightarrow> u64 \<Rightarrow> PowerPlant option" where
  "new_power_plant i ty coords scale = do {
     w \<leftarrow> mul64 scale 100000;
     Some \<lparr>plant_id = i, plant_type = ty, watts = w, coordinates = coords\<rparr>
   }"

section \<open>Hash rate\<close>

text \<open>
  The boards at a plant, as pairs of hashes per watt and count, are sorted in ascending order
  and taken from the end, so the best boards get power first.
\<close>

definition boards_at :: "GameBoard \<Rightarrow> EntityID \<Rightarrow> (u128 \<times> u128) list option" where
  "boards_at g e = map_opt (\<lambda>(tok, hbd). do {
     count \<leftarrow> balance g tok e;
     Some (hash_per_watt hbd, count)
   }) (hashboards (tokens g))"

fun power_boards :: "(u128 \<times> u128) list \<Rightarrow> u128 \<Rightarrow> u128 \<Rightarrow> u128 option" where
  "power_boards [] w hashrate = Some hashrate"
| "power_boards ((hpw, units) # rest) w hashrate =
     (let available = min units w in do {
        p \<leftarrow> mul128 available hpw;
        hashrate' \<leftarrow> add128 hashrate p;
        w' \<leftarrow> sub_w w available;
        if w' = 0 then Some hashrate' else power_boards rest w' hashrate'
      })"

definition compute_hashrate :: "PowerPlant \<Rightarrow> GameBoard \<Rightarrow> u128 option" where
  "compute_hashrate plant g = do {
     hash \<leftarrow> boards_at g (nft_inner (plant_id plant));
     power_boards (rev (sort hash)) (watts plant) 0
   }"

section \<open>Coins locked up in an NFT\<close>

definition lockup ::
  "GameBoard \<Rightarrow> EntityID \<Rightarrow> EntityID \<Rightarrow> TokenPointer \<Rightarrow> u128 \<Rightarrow> u64 \<Rightarrow> GameBoard option" where
  "lockup g sender own asset amount free_at = do {
     (i, g1) \<leftarrow> alloc g;
     let (lockup_id, nfts') = nft_add (nfts g1) \<lparr>owner = own, nft_id = i, transfer_count = u128_max\<rparr>;
         g2 = schedule_cb (g1\<lparr>nfts := nfts'\<rparr>)
           (CoinLockupCb \<lparr>lock_id = lockup_id, time_when_free = free_at, lock_asset = asset\<rparr>)
     in do {
       (_, g3) \<leftarrow> transfer_tokens g2 asset sender (nft_inner lockup_id) amount;
       Some g3
     }
   }"

definition lockup_action :: "CoinLockup \<Rightarrow> GameBoard \<Rightarrow> GameBoard option" where
  "lockup_action l g = do {
     n \<leftarrow> nft_index (nfts g) (lock_id l);
     if elapsed_time g < time_when_free l then Some g
     else do {
       b \<leftarrow> balance g (lock_asset l) (nft_inner (lock_id l));
       (_, g') \<leftarrow> transfer_tokens g (lock_asset l) (nft_inner (lock_id l)) (owner n) b;
       Some g'
     }
   }"

section \<open>Miners in and out of a plant\<close>

definition colocate_hashrate :: "PowerPlant \<Rightarrow> GameBoard \<Rightarrow> TokenPointer \<Rightarrow> u128 \<Rightarrow> GameBoard option" where
  "colocate_hashrate plant g miners amount = do {
     n \<leftarrow> nft_index (nfts g) (plant_id plant);
     (_, g') \<leftarrow> transfer_tokens g miners (owner n) (nft_inner (plant_id plant)) amount;
     Some g'
   }"

definition ship_hashrate :: "PowerPlant \<Rightarrow> TokenPointer \<Rightarrow> u128 \<Rightarrow> u64 \<Rightarrow> GameBoard \<Rightarrow> GameBoard option" where
  "ship_hashrate plant miners amount shipping_time g = do {
     n \<leftarrow> nft_index (nfts g) (plant_id plant);
     lockup g (nft_inner (plant_id plant)) (owner n) miners amount shipping_time
   }"

section \<open>Minting plants\<close>

text \<open>The derived \<open>Debug\<close> of a token pointer, which two error messages quote.\<close>

definition debug_token :: "TokenPointer \<Rightarrow> string" where
  "debug_token p = ''TokenPointer(EntityID('' @ format_dec (eid (as_id p)) @ ''))''"

text \<open>The first material the owner has too little of.\<close>

fun check_bill :: "GameBoard \<Rightarrow> EntityID \<Rightarrow> (TokenPointer \<times> u128) list \<Rightarrow> (TradeError + unit) option" where
  "check_bill g e [] = Some (Inr ())"
| "check_bill g e ((currency, pr) # rest) = do {
     b \<leftarrow> balance g currency e;
     if b < pr then Some (Inl (InsufficientTokens (''Balance Check Failed: '' @ debug_token currency)))
     else check_bill g e rest
   }"

fun pay_bill :: "EntityID \<Rightarrow> EntityID \<Rightarrow> (TokenPointer \<times> u128) list \<Rightarrow> GameBoard \<Rightarrow> GameBoard option" where
  "pay_bill e to_id [] g = Some g"
| "pay_bill e to_id ((currency, pr) # rest) g = do {
     (_, g') \<leftarrow> transfer_tokens g currency e to_id pr;
     pay_bill e to_id rest g'
   }"

definition mint_power_plant ::
  "GameBoard \<Rightarrow> u64 \<Rightarrow> int \<times> int \<Rightarrow> PlantType \<Rightarrow> EntityID \<Rightarrow> ((TradeError + unit) \<times> GameBoard) option" where
  "mint_power_plant g scale location ty own = do {
     resources \<leftarrow> raw_materials_bill ty g scale;
     r \<leftarrow> check_bill g own resources;
     case r of
       Inl e \<Rightarrow> Some (Inl e, g)
     | Inr _ \<Rightarrow> do {
         (i, g1) \<leftarrow> alloc g;
         let (plant_ptr, nfts') = nft_add (nfts g1) \<lparr>owner = own, nft_id = i, transfer_count = 0\<rparr> in do {
           new_plant \<leftarrow> new_power_plant plant_ptr ty location scale;
           let g2 = g1\<lparr>nfts := nfts'\<lparr>power_plants := bt_put plant_ptr new_plant (power_plants nfts')\<rparr>\<rparr> in do {
             g3 \<leftarrow> pay_bill own (nft_inner plant_ptr) resources g2;
             Some (Inr (), g3)
           }
         }
       }
   }"

text \<open>
  The simulated trades of an estimate run one after the other on the board, and the first error
  ends them, as in an iterator collected into a \<open>Result\<close>.
\<close>

fun estimate_bill ::
  "TokenPointer \<Rightarrow> EntityID \<Rightarrow> (TokenPointer \<times> u128) list \<Rightarrow> GameBoard \<Rightarrow>
   ((TradeError + (string \<times> u128 \<times> u128) list) \<times> GameBoard) option" where
  "estimate_bill btc e [] g = Some (Inr [], g)"
| "estimate_bill btc e ((material, qty) # rest) g = do {
     t \<leftarrow> tok_index (tokens g) material;
     let human_name = (case nickname t of Some n \<Rightarrow> n | None \<Rightarrow> ''Material Not Found'') in do {
       (r, g1) \<leftarrow> do_buy_trade g (TradingPairID material btc) qty 0 None True e;
       case r of
         Inl er \<Rightarrow> Some (Inl er, g1)
       | Inr out \<Rightarrow> do {
           (rs, g2) \<leftarrow> estimate_bill btc e rest g1;
           Some (case rs of
               Inl er \<Rightarrow> Inl er
             | Inr l \<Rightarrow> Inr ((human_name, qty, amount_player_sold out) # l), g2)
         }
     }
   }"

definition estimate_materials_cost ::
  "GameBoard \<Rightarrow> u64 \<Rightarrow> PlantType \<Rightarrow> EntityID \<Rightarrow>
   ((TradeError + (string \<times> u128 \<times> u128) list) \<times> GameBoard) option" where
  "estimate_materials_cost g scale ty own = do {
     resources \<leftarrow> raw_materials_bill ty g scale;
     estimate_bill (bitcoin_token_id g) own resources g
   }"

text \<open>The purchases of \<open>super_mint\<close>; an error of one of them is a panic.\<close>

fun buy_bill :: "TokenPointer \<Rightarrow> EntityID \<Rightarrow> (TokenPointer \<times> u128) list \<Rightarrow> GameBoard \<Rightarrow> GameBoard option" where
  "buy_bill btc e [] g = Some g"
| "buy_bill btc e ((material, qty) # rest) g = do {
     (r, g1) \<leftarrow> do_buy_trade g (TradingPairID material btc) qty 0 None False e;
     case r of Inl _ \<Rightarrow> None | Inr _ \<Rightarrow> buy_bill btc e rest g1
   }"

definition super_mint ::
  "GameBoard \<Rightarrow> u64 \<Rightarrow> int \<times> int \<Rightarrow> PlantType \<Rightarrow> EntityID \<Rightarrow> ((TradeError + unit) \<times> GameBoard) option" where
  "super_mint g scale location ty own = do {
     (est, g1) \<leftarrow> estimate_materials_cost g scale ty own;
     case est of
       Inl e \<Rightarrow> Some (Inl e, g1)
     | Inr costs \<Rightarrow> do {
         total_cost \<leftarrow> sum_w 128 0 (map (\<lambda>(_, _, c). c) costs);
         funds \<leftarrow> balance g1 (bitcoin_token_id g1) own;
         if funds < total_cost
         then Some (Inl (InsufficientTokens (''Need at least '' @ format_dec total_cost @ '' of '' @
                debug_token (bitcoin_token_id g1) @ '' to mint'')), g1)
         else do {
           resources \<leftarrow> raw_materials_bill ty g1 scale;
           g2 \<leftarrow> buy_bill (bitcoin_token_id g1) own resources g1;
           mint_power_plant g2 scale location ty own
         }
       }
   }"

section \<open>The hash rate is the best use of the power\<close>

text \<open>
  An assignment gives each kind of boards, a pair of hashes per watt and count, an amount of
  power: no more than the count, and no more than the plant has in all.
\<close>

definition assignment :: "(u128 \<times> u128) list \<Rightarrow> u128 \<Rightarrow> ((u128 \<times> u128) \<times> nat) list \<Rightarrow> bool" where
  "assignment boards w zs =
     (mset (map fst zs) = mset boards \<and> (\<forall>z \<in> set zs. snd z \<le> snd (fst z)) \<and> sum_list (map snd zs) \<le> w)"

definition hashes :: "((u128 \<times> u128) \<times> nat) list \<Rightarrow> nat" where
  "hashes zs = (\<Sum>z\<leftarrow>zs. fst (fst z) * snd z)"

fun greedy :: "(u128 \<times> u128) list \<Rightarrow> nat \<Rightarrow> nat" where
  "greedy [] w = 0"
| "greedy (b # rest) w = fst b * min (snd b) w + greedy rest (w - min (snd b) w)"

lemma greedy_no_power [simp]: "greedy bs 0 = 0"
  by (induction bs) auto

lemma power_boards_greedy: "power_boards bs w acc = Some r \<Longrightarrow> r = acc + greedy bs w"
  by (induction bs w acc rule: power_boards.induct)
    (auto simp: Let_def monad_simps arith_checked mult.commute split: if_splits)

lemma greedy_more: "\<forall>b \<in> set bs. fst b \<le> h \<Longrightarrow> greedy bs (w + d) \<le> greedy bs w + h * d"
proof (induction bs arbitrary: w d)
  case (Cons b bs)
  define e where "e = min (snd b) (w + d) - min (snd b) w"
  have e: "min (snd b) (w + d) = min (snd b) w + e" "e \<le> d"
    "w + d - min (snd b) (w + d) = (w - min (snd b) w) + (d - e)"
    by (auto simp: e_def min_def)
  have "greedy bs ((w - min (snd b) w) + (d - e)) \<le> greedy bs (w - min (snd b) w) + h * (d - e)"
    by (rule Cons.IH) (use Cons.prems in simp)
  moreover have "fst b * e + h * (d - e) \<le> h * e + h * (d - e)"
    using Cons.prems by simp
  moreover have "h * e + h * (d - e) = h * d"
    using e(2) by (simp add: add_mult_distrib2 [symmetric])
  moreover have "greedy (b # bs) (w + d) =
      fst b * min (snd b) w + fst b * e + greedy bs ((w - min (snd b) w) + (d - e))"
    by (simp only: greedy.simps e(3)) (simp only: e(1) add_mult_distrib2)
  ultimately show ?case by simp
qed simp

lemma greedy_best:
  assumes "sorted_wrt (\<lambda>a b. fst b \<le> fst a) (map fst zs)"
    and "\<forall>z \<in> set zs. snd z \<le> snd (fst z)" and "sum_list (map snd zs) \<le> w"
  shows "hashes zs \<le> greedy (map fst zs) w"
  using assms
proof (induction zs arbitrary: w)
  case Nil
  then show ?case by (simp add: hashes_def)
next
  case (Cons z zs)
  let ?m = "min (snd (fst z)) w"
  have x: "snd z \<le> ?m" using Cons.prems by simp
  have "hashes zs \<le> greedy (map fst zs) (w - snd z)"
    using Cons by simp
  also have "w - snd z = (w - ?m) + (?m - snd z)" using x by simp
  also have "greedy (map fst zs) \<dots> \<le> greedy (map fst zs) (w - ?m) + fst (fst z) * (?m - snd z)"
    by (rule greedy_more) (use Cons.prems in auto)
  finally have "hashes zs + fst (fst z) * snd z \<le>
      greedy (map fst zs) (w - ?m) + (fst (fst z) * (?m - snd z) + fst (fst z) * snd z)" by simp
  also have "fst (fst z) * (?m - snd z) + fst (fst z) * snd z = fst (fst z) * ?m"
    using x by (simp add: add_mult_distrib2 [symmetric])
  finally show ?case by (simp add: hashes_def add.commute)
qed

lemma greedy_attained:
  "\<exists>zs. map fst zs = bs \<and> (\<forall>z \<in> set zs. snd z \<le> snd (fst z)) \<and> sum_list (map snd zs) \<le> w \<and> hashes zs = greedy bs w"
proof (induction bs arbitrary: w)
  case Nil
  then show ?case by (simp add: hashes_def)
next
  case (Cons b bs)
  from Cons [of "w - min (snd b) w"] obtain zs where zs: "map fst zs = bs" "\<forall>z \<in> set zs. snd z \<le> snd (fst z)"
    "sum_list (map snd zs) \<le> w - min (snd b) w" "hashes zs = greedy bs (w - min (snd b) w)" by blast
  from zs(3) have "min (snd b) w + sum_list (map snd zs) \<le> w" by simp
  with zs show ?case by (intro exI [of _ "(b, min (snd b) w) # zs"]) (simp add: hashes_def)
qed

lemma sort_fst: "map fst (sort_key fst zs) = sort (map fst zs)"
  by (rule properties_for_sort [symmetric]) simp_all

lemma hashes_mset: "mset zs = mset zs' \<Longrightarrow> hashes zs = hashes zs'"
proof -
  have h: "hashes xs = sum_mset (image_mset (\<lambda>z. fst (fst z) * snd z) (mset xs))" for xs
    by (simp add: hashes_def sum_mset_sum_list flip: mset_map)
  show "mset zs = mset zs' \<Longrightarrow> hashes zs = hashes zs'" by (simp add: h)
qed

lemma compute_hashrate_best:
  assumes r: "compute_hashrate plant g = Some r" and b: "boards_at g (nft_inner (plant_id plant)) = Some boards"
  shows "assignment boards (watts plant) zs \<Longrightarrow> hashes zs \<le> r"
    and "\<exists>zs. assignment boards (watts plant) zs \<and> hashes zs = r"
proof -
  let ?bs = "rev (sort boards)"
  have r: "r = greedy ?bs (watts plant)"
    using r b power_boards_greedy by (fastforce simp: compute_hashrate_def)
  have desc: "sorted_wrt (\<lambda>a b. fst b \<le> fst a) ?bs"
    unfolding sorted_wrt_rev by (rule sorted_wrt_mono_rel [OF _ sorted_sort]) (auto simp: less_eq_prod_def)
  show "hashes zs \<le> r" if a: "assignment boards (watts plant) zs"
  proof -
    let ?zs = "rev (sort_key fst zs)"
    have m: "mset ?zs = mset zs" by simp
    have "sort (map fst zs) = sort boards"
      using a by (intro properties_for_sort) (simp_all add: assignment_def)
    then have f: "map fst ?zs = ?bs" by (simp add: sort_fst flip: rev_map)
    have "sum_mset (image_mset snd (mset ?zs)) = sum_mset (image_mset snd (mset zs))" using m by simp
    then have "sum_list (map snd ?zs) = sum_list (map snd zs)"
      by (simp only: sum_mset_sum_list flip: mset_map)
    with a have "hashes ?zs \<le> greedy (map fst ?zs) (watts plant)"
      by (intro greedy_best) (use desc f in \<open>simp_all add: assignment_def\<close>)
    then show ?thesis using hashes_mset [OF m] f r by simp
  qed
  from greedy_attained [of ?bs "watts plant"] obtain zs where "map fst zs = ?bs"
    "\<forall>z \<in> set zs. snd z \<le> snd (fst z)" "sum_list (map snd zs) \<le> watts plant" "hashes zs = greedy ?bs (watts plant)"
    by blast
  moreover from this(1) have "mset (map fst zs) = mset boards" by (simp del: mset_map)
  ultimately have "assignment boards (watts plant) zs \<and> hashes zs = r"
    unfolding assignment_def r by blast
  then show "\<exists>zs. assignment boards (watts plant) zs \<and> hashes zs = r" by blast
qed

end
