(* ===== verification/Callbacks.thy ===== *)
theory Callbacks
  imports Plants
begin

text \<open>
  What happens when time passes (\<open>callbacks.rs\<close>, \<open>nfts/instances/powerplant/events.rs\<close>,
  \<open>nfts/instances/lockup.rs\<close> and the four producers of \<open>tokens/instances\<close>): the actions of the
  scheduled callbacks and \<open>CallbackRegistry::run\<close>, which takes the callbacks that are due out of
  the registry and runs them in the order of their times, then of their arrival.
\<close>

section \<open>Mining payouts\<close>

text \<open>The hash rate of each plant, summed, and by owner.\<close>

fun owner_shares ::
  "GameBoard \<Rightarrow> (NftPtr \<times> PowerPlant) list \<Rightarrow> u128 \<Rightarrow> (EntityID, u128) btree_map \<Rightarrow>
   (u128 \<times> (EntityID, u128) btree_map) option" where
  "owner_shares g [] tot shares = Some (tot, shares)"
| "owner_shares g ((i, plant) # rest) tot shares = do {
     share \<leftarrow> compute_hashrate plant g;
     tot' \<leftarrow> add128 tot share;
     n \<leftarrow> nft_index (nfts g) i;
     s \<leftarrow> add128 (bt_or 0 shares (owner n)) share;
     owner_shares g rest tot' (bt_put (owner n) s shares)
   }"

definition payout_share :: "u128 \<Rightarrow> u128 \<Rightarrow> u128 \<Rightarrow> u128 option" where
  "payout_share subsidy tot v = do {
     a \<leftarrow> mul128 v 1024;
     b \<leftarrow> mul128 a subsidy;
     c \<leftarrow> div_w b tot;
     div_w c 1024
   }"

fun mint_all :: "TokenPointer \<Rightarrow> (EntityID \<times> u128) list \<Rightarrow> GameBoard \<Rightarrow> GameBoard option" where
  "mint_all p [] g = Some g"
| "mint_all p ((e, n) # rest) g = do { g' \<leftarrow> mint_tokens g p e n; mint_all p rest g' }"

definition pay_miners :: "GameBoard \<Rightarrow> GameBoard option" where
  "pay_miners g = do {
     (tot, shares) \<leftarrow> owner_shares g (power_plants (nfts g)) 0 [];
     if tot = 0 then Some g
     else do {
       amounts \<leftarrow> map_opt (\<lambda>(e, v). do { a \<leftarrow> payout_share (mining_subsidy g) tot v; Some (e, a) }) shares;
       _ \<leftarrow> tok_index (tokens g) (bitcoin_token_id g);
       mint_all (bitcoin_token_id g) amounts g
     }
   }"

definition power_plant_action :: "PowerPlantEvent \<Rightarrow> GameBoard \<Rightarrow> GameBoard option" where
  "power_plant_action ev g = do {
     g1 \<leftarrow> pay_miners g;
     t \<leftarrow> add64 (elapsed_time g1) (event_period ev);
     Some (schedule_cb g1 (PowerPlantEventCb (ev\<lparr>event_time := t\<rparr>)))
   }"

section \<open>Producers\<close>

text \<open>
  The first round mints the units and the coins of the market and deposits a tenth of the
  units. The four producers share this code; \<open>wrap\<close> is the one that is rescheduled.
\<close>

definition first_round :: "Producer \<Rightarrow> GameBoard \<Rightarrow> (Producer \<times> GameBoard) option" where
  "first_round p g =
     (let start = total_units p div 10 in do {
        base \<leftarrow> mul128 (base_price p) start;
        g1 \<leftarrow> mint_tokens g (hash_asset p) (prod_id p) (total_units p);
        g2 \<leftarrow> mint_tokens g1 (price_asset p) (prod_id p) base;
        g3 \<leftarrow> deposit g2 (TradingPairID (hash_asset p) (price_asset p)) start base (prod_id p);
        left \<leftarrow> sub_w (total_units p) start;
        Some (p\<lparr>first := False, total_units := left\<rparr>, g3)
      })"

definition producer_action :: "(Producer \<Rightarrow> Callback) \<Rightarrow> Producer \<Rightarrow> GameBoard \<Rightarrow> GameBoard option" where
  "producer_action wrap p0 g0 = do {
     (p, g) \<leftarrow> (if first p0 then first_round p0 g0 else Some (p0, g0));
     b \<leftarrow> balance g (hash_asset p) (prod_id p);
     (_, g1) \<leftarrow> do_sell_trade g (TradingPairID (hash_asset p) (price_asset p)) (min (b div 100) b) 0 None False
       (prod_id p);
     t \<leftarrow> add64 (elapsed_time g1) (adjusts_every p);
     b1 \<leftarrow> balance g1 (hash_asset p) (prod_id p);
     Some (if b1 > 0 then schedule_cb g1 (wrap (p\<lparr>prod_elapsed_time := t\<rparr>)) else g1)
   }"

definition asic_action :: "Producer \<Rightarrow> GameBoard \<Rightarrow> GameBoard option" where
  "asic_action = producer_action ASICProducer"

definition steel_action :: "Producer \<Rightarrow> GameBoard \<Rightarrow> GameBoard option" where
  "steel_action = producer_action SteelSmelter"

definition silicon_action :: "Producer \<Rightarrow> GameBoard \<Rightarrow> GameBoard option" where
  "silicon_action = producer_action SiliconRefinery"

definition concrete_action :: "Producer \<Rightarrow> GameBoard \<Rightarrow> GameBoard option" where
  "concrete_action = producer_action ConcreteMiller"

section \<open>The scheduler\<close>

fun cb_action :: "Callback \<Rightarrow> GameBoard \<Rightarrow> GameBoard option" where
  "cb_action (PowerPlantEventCb e) g = power_plant_action e g"
| "cb_action (ASICProducer p) g = asic_action p g"
| "cb_action (SteelSmelter p) g = steel_action p g"
| "cb_action (SiliconRefinery p) g = silicon_action p g"
| "cb_action (ConcreteMiller p) g = concrete_action p g"
| "cb_action (CoinLockupCb l) g = lockup_action l g"

definition due :: "u64 \<Rightarrow> CallbackRegistry \<Rightarrow> Callback list" where
  "due t cbs = concat (map snd (filter (\<lambda>e. fst e < t) cbs))"

definition not_due :: "u64 \<Rightarrow> CallbackRegistry \<Rightarrow> CallbackRegistry" where
  "not_due t cbs = filter (\<lambda>e. t \<le> fst e) cbs"

definition run_callbacks :: "GameBoard \<Rightarrow> GameBoard option" where
  "run_callbacks g = do {
     t \<leftarrow> add64 (elapsed_time g) 1;
     fold_opt cb_action (due t (callbacks g)) (g\<lparr>callbacks := not_due t (callbacks g)\<rparr>)
   }"

end
