(* ===== verification/Sanitize.thy ===== *)
theory Sanitize
  imports Board
begin

text \<open>
  Sanitization of moves (\<open>sanitize.rs\<close>): every pointer of a move must be registered on the
  board, the receiver of tokens must be a user or an NFT, and a plant must have a size. An
  accepted move is unchanged.
\<close>

definition sanitize_token :: "GameBoard \<Rightarrow> TokenPointer \<Rightarrow> SanitizationError + TokenPointer" where
  "sanitize_token g p = (if bt_get (reg_tokens (tokens g)) (as_id p) \<noteq> None then Inr p else Inl (InvalidTokenPointer p))"

definition sanitize_nft :: "GameBoard \<Rightarrow> NftPtr \<Rightarrow> SanitizationError + NftPtr" where
  "sanitize_nft g p = (if bt_get (nft_map (nfts g)) p \<noteq> None then Inr p else Inl (InvalidNFTPtr p))"

text \<open>The \<open>?\<close> operator on a \<open>Result\<close>.\<close>

definition try_res :: "'e + 'a \<Rightarrow> ('a \<Rightarrow> 'e + 'b) \<Rightarrow> 'e + 'b" where
  "try_res r f = (case r of Inl e \<Rightarrow> Inl e | Inr x \<Rightarrow> f x)"

definition sanitize_pair :: "GameBoard \<Rightarrow> TradingPairID \<Rightarrow> SanitizationError + TradingPairID" where
  "sanitize_pair g p =
     try_res (sanitize_token g (asset_a p)) (\<lambda>a.
     try_res (sanitize_token g (asset_b p)) (\<lambda>b. Inr (TradingPairID a b)))"

definition sanitize_mint :: "u64 \<Rightarrow> GameMove \<Rightarrow> SanitizationError + GameMove" where
  "sanitize_mint scale m = (if scale = 0 then Inl MintScaleIsZero else Inr m)"

definition sanitize_nft_move ::
  "GameBoard \<Rightarrow> NftPtr \<Rightarrow> TokenPointer \<Rightarrow> (NftPtr \<Rightarrow> TokenPointer \<Rightarrow> GameMove) \<Rightarrow> SanitizationError + GameMove" where
  "sanitize_nft_move g i cur mk =
     try_res (sanitize_nft g i) (\<lambda>i. try_res (sanitize_token g cur) (\<lambda>cur. Inr (mk i cur)))"

definition sanitize_send :: "GameBoard \<Rightarrow> EntityID \<Rightarrow> u128 \<Rightarrow> TokenPointer \<Rightarrow> SanitizationError + GameMove" where
  "sanitize_send g to_id amount cur =
     (if bt_get (users g) to_id \<noteq> None \<or> bt_get (nft_map (nfts g)) (NftPtr to_id) \<noteq> None
      then try_res (sanitize_token g cur) (\<lambda>cur. Inr (SendTokens to_id amount cur))
      else Inl (InvalidUser to_id))"

fun sanitize :: "GameMove \<Rightarrow> GameBoard \<Rightarrow> SanitizationError + GameMove" where
  "sanitize (RemoveTokens i amount cur) g = sanitize_nft_move g i cur (\<lambda>i cur. RemoveTokens i amount cur)"
| "sanitize Heartbeat g = Inr Heartbeat"
| "sanitize (Trade pair a b sell cap) g = try_res (sanitize_pair g pair) (\<lambda>pair. Inr (Trade pair a b sell cap))"
| "sanitize (MintPowerPlant scale loc ty) g = sanitize_mint scale (MintPowerPlant scale loc ty)"
| "sanitize (SuperMintPowerPlant scale loc ty) g = sanitize_mint scale (SuperMintPowerPlant scale loc ty)"
| "sanitize (PurchaseNFT i lim cur) g = sanitize_nft_move g i cur (\<lambda>i cur. PurchaseNFT i lim cur)"
| "sanitize (ListNFTForSale i pr cur) g = sanitize_nft_move g i cur (\<lambda>i cur. ListNFTForSale i pr cur)"
| "sanitize (SendTokens to_id amount cur) g = sanitize_send g to_id amount cur"
| "sanitize (Chat s) g = Inr (Chat s)"

text \<open>What a move names, and what an accepted move may rely on: the tokens and NFTs it names
  are registered, tokens are sent to a user or to an NFT, and a plant has a size.\<close>

fun tokens_named :: "GameMove \<Rightarrow> TokenPointer set" where
  "tokens_named (Trade pair a b sell cap) = {asset_a pair, asset_b pair}"
| "tokens_named (PurchaseNFT i lim cur) = {cur}"
| "tokens_named (ListNFTForSale i pr cur) = {cur}"
| "tokens_named (SendTokens to_id n cur) = {cur}"
| "tokens_named (RemoveTokens i n cur) = {cur}"
| "tokens_named m = {}"

fun nfts_named :: "GameMove \<Rightarrow> NftPtr set" where
  "nfts_named (PurchaseNFT i lim cur) = {i}"
| "nfts_named (ListNFTForSale i pr cur) = {i}"
| "nfts_named (RemoveTokens i n cur) = {i}"
| "nfts_named m = {}"

definition names_ok :: "GameBoard \<Rightarrow> GameMove \<Rightarrow> bool" where
  "names_ok g m =
     (tokens_named m \<subseteq> {p. has_token g p} \<and> nfts_named m \<subseteq> {i. nft_index (nfts g) i \<noteq> None} \<and>
      (case m of
         SendTokens to_id n cur \<Rightarrow> bt_get (users g) to_id \<noteq> None \<or> nft_index (nfts g) (NftPtr to_id) \<noteq> None
       | MintPowerPlant scale loc ty \<Rightarrow> 0 < scale
       | SuperMintPowerPlant scale loc ty \<Rightarrow> 0 < scale
       | _ \<Rightarrow> True))"

lemma sanitize_token_Inr: "(sanitize_token g p = Inr q) = (has_token g p \<and> q = p)"
  by (auto simp: sanitize_token_def reg_has_def tok_index_def)

lemma sanitize_nft_Inr: "(sanitize_nft g p = Inr q) = (nft_index (nfts g) p \<noteq> None \<and> q = p)"
  by (auto simp: sanitize_nft_def nft_index_def)

lemma try_res_Inr: "(try_res r f = Inr y) = (\<exists>x. r = Inr x \<and> f x = Inr y)"
  by (auto simp: try_res_def split: sum.splits)

lemmas sanitize_results = sanitize_token_Inr sanitize_nft_Inr try_res_Inr

lemma sanitize_Inr: "(sanitize m g = Inr m') = (names_ok g m \<and> m' = m)"
  by (cases m)
    (auto simp: names_ok_def sanitize_results sanitize_pair_def sanitize_mint_def sanitize_nft_move_def
      sanitize_send_def nft_index_def TradingPairID.expand)

text \<open>The error of a refused move is about something the move names.\<close>

lemma sanitize_token_Inl: "(sanitize_token g p = Inl e) = (\<not> has_token g p \<and> e = InvalidTokenPointer p)"
  by (auto simp: sanitize_token_def reg_has_def tok_index_def)

lemma sanitize_nft_Inl: "(sanitize_nft g i = Inl e) = (nft_index (nfts g) i = None \<and> e = InvalidNFTPtr i)"
  by (auto simp: sanitize_nft_def nft_index_def)

lemma try_res_Inl: "(try_res r f = Inl e) = (r = Inl e \<or> (\<exists>x. r = Inr x \<and> f x = Inl e))"
  by (auto simp: try_res_def split: sum.splits)

lemma sanitize_Inl:
  assumes "sanitize m g = Inl e"
  shows "case e of
      InvalidTokenPointer p \<Rightarrow> p \<in> tokens_named m \<and> \<not> has_token g p
    | InvalidNFTPtr i \<Rightarrow> i \<in> nfts_named m \<and> nft_index (nfts g) i = None
    | InvalidUser to_id \<Rightarrow> (\<exists>n cur. m = SendTokens to_id n cur)
    | MintScaleIsZero \<Rightarrow> (\<exists>loc ty. m = MintPowerPlant 0 loc ty \<or> m = SuperMintPowerPlant 0 loc ty)"
  using assms
  by (cases m)
    (auto simp: sanitize_token_Inl sanitize_nft_Inl try_res_Inl sanitize_results sanitize_pair_def sanitize_mint_def
      sanitize_nft_move_def sanitize_send_def split: if_splits)

text \<open>A board with the same users on which nothing was unregistered accepts what was accepted.\<close>

lemma names_ok_later:
  assumes "names_ok g m" and "users g' = users g" and "\<And>p. has_token g p \<Longrightarrow> has_token g' p"
    and "\<And>i. nft_index (nfts g) i \<noteq> None \<Longrightarrow> nft_index (nfts g') i \<noteq> None"
  shows "names_ok g' m"
  using assms by (cases m) (auto simp: names_ok_def)

end
