(* ===== verification/Game.thy ===== *)
theory Game
  imports Callbacks Sanitize
begin

text \<open>
  The game (\<open>common/mine-with-friends-board/src/game/mod.rs\<close>): setting up a board, playing a
  move, the clock, the end of the game and the division of the bounty, and the queries of the
  user interface. \<open>play\<close> is the whole of the handler that a sequencer feeds with moves.
\<close>

section \<open>Setting up\<close>

definition setup_player :: "u64 \<Rightarrow> string \<Rightarrow> GameBoard \<Rightarrow> GameBoard option" where
  "setup_player amount player g = do {
     (i, g1) \<leftarrow> alloc g;
     let g2 = g1\<lparr>users := bt_put i \<lparr>user_key = player\<rparr> (users g1),
                 users_by_key := bt_put player i (users_by_key g1)\<rparr> in do {
       g3 \<leftarrow> mint_tokens g2 (real_sats_token_id g2) i amount;
       mint_tokens g3 (bitcoin_token_id g3) i amount
     }
   }"

definition setup_game :: "GameSetup \<Rightarrow> GameBoard \<Rightarrow> GameBoard option" where
  "setup_game s g =
     fold_opt (setup_player (start_amount s)) (remdups_adj (sort (players s)))
       (g\<lparr>finish_time := setup_finish_time s\<rparr>)"

definition no_finish_time :: u64 where
  "no_finish_time = 9007199254740991"

definition ensure_btc_market :: "TokenPointer \<Rightarrow> GameBoard \<Rightarrow> GameBoard option" where
  "ensure_btc_market i g = do { (_, g') \<leftarrow> ensure g (TradingPairID (bitcoin_token_id g) i); Some g' }"

definition new_producer :: "EntityID \<Rightarrow> TokenPointer \<Rightarrow> TokenPointer \<Rightarrow> u64 \<Rightarrow> Producer" where
  "new_producer i price_tok hash_tok every =
     \<lparr>prod_id = i, total_units = 100000, base_price = 100000, price_asset = price_tok,
      hash_asset = hash_tok, adjusts_every = every, prod_elapsed_time = 0, first = True\<rparr>"

definition start_locations :: "((int \<times> int) \<times> PlantType) list" where
  "start_locations =
     [((38075660, - 120030170), Flare), ((- 2346660, - 76223050), Hydro),
      ((- 5203060, - 66345370), Solar), ((66596730, 31545250), Flare),
      ((29521143, 26620126), Hydro), ((58162163, 39188486), Solar),
      ((28599246, 116180671), Flare), ((- 29625744, 138416999), Hydro),
      ((- 12141092, 35233406), Solar), ((21968789, - 12535149), Flare)]"

text \<open>One plant with one miner for every player; indexing past the locations panics.\<close>

fun start_plants :: "((int \<times> int) \<times> PlantType) list \<Rightarrow> EntityID list \<Rightarrow> GameBoard \<Rightarrow> GameBoard option" where
  "start_plants locs [] g = Some g"
| "start_plants [] (player # ps) g = None"
| "start_plants ((coords, ty) # locs) (player # ps) g = do {
     (i, g1) \<leftarrow> alloc g;
     let (plant_ptr, nfts') = nft_add (nfts g1) \<lparr>owner = player, nft_id = i, transfer_count = 0\<rparr> in do {
       new_plant \<leftarrow> new_power_plant plant_ptr ty coords 1;
       let g2 = g1\<lparr>nfts := nfts'\<lparr>power_plants := bt_put plant_ptr new_plant (power_plants nfts')\<rparr>\<rparr> in do {
         g3 \<leftarrow> mint_tokens g2 (asic_token_id g2) (nft_inner plant_ptr) 1;
         start_plants locs ps g3
       }
     }
   }"

definition post_init :: "GameBoard \<Rightarrow> GameBoard option" where
  "post_init g = do {
     g1 \<leftarrow> ensure_btc_market (steel_token_id g) g;
     g2 \<leftarrow> ensure_btc_market (silicon_token_id g1) g1;
     g3 \<leftarrow> ensure_btc_market (concrete_token_id g2) g2;
     g4 \<leftarrow> ensure_btc_market (asic_token_id g3) g3;
     g5 \<leftarrow> mint_tokens g4 (bitcoin_token_id g4) (root_user g4) 10000000000;
     g6 \<leftarrow> mint_tokens g5 (real_sats_token_id g5) (root_user g5) 30000;
     (asic_id, g7) \<leftarrow> alloc g6;
     let g8 = schedule_cb g7 (PowerPlantEventCb \<lparr>event_time = 0, event_period = 11003\<rparr>) in
     case hashboards (tokens g8) of
       [] \<Rightarrow> None
     | (hash_token, _) # _ \<Rightarrow>
         let btc = bitcoin_token_id g8;
             g9 = schedule_cb g8 (ASICProducer (new_producer asic_id btc hash_token 10007)) in do {
           (steel_id, g10) \<leftarrow> alloc g9;
           let g11 = schedule_cb g10 (SteelSmelter (new_producer steel_id btc (steel_token_id g10) 5003)) in do {
             (silicon_id, g12) \<leftarrow> alloc g11;
             let g13 = schedule_cb g12 (SiliconRefinery (new_producer silicon_id btc (silicon_token_id g12) 25013)) in do {
               (concrete_id, g14) \<leftarrow> alloc g13;
               let g15 = schedule_cb g14 (ConcreteMiller (new_producer concrete_id btc (concrete_token_id g14) 14009)) in
               start_plants start_locations (remdups_adj (sort (map snd (users_by_key g15)))) g15
             }
           }
         }
   }"

text \<open>The tokens of a new board, in the order of their registration, and the rest of it.\<close>

definition initial_board :: "GameBoard option" where
  "initial_board = do {
     (btc, a1) \<leftarrow> new_from_alloc new_allocator ''Virtual Sats'';
     (real_sats, a2) \<leftarrow> new_from_alloc a1 ''Real World Sats'';
     (concrete, a3) \<leftarrow> new_from_alloc a2 ''Concrete (1mt)'';
     (asic, a4) \<leftarrow> new_from_alloc a3 ''ASIC Gen 1'';
     (steel_t, a5) \<leftarrow> new_from_alloc a4 ''Steel (1mt)'';
     (silicon_t, a6) \<leftarrow> new_from_alloc a5 ''Silicon (10kg)'';
     let (btc_id, r1) = new_token default_registry btc;
         (real_sats_id, r2) = new_token r1 real_sats;
         (concrete_id, r3) = new_token r2 concrete;
         (steel_id, r4) = new_token r3 steel_t;
         (silicon_id, r5) = new_token r4 silicon_t;
         (asic_id, r6) = new_token r5 asic;
         reg = r6\<lparr>hashboards := bt_put asic_id \<lparr>hash_per_watt = 3 * 100000000000, reliability = 100\<rparr> (hashboards r6),
                  steel := bt_put steel_id \<lparr>variety = Structural, steel_weight_in_kg = 1000\<rparr> (steel r6),
                  silicon := bt_put silicon_id \<lparr>silicon_weight_in_kg = 10\<rparr> (silicon r6)\<rparr>
     in do {
       (root, a7) \<leftarrow> alloc_make a6;
       Some \<lparr>tokens = reg, swap = [], turn_count = 0, alloc_ids = a7, users = [], users_by_key = [],
             nfts = \<lparr>nft_map = [], power_plants = []\<rparr>, nft_sales = [], player_move_sequence = [],
             bitcoin_token_id = btc_id, real_sats_token_id = real_sats_id, steel_token_id = steel_id,
             silicon_token_id = silicon_id, concrete_token_id = concrete_id, asic_token_id = asic_id,
             root_user = root, callbacks = [], elapsed_time = 0, finish_time = 0,
             mining_subsidy = 100000000 * 50, ticks = [], chat_log = [], nicks = [], chat_counter = 0,
             event_log = [], event_log_counter = 0,
             plant_prices = (\<lambda>_. None)
               (Solar := Some [(steel_id, 1), (silicon_id, 8), (concrete_id, 1)],
                Hydro := Some [(steel_id, 3), (silicon_id, 1), (concrete_id, 6)],
                Flare := Some [(steel_id, 4), (silicon_id, 2), (concrete_id, 4)])\<rparr>
     }
   }"

definition new_board :: "GameSetup \<Rightarrow> GameBoard option" where
  "new_board s = do {
     g \<leftarrow> initial_board;
     g1 \<leftarrow> setup_game s g;
     post_init g1
   }"

section \<open>The clock\<close>

definition get_or_zero :: "nat list \<Rightarrow> nat \<Rightarrow> nat" where
  "get_or_zero xs i = (if i < length xs then xs ! i else 0)"

definition median_elapsed :: "u64 list \<Rightarrow> u64 option" where
  "median_elapsed xs =
     (let elapsed = sort xs; n = length elapsed in
      if n mod 2 = 0 then do {
        j \<leftarrow> sub_w (n div 2) 1;
        s \<leftarrow> add64 (get_or_zero elapsed (n div 2)) (get_or_zero elapsed j);
        Some (s div 2)
      }
      else Some (get_or_zero elapsed (n div 2)))"

text \<open>\<open>checked_sub(..).unwrap_or_default()\<close> is subtraction that stops at 0.\<close>

definition update_current_time :: "EntityID \<Rightarrow> u64 \<Rightarrow> GameBoard \<Rightarrow> GameBoard option" where
  "update_current_time from_id time g =
     (let tick = bt_or \<lparr>first_time = time, tick_elapsed = 0\<rparr> (ticks g) from_id;
          tick' = tick\<lparr>tick_elapsed := max (tick_elapsed tick) (time - first_time tick)\<rparr>;
          ticks' = bt_put from_id tick' (ticks g) in do {
        m \<leftarrow> median_elapsed (map tick_elapsed (bt_vals ticks'));
        Some (g\<lparr>ticks := ticks', elapsed_time := max (elapsed_time g) m\<rparr>)
      })"

definition process_ticks :: "GameBoard \<Rightarrow> GameBoard option" where
  "process_ticks g = run_callbacks g"

definition current_time :: "GameBoard \<Rightarrow> u64" where
  "current_time g = elapsed_time g"

section \<open>The end of the game\<close>

definition hashrate_denominator :: u128 where
  "hashrate_denominator = 100000"

fun accumulate_rates ::
  "GameBoard \<Rightarrow> (NftPtr \<times> PowerPlant) list \<Rightarrow> u128 \<Rightarrow> (EntityID, u128 \<times> u128) btree_map \<Rightarrow>
   (u128 \<times> (EntityID, u128 \<times> u128) btree_map) option" where
  "accumulate_rates g [] tot res = Some (tot, res)"
| "accumulate_rates g ((p, plant) # rest) tot res = do {
     rate \<leftarrow> compute_hashrate plant g;
     n \<leftarrow> nft_index (nfts g) p;
     scaled \<leftarrow> mul128 rate hashrate_denominator;
     v \<leftarrow> (case bt_get res (owner n) of
            None \<Rightarrow> Some (scaled, hashrate_denominator)
          | Some w \<Rightarrow> do { s \<leftarrow> add128 (fst w) scaled; Some (s, snd w) });
     tot' \<leftarrow> add128 tot rate;
     accumulate_rates g rest tot' (bt_put (owner n) v res)
   }"

definition get_user_hashrate_share :: "GameBoard \<Rightarrow> (EntityID, u128 \<times> u128) btree_map option" where
  "get_user_hashrate_share g = do {
     (tot, res) \<leftarrow> accumulate_rates g (power_plants (nfts g)) 0 [];
     Some (if tot > 0 then map (\<lambda>(k, v). (k, (fst v div tot, snd v))) res else res)
   }"

fun find_dominating :: "(EntityID, u128 \<times> u128) btree_map \<Rightarrow> EntityID option option" where
  "find_dominating [] = Some None"
| "find_dominating ((k, v) # rest) = do {
     d \<leftarrow> mul128 (fst v) 2;
     if d \<ge> snd v then Some (Some k) else find_dominating rest
   }"

definition game_is_finished :: "GameBoard \<Rightarrow> FinishReason option option" where
  "game_is_finished g =
     (if elapsed_time g \<ge> finish_time g then Some (Some TimeExpired)
      else do {
        t \<leftarrow> mul64 3 (finish_time g);
        if elapsed_time g \<ge> t div 4 then do {
          shares \<leftarrow> get_user_hashrate_share g;
          k \<leftarrow> find_dominating shares;
          Some (map_option DominatingPlayer k)
        }
        else Some None
      })"

text \<open>The first reward takes what the divisions leave over.\<close>

definition add_excess :: "u64 \<Rightarrow> (string \<times> u64) list \<Rightarrow> (string \<times> u64) list option" where
  "add_excess excess rewards =
     (case rewards of
        [] \<Rightarrow> Some []
      | (k, v) # rest \<Rightarrow> do { v' \<leftarrow> add64 v excess; Some ((k, v') # rest) })"

definition expired_rewards :: "u64 \<Rightarrow> (string \<times> u128) list \<Rightarrow> (string \<times> u64) list option" where
  "expired_rewards bounty bals = do {
     tot \<leftarrow> sum_w 128 0 (map snd bals);
     rewards \<leftarrow> (if tot = 0
       then map_opt (\<lambda>(k, v). do { r \<leftarrow> div_w bounty (length bals); Some (k, r) }) bals
       else map_opt (\<lambda>(k, v). do { p \<leftarrow> mul128 v bounty; r \<leftarrow> div_w p tot; Some (k, r mod 2 ^ 64) }) bals);
     paid \<leftarrow> sum_w 64 0 (map snd rewards);
     excess \<leftarrow> sub_w bounty paid;
     add_excess excess rewards
   }"

definition get_close_distribution ::
  "GameBoard \<Rightarrow> u64 \<Rightarrow> string \<Rightarrow> (CloseError + (string \<times> u64) list) option" where
  "get_close_distribution g bounty host_key = do {
     fin \<leftarrow> game_is_finished g;
     case fin of
       None \<Rightarrow> Some (Inl GameNotFinished)
     | Some TimeExpired \<Rightarrow> do {
         bals \<leftarrow> map_opt (\<lambda>(k, v). do { b \<leftarrow> balance g (bitcoin_token_id g) v; Some (k, b) }) (users_by_key g);
         rewards \<leftarrow> expired_rewards bounty bals;
         Some (Inr rewards)
       }
     | Some (DominatingPlayer i) \<Rightarrow> do {
         u \<leftarrow> bt_get (users g) i;
         let twentyfivepercent = bounty div 4 in do {
           rest \<leftarrow> sub_w bounty twentyfivepercent;
           Some (Inr [(user_key u, rest), (host_key, twentyfivepercent)])
         }
       }
   }"

end
