(* ===== verification/Play.thy ===== *)
theory Play
  imports Game
begin

text \<open>
  Playing moves and reading the board (\<open>game/mod.rs\<close>): the logs, \<open>play_inner\<close>, \<open>play\<close>, and the
  queries of the user interface. A rejection is an \<open>Inl\<close> beside the board it leaves behind.
\<close>

section \<open>Logs\<close>

text \<open>A log keeps its last 1000 entries.\<close>

definition push_log :: "'a \<Rightarrow> 'a list \<Rightarrow> 'a list" where
  "push_log x log = (if length log \<ge> 1000 then tl log else log) @ [x]"

definition add_to_event_log :: "EntityID \<Rightarrow> LogEvent \<Rightarrow> GameBoard \<Rightarrow> GameBoard option" where
  "add_to_event_log from_id e g = do {
     c \<leftarrow> add64 (event_log_counter g) 1;
     Some (g\<lparr>event_log_counter := c, event_log := push_log (c, from_id, e) (event_log g)\<rparr>)
   }"

definition is_ascii :: "string \<Rightarrow> bool" where
  "is_ascii s = list_all (\<lambda>c. (of_char c :: nat) < 128) s"

definition is_nick_command :: "string \<Rightarrow> bool" where
  "is_nick_command s = (take 5 s = ''/nick'' \<and> is_ascii s \<and> length s < 32)"

text \<open>The nick is what follows the first space, with the space.\<close>

definition nick_of :: "string \<Rightarrow> string" where
  "nick_of s = dropWhile (\<lambda>c. c \<noteq> CHR '' '') s"

definition chat_move :: "EntityID \<Rightarrow> string \<Rightarrow> GameBoard \<Rightarrow> GameBoard option" where
  "chat_move from_id s g =
     (let (g1, msg) =
        (if is_nick_command s
         then (g\<lparr>nicks := bt_put from_id (nick_of s) (nicks g)\<rparr>,
               entity_to_string from_id @ '' is now known as '' @ nick_of s)
         else (g, s)) in do {
        c \<leftarrow> add64 (chat_counter g1) 1;
        Some (g1\<lparr>chat_counter := c, chat_log := push_log (c, from_id, msg) (chat_log g1)\<rparr>)
      })"

section \<open>Moves\<close>

definition trade_result :: "((TradeError + 'a) \<times> GameBoard) option \<Rightarrow> ((MoveRejectReason + unit) \<times> GameBoard) option" where
  "trade_result m = do {
     (r, g) \<leftarrow> m;
     Some (case r of Inl e \<Rightarrow> Inl (TradeRejected e) | Inr _ \<Rightarrow> Inr (), g)
   }"

definition accepted :: "GameBoard option \<Rightarrow> ((MoveRejectReason + unit) \<times> GameBoard) option" where
  "accepted m = do { g \<leftarrow> m; Some (Inr (), g) }"

definition trade_move ::
  "TradingPairID \<Rightarrow> u128 \<Rightarrow> u128 \<Rightarrow> bool \<Rightarrow> u128 option \<Rightarrow> EntityID \<Rightarrow> GameBoard \<Rightarrow>
   ((MoveRejectReason + unit) \<times> GameBoard) option" where
  "trade_move pair a b sell cap from_id g =
     trade_result (if sell then do_sell_trade g pair a b cap False from_id
                   else do_buy_trade g pair a b cap False from_id)"

definition purchase_move :: "NftPtr \<Rightarrow> u128 \<Rightarrow> TokenPointer \<Rightarrow> EntityID \<Rightarrow> GameBoard \<Rightarrow> GameBoard option" where
  "purchase_move i lim cur from_id g = do {
     (sales, toks, ns) \<leftarrow> purchase (nft_sales g) from_id i (tokens g) (nfts g) lim cur;
     Some (g\<lparr>nft_sales := sales, tokens := toks, nfts := ns\<rparr>)
   }"

definition list_move :: "NftPtr \<Rightarrow> u128 \<Rightarrow> TokenPointer \<Rightarrow> EntityID \<Rightarrow> GameBoard \<Rightarrow> GameBoard option" where
  "list_move i pr cur from_id g = do {
     sales \<leftarrow> list_nft (nft_sales g) from_id i pr cur (nfts g);
     Some (g\<lparr>nft_sales := sales\<rparr>)
   }"

definition send_move :: "EntityID \<Rightarrow> u128 \<Rightarrow> TokenPointer \<Rightarrow> EntityID \<Rightarrow> GameBoard \<Rightarrow> GameBoard option" where
  "send_move to_id amount cur from_id g = do {
     (_, g') \<leftarrow> transfer_tokens g cur from_id to_id amount;
     Some g'
   }"

definition remove_move :: "NftPtr \<Rightarrow> u128 \<Rightarrow> TokenPointer \<Rightarrow> EntityID \<Rightarrow> GameBoard \<Rightarrow> GameBoard option" where
  "remove_move i amount cur from_id g =
     (let shipping_time = 1 in do {
        n \<leftarrow> nft_index (nfts g) i;
        if owner n = from_id then do {
          plant \<leftarrow> bt_get (power_plants (nfts g)) i;
          ship_hashrate plant cur amount shipping_time g
        }
        else Some g
      })"

fun play_inner :: "GameMove \<Rightarrow> EntityID \<Rightarrow> GameBoard \<Rightarrow> ((MoveRejectReason + unit) \<times> GameBoard) option" where
  "play_inner Heartbeat from_id g = Some (Inr (), g)"
| "play_inner (Trade pair a b sell cap) from_id g = trade_move pair a b sell cap from_id g"
| "play_inner (MintPowerPlant scale loc ty) from_id g = trade_result (mint_power_plant g scale loc ty from_id)"
| "play_inner (SuperMintPowerPlant scale loc ty) from_id g = trade_result (super_mint g scale loc ty from_id)"
| "play_inner (PurchaseNFT i lim cur) from_id g = accepted (purchase_move i lim cur from_id g)"
| "play_inner (ListNFTForSale i pr cur) from_id g = accepted (list_move i pr cur from_id g)"
| "play_inner (SendTokens to_id amount cur) from_id g = accepted (send_move to_id amount cur from_id g)"
| "play_inner (RemoveTokens i amount cur) from_id g = accepted (remove_move i amount cur from_id g)"
| "play_inner (Chat s) from_id g = accepted (chat_move from_id s g)"

text \<open>The part of \<open>play\<close> after the sequence number has been accepted.\<close>

definition play_accepted ::
  "GameMove \<Rightarrow> u64 \<Rightarrow> EntityID \<Rightarrow> GameBoard \<Rightarrow> ((MoveRejectReason + unit) \<times> GameBoard) option" where
  "play_accepted d time from_id g =
     (case sanitize d g of
        Inl e \<Rightarrow> Some (Inl (MoveSanitizationError e), g)
      | Inr mv \<Rightarrow> do {
          g1 \<leftarrow> update_current_time from_id time g;
          g2 \<leftarrow> process_ticks g1;
          g3 \<leftarrow> add_to_event_log from_id (LogGameMove mv) g2;
          (r, g4) \<leftarrow> play_inner mv from_id g3;
          case r of
            Inr _ \<Rightarrow> Some (Inr (), g4)
          | Inl e \<Rightarrow> do {
              g5 \<leftarrow> add_to_event_log from_id (LogMoveRejectReason e) g4;
              Some (Inl e, g5)
            }
        })"

definition play :: "MoveEnvelope \<Rightarrow> string \<Rightarrow> GameBoard \<Rightarrow> ((MoveRejectReason + unit) \<times> GameBoard) option" where
  "play env signed_by g =
     (case bt_get (users_by_key g) signed_by of
        None \<Rightarrow> Some (Inl NoSuchUser, g)
      | Some from_id \<Rightarrow> do {
          fin \<leftarrow> game_is_finished g;
          case fin of
            Some reason \<Rightarrow> do {
              g' \<leftarrow> add_to_event_log from_id (LogMoveRejectReason (GameIsFinished reason)) g;
              Some (Inl (GameIsFinished reason), g')
            }
          | None \<Rightarrow>
              let current_move = bt_or 0 (player_move_sequence g) from_id in do {
                expected \<leftarrow> add64 current_move 1;
                if expected \<noteq> move_sequence env \<and> \<not> (current_move = 0 \<and> move_sequence env = 0)
                then Some (Inr (), g\<lparr>player_move_sequence := bt_put from_id current_move (player_move_sequence g)\<rparr>)
                else play_accepted (move_d env) (time_millis env) from_id
                  (g\<lparr>player_move_sequence := bt_put from_id (move_sequence env) (player_move_sequence g)\<rparr>)
              }
        })"

section \<open>Queries of the user interface\<close>

definition get_user_id :: "GameBoard \<Rightarrow> string \<Rightarrow> EntityID option" where
  "get_user_id g signing_key = bt_get (users_by_key g) signing_key"

definition user_is_admin :: "GameBoard \<Rightarrow> EntityID \<Rightarrow> bool" where
  "user_is_admin g user = (user = root_user g)"

definition simulate_buy_trade ::
  "GameBoard \<Rightarrow> TradingPairID \<Rightarrow> u128 \<Rightarrow> u128 \<Rightarrow> EntityID \<Rightarrow> ((TradeError + TradeOutcome) \<times> GameBoard) option" where
  "simulate_buy_trade g pair a b sender = do_buy_trade g pair a b None True sender"

definition simulate_sell_trade ::
  "GameBoard \<Rightarrow> TradingPairID \<Rightarrow> u128 \<Rightarrow> u128 \<Rightarrow> EntityID \<Rightarrow> ((TradeError + TradeOutcome) \<times> GameBoard) option" where
  "simulate_sell_trade g pair a b sender = do_sell_trade g pair a b None True sender"

definition get_power_plant_cost ::
  "GameBoard \<Rightarrow> u64 \<Rightarrow> PlantType \<Rightarrow> string \<Rightarrow>
   ((TradeError + (string \<times> u128 \<times> u128) list) \<times> GameBoard) option" where
  "get_power_plant_cost g scale ty signing_key = do {
     own \<leftarrow> bt_get (users_by_key g) signing_key;
     estimate_materials_cost g scale ty own
   }"

definition name_or_unknown :: "GameBoard \<Rightarrow> TokenPointer \<Rightarrow> string option" where
  "name_or_unknown g p = do {
     t \<leftarrow> tok_index (tokens g) p;
     Some (case nickname t of Some n \<Rightarrow> n | None \<Rightarrow> ''Unknown Token: '' @ debug_token p)
   }"

fun materials_prices ::
  "EntityID list \<Rightarrow> GameBoard \<Rightarrow> (UXMaterialsPriceData list \<times> GameBoard) option" where
  "materials_prices [] g = Some ([], g)"
| "materials_prices (i # rest) g = do {
     t \<leftarrow> bt_get (reg_tokens (tokens g)) i;
     let nick = (case nickname t of Some n \<Rightarrow> n | None \<Rightarrow> ''Unknown Token'');
         pair = normalize (TradingPairID (ptr t) (bitcoin_token_id g)) in
     if \<not> has_market g pair then materials_prices rest g
     else do {
       ((qa, qb), g1) \<leftarrow> get_pair_price_data g pair;
       na \<leftarrow> name_or_unknown g1 (asset_a pair);
       nb \<leftarrow> name_or_unknown g1 (asset_b pair);
       (res, g2) \<leftarrow> materials_prices rest g1;
       Some (\<lparr>uxm_trading_pair = pair, uxm_asset_a = na, uxm_mkt_qty_a = qa, uxm_asset_b = nb,
              uxm_mkt_qty_b = qb, uxm_display_asset = nick\<rparr> # res, g2)
     }
   }"

definition get_ux_materials_prices :: "GameBoard \<Rightarrow> (UXMaterialsPriceData list \<times> GameBoard) option" where
  "get_ux_materials_prices g = materials_prices (bt_keys (reg_tokens (tokens g))) g"

definition ux_plant :: "GameBoard \<Rightarrow> NftPtr \<times> PowerPlant \<Rightarrow> UXPlantData option" where
  "ux_plant g e = (case e of (i, plant) \<Rightarrow> do {
     n \<leftarrow> nft_index (nfts g) i;
     m \<leftarrow> balance g (asic_token_id g) (nft_id n);
     h \<leftarrow> compute_hashrate plant g;
     Some \<lparr>uxp_id = i, uxp_coordinates = coordinates plant,
           uxp_for_sale = (bt_get (nft_sales g) i \<noteq> None), uxp_miners = m, uxp_owner = owner n,
           uxp_plant_type = plant_type plant, uxp_watts = watts plant, uxp_hashrate = h\<rparr>
   })"

definition get_ux_power_plant_data :: "GameBoard \<Rightarrow> UXPlantData list option" where
  "get_ux_power_plant_data g = map_opt (ux_plant g) (power_plants (nfts g))"

definition get_user_power_plants :: "GameBoard \<Rightarrow> EntityID \<Rightarrow> (NftPtr, UXPlantData) btree_map option" where
  "get_user_power_plants g user = do {
     ps \<leftarrow> get_ux_power_plant_data g;
     Some (fold (\<lambda>p m. bt_put (uxp_id p) p m) (filter (\<lambda>p. uxp_owner p = user) ps) [])
   }"

definition get_ux_user_inventory ::
  "GameBoard \<Rightarrow> string \<Rightarrow> ((NftPtr, UXPlantData) btree_map \<times> (string \<times> u128) list) option" where
  "get_ux_user_inventory g key = do {
     user \<leftarrow> bt_get (users_by_key g) key;
     ps \<leftarrow> get_user_power_plants g user;
     bs \<leftarrow> map_opt (\<lambda>t. do { n \<leftarrow> nickname t; Some (n, balance_check t user) }) (bt_vals (reg_tokens (tokens g)));
     Some (ps, bs)
   }"

definition get_ux_energy_market :: "GameBoard \<Rightarrow> UXNFTSale list" where
  "get_ux_energy_market g =
     map (\<lambda>(i, s). \<lparr>ux_nft_id = i, ux_price = price s, ux_currency = sale_currency s, ux_seller = seller s,
       ux_transfer_count = sale_transfer_count s\<rparr>) (nft_sales g)"

definition get_ux_chat_log :: "GameBoard \<Rightarrow> (u64 \<times> EntityID \<times> string) list" where
  "get_ux_chat_log g = chat_log g"

definition get_ux_event_log :: "GameBoard \<Rightarrow> (u64 \<times> EntityID \<times> LogEvent) list" where
  "get_ux_event_log g = event_log g"

end
