(* ===== verification/Invariant.thy ===== *)
theory Invariant
  imports Swap_Books Play
begin

text \<open>
  The invariant of the board. \<open>board_ok\<close> says that the books and the markets are well formed
  (\<open>swap_ok\<close>), that everyone who pays is a customer and not a market (users, NFTs, producers),
  and that the tokens the game mints are not shares of a market. \<open>keeps\<close> and \<open>stays\<close> are what
  an operation must do to preserve it; every operation of the game is shown to be such a step,
  and the market maker and the plants leave the supply of every token alone.
\<close>

section \<open>The invariant\<close>

text \<open>The parts of the board that are fixed when the game is set up.\<close>

definition wiring ::
  "GameBoard \<Rightarrow> TokenRegistry \<times> (EntityID, UserData) btree_map \<times> (string, EntityID) btree_map \<times> EntityID \<times>
     TokenPointer list \<times> PowerPlantPrices \<times> u128 \<times> u64" where
  "wiring g = (reg_rest (tokens g), users g, users_by_key g, root_user g,
     [bitcoin_token_id g, real_sats_token_id g, steel_token_id g, silicon_token_id g,
      concrete_token_id g, asic_token_id g],
     plant_prices g, mining_subsidy g, finish_time g)"

text \<open>The parts that only \<open>play\<close> itself changes.\<close>

definition clock :: "GameBoard \<Rightarrow> u64 \<times> (EntityID, Tick) btree_map \<times> (EntityID, u64) btree_map" where
  "clock g = (elapsed_time g, ticks g, player_move_sequence g)"

fun cb_ok :: "GameBoard \<Rightarrow> Callback \<Rightarrow> bool" where
  "cb_ok g (PowerPlantEventCb e) = True"
| "cb_ok g (CoinLockupCb l) = customer g (nft_inner (lock_id l))"
| "cb_ok g (ASICProducer p) = (customer g (prod_id p) \<and> plain_token g (hash_asset p) \<and> plain_token g (price_asset p))"
| "cb_ok g (SteelSmelter p) = (customer g (prod_id p) \<and> plain_token g (hash_asset p) \<and> plain_token g (price_asset p))"
| "cb_ok g (SiliconRefinery p) = (customer g (prod_id p) \<and> plain_token g (hash_asset p) \<and> plain_token g (price_asset p))"
| "cb_ok g (ConcreteMiller p) = (customer g (prod_id p) \<and> plain_token g (hash_asset p) \<and> plain_token g (price_asset p))"

definition nfts_ok :: "GameBoard \<Rightarrow> bool" where
  "nfts_ok g = (\<forall>i. nft_index (nfts g) i \<noteq> None \<longrightarrow> customer g (nft_inner i))"

definition callbacks_ok :: "GameBoard \<Rightarrow> bool" where
  "callbacks_ok g = (\<forall>e \<in> set (callbacks g). \<forall>cb \<in> set (snd e). cb_ok g cb)"

definition wired_ok :: "GameBoard \<Rightarrow> bool" where
  "wired_ok g =
     ((\<forall>e \<in> set (users g). customer g (fst e)) \<and> (\<forall>e \<in> set (users_by_key g). customer g (snd e)) \<and>
      (\<forall>t \<in> {bitcoin_token_id g, real_sats_token_id g, steel_token_id g, silicon_token_id g,
        concrete_token_id g, asic_token_id g}. plain_token g t) \<and>
      (\<forall>e \<in> set (hashboards (tokens g)). plain_token g (fst e)))"

definition board_ok :: "GameBoard \<Rightarrow> bool" where
  "board_ok g = (swap_ok g \<and> nfts_ok g \<and> callbacks_ok g \<and> wired_ok g)"

section \<open>Steps that keep it\<close>

text \<open>No token and no NFT is ever unregistered.\<close>

definition grows :: "GameBoard \<Rightarrow> GameBoard \<Rightarrow> bool" where
  "grows g g' = ((\<forall>p. has_token g p \<longrightarrow> has_token g' p) \<and>
     (\<forall>i. nft_index (nfts g) i \<noteq> None \<longrightarrow> nft_index (nfts g') i \<noteq> None))"

lemma grows_refl [simp]: "grows g g"
  by (simp add: grows_def)

lemma grows_trans: "grows g g' \<Longrightarrow> grows g' g'' \<Longrightarrow> grows g g''"
  unfolding grows_def by blast

definition keeps :: "GameBoard \<Rightarrow> GameBoard \<Rightarrow> bool" where
  "keeps g g' = (swap_ok g' \<and> (\<forall>e. customer g e \<longrightarrow> customer g' e) \<and>
     (\<forall>t. plain_token g t \<longrightarrow> plain_token g' t) \<and> wiring g' = wiring g \<and> grows g g')"

definition stays :: "GameBoard \<Rightarrow> GameBoard \<Rightarrow> bool" where
  "stays g g' = (keeps g g' \<and> nfts g' = nfts g \<and> callbacks g' = callbacks g \<and> clock g' = clock g)"

lemma keeps_refl: "swap_ok g \<Longrightarrow> keeps g g"
  by (simp add: keeps_def)

lemma keeps_trans: "keeps g g' \<Longrightarrow> keeps g' g'' \<Longrightarrow> keeps g g''"
  using grows_trans [of g g' g''] by (simp add: keeps_def)

lemma stays_refl: "swap_ok g \<Longrightarrow> stays g g"
  by (simp add: stays_def keeps_refl)

lemma stays_trans: "stays g g' \<Longrightarrow> stays g' g'' \<Longrightarrow> stays g g''"
  unfolding stays_def by (auto intro: keeps_trans)

lemma cb_ok_keeps: "keeps g g' \<Longrightarrow> cb_ok g cb \<Longrightarrow> cb_ok g' cb"
  by (cases cb) (auto simp: keeps_def)

lemma wired_ok_keeps: "keeps g g' \<Longrightarrow> wired_ok g \<Longrightarrow> wired_ok g'"
  using reg_rest_hashboards [of "tokens g'" "tokens g"] unfolding keeps_def wired_ok_def wiring_def by auto

lemma board_ok_keeps:
  "board_ok g \<Longrightarrow> keeps g g' \<Longrightarrow> nfts_ok g' \<Longrightarrow> callbacks_ok g' \<Longrightarrow> board_ok g'"
  using wired_ok_keeps by (auto simp: board_ok_def keeps_def)

lemma callbacks_ok_keeps:
  "callbacks_ok g \<Longrightarrow> keeps g g' \<Longrightarrow> set (callbacks g') \<subseteq> set (callbacks g) \<Longrightarrow> callbacks_ok g'"
  unfolding callbacks_ok_def using cb_ok_keeps by blast

lemma nfts_ok_keeps:
  "nfts_ok g \<Longrightarrow> keeps g g' \<Longrightarrow>
    (\<And>i. nft_index (nfts g') i \<noteq> None \<Longrightarrow> nft_index (nfts g) i \<noteq> None) \<Longrightarrow> nfts_ok g'"
  by (simp add: nfts_ok_def keeps_def)

lemma board_ok_stays: "board_ok g \<Longrightarrow> stays g g' \<Longrightarrow> board_ok g'"
  unfolding stays_def
  using board_ok_keeps [of g g'] nfts_ok_keeps [of g g'] callbacks_ok_keeps [of g g']
  by (simp add: board_ok_def)

text \<open>Operations of the market maker, transfers and mints.\<close>

lemma but_swapD:
  assumes "but_swap g' = but_swap g"
  shows "wiring g' = wiring g" and "nfts g' = nfts g" and "callbacks g' = callbacks g"
    and "elapsed_time g' = elapsed_time g" and "ticks g' = ticks g"
    and "player_move_sequence g' = player_move_sequence g"
    and "chat_log g' = chat_log g" and "event_log g' = event_log g"
  using arg_cong [OF assms, of wiring] arg_cong [OF assms, of nfts] arg_cong [OF assms, of callbacks]
    arg_cong [OF assms, of elapsed_time] arg_cong [OF assms, of ticks]
    arg_cong [OF assms, of player_move_sequence] arg_cong [OF assms, of chat_log] arg_cong [OF assms, of event_log]
  by (simp_all add: but_swap_def wiring_def)

lemma stays_traded:
  assumes "traded g g'" and "swap_ok g'"
  shows "stays g g'"
  using assms(2) tradedD [OF assms(1)] but_swapD [of g' g] by (auto simp: stays_def keeps_def clock_def grows_def)

lemma stays_transfer:
  assumes "swap_ok g" and "customer g a" and "transfer_tokens g p a b n = Some (r, g')"
  shows "stays g g'"
  using assms traded_rebooked transfer_tokens_books(1) [OF swap_okD(1)] transfer_tokens_ok
  by (blast intro: stays_traded)

lemma stays_mint:
  assumes ok: "swap_ok g" and p: "plain_token g p" and e: "mint_tokens g p a n = Some g'"
  shows "stays g g'"
proof -
  note m = mint_tokens_books [OF swap_okD(1) [OF ok] e]
  note fr = but_tokensD [OF m(3)]
  have bs: "but_swap g' = but_swap g"
    using m(3) but_swap_but_tokens [of g] but_swap_but_tokens [of g'] by simp
  have "market_ok g' q x" if "bt_get (swap g') q = Some x" for q x
    using swap_okD(3) [OF ok, of q x] that m fr p by (auto simp: market_ok_def plain_token_def)
  moreover have "ledger_ok g'" using swap_okD(2) [OF ok] m fr by (simp add: ledger_ok_def)
  ultimately have "swap_ok g'"
    using ok fr by (simp add: swap_ok_def markets_ok_def)
  moreover have "customer g' e = customer g e" for e using fr by (simp add: customer_def is_market_def)
  moreover have "plain_token g' t = plain_token g t" for t using fr m by (simp add: plain_token_def)
  moreover have "grows g g'" using m but_swapD(2) [OF bs] by (simp add: grows_def)
  ultimately show ?thesis using but_swapD [OF bs] by (simp add: stays_def keeps_def clock_def)
qed

lemma stays_ensure: "swap_ok g \<Longrightarrow> ensure g p = Some (m, g') \<Longrightarrow> stays g g'"
  using ensure_books by (blast intro: stays_traded)

lemma stays_deposit: "swap_ok g \<Longrightarrow> customer g f \<Longrightarrow> deposit g p a b f = Some g' \<Longrightarrow> stays g g'"
  using deposit_ok by (blast intro: stays_traded)

lemma sell_trade_steps:
  assumes "swap_ok g" "customer g s" "do_sell_trade g pair a b lim sim s = Some (r, g')"
  shows "stays g g'" and "supply_of g' = supply_of g"
proof -
  obtain x y n where "sell_side pair a b = (x, y, n)" by (cases "sell_side pair a b")
  from sell_trade_effect(1) [OF assms this] show "stays g g'" and "supply_of g' = supply_of g"
    using tradedD(2) by (auto intro: stays_traded)
qed

lemma buy_trade_steps:
  assumes "swap_ok g" "customer g s" "do_buy_trade g pair a b lim sim s = Some (r, g')"
  shows "stays g g'" and "supply_of g' = supply_of g"
proof -
  obtain x y n where "sell_side pair a b = (x, y, n)" by (cases "sell_side pair a b")
  from buy_trade_effect(1) [OF assms this] show "stays g g'" and "supply_of g' = supply_of g"
    using tradedD(2) by (auto intro: stays_traded)
qed

lemma transfer_supply:
  "tokens_ok g \<Longrightarrow> transfer_tokens g p a b n = Some (r, g') \<Longrightarrow> supply_of g' = supply_of g"
  using transfer_tokens_books(1) rebookedD(3) by blast

text \<open>A change of the rest of the board keeps the books.\<close>

lemma same_books:
  assumes "tokens g' = tokens g" and "swap g' = swap g" and "alloc_ids g' = alloc_ids g"
  shows "swap_ok g' = swap_ok g" and "customer g' e = customer g e" and "plain_token g' t = plain_token g t"
proof -
  show c: "customer g' e = customer g e" using assms by (simp add: customer_def is_market_def)
  show "plain_token g' t = plain_token g t" using assms by (simp add: plain_token_def)
  have "market_ok g' = market_ok g" using assms by (simp add: fun_eq_iff market_ok_def)
  then show "swap_ok g' = swap_ok g" using assms by (simp add: swap_ok_def ledger_ok_def markets_ok_def)
qed

lemma keeps_same_books:
  "swap_ok g \<Longrightarrow> tokens g' = tokens g \<Longrightarrow> swap g' = swap g \<Longrightarrow> alloc_ids g' = alloc_ids g \<Longrightarrow>
    wiring g' = wiring g \<Longrightarrow> (\<And>i. nft_index (nfts g) i \<noteq> None \<Longrightarrow> nft_index (nfts g') i \<noteq> None) \<Longrightarrow> keeps g g'"
  unfolding keeps_def grows_def using same_books [of g' g] by simp

text \<open>A fresh id is a customer.\<close>

lemma alloc_keeps:
  assumes ok: "swap_ok g" and e: "alloc g = Some (i, g')"
  shows "keeps g g'" and "customer g' i" and "stays g g'" and "supply_of g' = supply_of g"
    and "holding g' = holding g" and "has_token g' = has_token g"
proof -
  from e have i: "eid i = last_id (alloc_ids g) + 1" and g': "g' = g\<lparr>alloc_ids := EntityIDAllocator (eid i)\<rparr>"
    by (auto simp: alloc_Some)
  have "market_ok g' p m" if "bt_get (swap g') p = Some m" for p m
    using swap_okD(3) [OF ok, of p m] that i by (auto simp: g' market_ok_def)
  moreover have "ledger_ok g'" using swap_okD(2) [OF ok] i by (auto simp: ledger_ok_def g')
  ultimately have "swap_ok g'" using ok by (simp add: swap_ok_def markets_ok_def g')
  moreover have "customer g' x" if "customer g x" for x
    using that i by (auto simp: customer_def is_market_def g')
  ultimately show k: "keeps g g'"
    by (auto simp: keeps_def plain_token_def wiring_def g' grows_def)
  have "eid (mkt_id m) < eid i" if "bt_get (swap g) p = Some m" for p m
    using swap_okD(3) [OF ok that] i by (simp add: market_ok_def)
  then show "customer g' i" by (auto simp: customer_def is_market_def g')
  show "stays g g'" using k by (simp add: stays_def g' clock_def)
qed (use e in \<open>auto simp: alloc_Some\<close>)

text \<open>Registering an NFT of a customer id, and scheduling.\<close>

lemma nft_index_of_add:
  "nft_index (snd (nft_add r n)) i \<noteq> None \<Longrightarrow> i = NftPtr (nft_id n) \<or> nft_index r i \<noteq> None"
  by (auto simp: nft_index_add split: if_splits)

lemma set_schedule:
  "e \<in> set (schedule cbs cb) \<Longrightarrow> e \<in> set cbs \<or> (\<exists>l. e = (cb_time cb, l) \<and>
    (\<forall>x \<in> set l. x = cb \<or> (\<exists>y \<in> set cbs. x \<in> set (snd y))))"
proof -
  assume "e \<in> set (schedule cbs cb)"
  then consider "e \<in> set cbs" | "e = (cb_time cb, bt_or [] cbs (cb_time cb) @ [cb])"
    using set_bt_put unfolding schedule_def by fastforce
  then show ?thesis
  proof cases
    case 2
    moreover have "\<exists>y \<in> set cbs. x \<in> set (snd y)" if "x \<in> set (bt_or [] cbs (cb_time cb))" for x
    proof (cases "bt_get cbs (cb_time cb)")
      case None
      with that show ?thesis by (simp add: bt_or_def)
    next
      case (Some l)
      with that have "x \<in> set (snd (cb_time cb, l))" by (simp add: bt_or_def)
      with bt_get_SomeD [OF Some] show ?thesis by blast
    qed
    ultimately show ?thesis by auto
  qed simp
qed

lemma schedule_ok:
  assumes "callbacks_ok g" and "cb_ok g cb"
  shows "callbacks_ok (schedule_cb g cb)"
proof -
  have c: "cb_ok (schedule_cb g cb) = cb_ok g"
  proof
    fix x
    show "cb_ok (schedule_cb g cb) x = cb_ok g x"
      using same_books [of "schedule_cb g cb" g] by (cases x) (simp_all add: schedule_cb_def)
  qed
  show ?thesis
    unfolding callbacks_ok_def c
  proof (intro ballI)
    fix e x
    assume "e \<in> set (callbacks (schedule_cb g cb))" and "x \<in> set (snd e)"
    with set_schedule [of e "callbacks g" cb] assms show "cb_ok g x"
      unfolding callbacks_ok_def by (auto simp: schedule_cb_def)
  qed
qed

lemma schedule_step:
  assumes "board_ok g" and "cb_ok g cb"
  shows "board_ok (schedule_cb g cb)" and "keeps g (schedule_cb g cb)"
    and "supply_of (schedule_cb g cb) = supply_of g" and "holding (schedule_cb g cb) = holding g"
    and "clock (schedule_cb g cb) = clock g"
proof -
  show k: "keeps g (schedule_cb g cb)"
    using assms by (intro keeps_same_books) (simp_all add: board_ok_def schedule_cb_def wiring_def)
  show "board_ok (schedule_cb g cb)"
    using assms schedule_ok [of g cb]
    by (intro board_ok_keeps [OF assms(1) k] nfts_ok_keeps [OF _ k]) (simp_all add: board_ok_def schedule_cb_def)
qed (simp_all add: schedule_cb_def clock_def)

lemma nfts_step:
  assumes ok: "board_ok g" and e: "customer g e"
    and r: "\<And>i. nft_index r i \<noteq> None \<Longrightarrow> i = NftPtr e \<or> nft_index (nfts g) i \<noteq> None"
    and r': "\<And>i. nft_index (nfts g) i \<noteq> None \<Longrightarrow> nft_index r i \<noteq> None"
  shows "board_ok (g\<lparr>nfts := r\<rparr>)" and "keeps g (g\<lparr>nfts := r\<rparr>)"
proof -
  show k: "keeps g (g\<lparr>nfts := r\<rparr>)"
    using ok r' by (intro keeps_same_books) (simp_all add: board_ok_def wiring_def)
  have "nfts_ok (g\<lparr>nfts := r\<rparr>)"
    using ok r e k unfolding nfts_ok_def board_ok_def keeps_def by fastforce
  moreover have "callbacks_ok (g\<lparr>nfts := r\<rparr>)"
    using ok by (intro callbacks_ok_keeps [OF _ k]) (simp_all add: board_ok_def)
  ultimately show "board_ok (g\<lparr>nfts := r\<rparr>)" by (rule board_ok_keeps [OF ok k])
qed

section \<open>Operations that conserve every supply\<close>

definition conserves :: "GameBoard \<Rightarrow> GameBoard \<Rightarrow> bool" where
  "conserves g g' = (board_ok g' \<and> keeps g g' \<and> supply_of g' = supply_of g \<and> clock g' = clock g)"

lemma conserves_refl: "board_ok g \<Longrightarrow> conserves g g"
  by (simp add: conserves_def keeps_refl board_ok_def)

lemma conserves_trans: "conserves g g' \<Longrightarrow> conserves g' g'' \<Longrightarrow> conserves g g''"
  unfolding conserves_def using keeps_trans by metis

lemma conservesD:
  assumes "conserves g g'"
  shows "board_ok g'" and "customer g e \<Longrightarrow> customer g' e" and "plain_token g t \<Longrightarrow> plain_token g' t"
    and "wiring g' = wiring g" and "supply_of g' = supply_of g" and "swap_ok g'" and "clock g' = clock g"
  using assms by (simp_all add: conserves_def keeps_def board_ok_def)

lemma conserves_stays:
  "board_ok g \<Longrightarrow> stays g g' \<Longrightarrow> supply_of g' = supply_of g \<Longrightarrow> conserves g g'"
  using board_ok_stays by (simp add: conserves_def stays_def)

lemma conserves_transfer:
  assumes "board_ok g" and "customer g a" and "transfer_tokens g p a b n = Some (r, g')"
  shows "conserves g g'"
  using assms stays_transfer transfer_supply
  by (intro conserves_stays) (auto simp: board_ok_def swap_okD(1))

lemma conserves_alloc:
  "board_ok g \<Longrightarrow> alloc g = Some (i, g') \<Longrightarrow> conserves g g' \<and> customer g' i"
  using alloc_keeps by (auto simp: board_ok_def intro: conserves_stays)

lemma conserves_add_nft:
  assumes ok: "board_ok g" and e: "customer g (nft_id n)" and r: "nft_add (nfts g) n = (p, r)"
    and r': "nft_map r' = nft_map r"
  shows "conserves g (g\<lparr>nfts := r'\<rparr>)" and "p = NftPtr (nft_id n)"
proof -
  have "r = snd (nft_add (nfts g) n)" using r by simp
  then have idx: "nft_index r' i \<noteq> None \<Longrightarrow> i = NftPtr (nft_id n) \<or> nft_index (nfts g) i \<noteq> None" for i
    using nft_index_of_add [of "nfts g" n i] r' by (simp add: nft_index_def)
  have old: "nft_index (nfts g) i \<noteq> None \<Longrightarrow> nft_index r' i \<noteq> None" for i
    using nft_index_add [of "nfts g" n i] \<open>r = _\<close> r' by (auto simp: nft_index_def split: if_splits)
  show "conserves g (g\<lparr>nfts := r'\<rparr>)"
    using nfts_step [OF ok e, of r'] idx old by (simp add: conserves_def clock_def)
  show "p = NftPtr (nft_id n)" using r by (auto simp: nft_add_def Let_def)
qed

lemma lockup_conserves:
  assumes ok: "board_ok g" and c: "customer g sender" and e: "lockup g sender own asset n t = Some g'"
  shows "conserves g g'"
proof -
  from e obtain i g1 where a: "alloc g = Some (i, g1)" by (cases "alloc g") (auto simp: lockup_def)
  note s1 = conserves_alloc [OF ok a]
  let ?n = "\<lparr>owner = own, nft_id = i, transfer_count = u128_max\<rparr>"
  obtain p r where nr: "nft_add (nfts g1) ?n = (p, r)" by fastforce
  let ?cb = "CoinLockupCb \<lparr>lock_id = p, time_when_free = t, lock_asset = asset\<rparr>"
  from e a nr obtain b where x: "transfer_tokens (schedule_cb (g1\<lparr>nfts := r\<rparr>) ?cb) asset sender (nft_inner p) n = Some (b, g')"
    by (auto simp: lockup_def bind_SomeD)
  have "conserves g1 (g1\<lparr>nfts := r\<rparr>)" and p: "p = NftPtr i"
    using conserves_add_nft [OF conservesD(1) _ nr refl] s1 by (auto simp: )
  then have s2: "conserves g (g1\<lparr>nfts := r\<rparr>)" using s1 conserves_trans by blast
  have "cb_ok (g1\<lparr>nfts := r\<rparr>) ?cb"
    using s1 conservesD(2) [OF \<open>conserves g1 (g1\<lparr>nfts := r\<rparr>)\<close>] by (simp add: p)
  from schedule_step [OF conservesD(1) [OF s2] this]
  have s3: "conserves g (schedule_cb (g1\<lparr>nfts := r\<rparr>) ?cb)"
    using s2 keeps_trans by (auto simp: conserves_def)
  with conserves_transfer [OF conservesD(1) [OF s3] conservesD(2) [OF s3 c] x] conserves_trans
  show ?thesis by blast
qed

lemma ship_hashrate_conserves:
  assumes "board_ok g" and "ship_hashrate plant m n t g = Some g'"
  shows "conserves g g'"
  using assms lockup_conserves [of g "nft_inner (plant_id plant)"]
  by (auto simp: ship_hashrate_def bind_SomeD board_ok_def nfts_ok_def)

lemma lockup_action_conserves:
  assumes "board_ok g" and "lockup_action l g = Some g'"
  shows "conserves g g'"
proof -
  from assms(2) obtain n where n: "nft_index (nfts g) (lock_id l) = Some n"
    and r: "g' = g \<or> (\<exists>r b. transfer_tokens g (lock_asset l) (nft_inner (lock_id l)) (owner n) b = Some (r, g'))"
    by (auto simp: lockup_action_def bind_SomeD split: if_splits)
  have "customer g (nft_inner (lock_id l))" using assms(1) n by (simp add: board_ok_def nfts_ok_def)
  with r assms(1) show ?thesis using conserves_refl conserves_transfer by blast
qed

lemma pay_bill_conserves:
  "board_ok g \<Longrightarrow> customer g e \<Longrightarrow> pay_bill e t bill g = Some g' \<Longrightarrow> conserves g g'"
proof (induction e t bill g rule: pay_bill.induct)
  case (1 e t g)
  then show ?case by (simp add: conserves_refl)
next
  case (2 e t cur pr rest g)
  from 2(4) obtain r g1 where x: "transfer_tokens g cur e t pr = Some (r, g1)" and y: "pay_bill e t rest g1 = Some g'"
    by (auto simp: bind_SomeD)
  note s = conserves_transfer [OF 2(2,3) x]
  from 2(1) [OF x refl conservesD(1) [OF s] conservesD(2) [OF s 2(3)] y] show ?case
    using s conserves_trans by blast
qed

lemma mint_power_plant_conserves:
  assumes ok: "board_ok g" and c: "customer g own" and e: "mint_power_plant g scale loc ty own = Some (r, g')"
  shows "conserves g g'"
proof -
  from e obtain res cb where res: "raw_materials_bill ty g scale = Some res" and cb: "check_bill g own res = Some cb"
    by (cases "raw_materials_bill ty g scale") (auto simp: mint_power_plant_def bind_SomeD)
  show ?thesis
  proof (cases cb)
    case (Inl er)
    with e res cb ok show ?thesis by (simp add: mint_power_plant_def conserves_refl)
  next
    case (Inr u)
    with e res cb obtain i g1 where a: "alloc g = Some (i, g1)"
      by (cases "alloc g") (auto simp: mint_power_plant_def)
    note s1 = conserves_alloc [OF ok a]
    let ?n = "\<lparr>owner = own, nft_id = i, transfer_count = 0\<rparr>"
    obtain p ns where nr: "nft_add (nfts g1) ?n = (p, ns)" by fastforce
    from e res cb Inr a nr obtain plant where
      x: "pay_bill own (nft_inner p) res (g1\<lparr>nfts := ns\<lparr>power_plants := bt_put p plant (power_plants ns)\<rparr>\<rparr>) = Some g'"
      by (auto simp: mint_power_plant_def bind_SomeD)
    have "conserves g1 (g1\<lparr>nfts := ns\<lparr>power_plants := bt_put p plant (power_plants ns)\<rparr>\<rparr>)"
      by (rule conserves_add_nft(1) [OF conservesD(1) _ nr]) (use s1 in auto)
    with s1 have s2: "conserves g (g1\<lparr>nfts := ns\<lparr>power_plants := bt_put p plant (power_plants ns)\<rparr>\<rparr>)"
      using conserves_trans by blast
    from pay_bill_conserves [OF conservesD(1) [OF s2] conservesD(2) [OF s2 c] x] s2 show ?thesis
      using conserves_trans by blast
  qed
qed

lemma conserves_buy:
  "board_ok g \<Longrightarrow> customer g s \<Longrightarrow> do_buy_trade g pair a b lim sim s = Some (r, g') \<Longrightarrow> conserves g g'"
  using buy_trade_steps by (auto simp: board_ok_def intro!: conserves_stays)

lemma conserves_sell:
  "board_ok g \<Longrightarrow> customer g s \<Longrightarrow> do_sell_trade g pair a b lim sim s = Some (r, g') \<Longrightarrow> conserves g g'"
  using sell_trade_steps by (auto simp: board_ok_def intro!: conserves_stays)

lemma estimate_bill_conserves:
  "board_ok g \<Longrightarrow> customer g e \<Longrightarrow> estimate_bill btc e bill g = Some (r, g') \<Longrightarrow> conserves g g'"
proof (induction bill arbitrary: g r)
  case Nil
  then show ?case by (simp add: conserves_refl)
next
  case (Cons x rest)
  obtain m q where x: "x = (m, q)" by fastforce
  from Cons.prems(3) obtain r1 g1 where b: "do_buy_trade g (TradingPairID m btc) q 0 None True e = Some (r1, g1)"
    and y: "g' = g1 \<or> (\<exists>r2. estimate_bill btc e rest g1 = Some (r2, g'))"
  proof (cases "do_buy_trade g (TradingPairID m btc) q 0 None True e")
    case (Some p)
    obtain r1 g1 where p: "p = (r1, g1)" by fastforce
    from Cons.prems(3) Some p that show thesis
      by (cases r1) (auto simp: x bind_SomeD Let_def)
  qed (use Cons.prems(3) in \<open>auto simp: x bind_SomeD Let_def\<close>)
  note s = conserves_buy [OF Cons.prems(1,2) b]
  from y show ?case
    using s Cons.IH [OF conservesD(1) [OF s] conservesD(2) [OF s Cons.prems(2)]] conserves_trans by blast
qed

lemma buy_bill_conserves:
  "board_ok g \<Longrightarrow> customer g e \<Longrightarrow> buy_bill btc e bill g = Some g' \<Longrightarrow> conserves g g'"
proof (induction bill arbitrary: g)
  case Nil
  then show ?case by (simp add: conserves_refl)
next
  case (Cons x rest)
  obtain m q where x: "x = (m, q)" by fastforce
  from Cons.prems(3) obtain r1 g1 where b: "do_buy_trade g (TradingPairID m btc) q 0 None False e = Some (r1, g1)"
    and y: "buy_bill btc e rest g1 = Some g'"
  proof (cases "do_buy_trade g (TradingPairID m btc) q 0 None False e")
    case (Some p)
    obtain r1 g1 where p: "p = (r1, g1)" by fastforce
    from Cons.prems(3) Some p that show thesis by (cases r1) (auto simp: x)
  qed (use Cons.prems(3) in \<open>auto simp: x\<close>)
  note s = conserves_buy [OF Cons.prems(1,2) b]
  from Cons.IH [OF conservesD(1) [OF s] conservesD(2) [OF s Cons.prems(2)] y] s show ?case
    using conserves_trans by blast
qed

lemma super_mint_conserves:
  assumes ok: "board_ok g" and c: "customer g own" and e: "super_mint g scale loc ty own = Some (r, g')"
  shows "conserves g g'"
proof -
  from e obtain est g1 where es: "estimate_materials_cost g scale ty own = Some (est, g1)"
    by (cases "estimate_materials_cost g scale ty own") (auto simp: super_mint_def)
  then have s1: "conserves g g1"
    using estimate_bill_conserves [OF ok c] by (auto simp: estimate_materials_cost_def bind_SomeD)
  from e es consider "g' = g1"
    | res g2 where "buy_bill (bitcoin_token_id g1) own res g1 = Some g2" "mint_power_plant g2 scale loc ty own = Some (r, g')"
    by (auto simp: super_mint_def bind_SomeD split: sum.splits if_splits)
  then show ?thesis
  proof cases
    case 1
    with s1 show ?thesis by simp
  next
    case 2
    note c1 = conservesD(2) [OF s1 c]
    note s2 = buy_bill_conserves [OF conservesD(1) [OF s1] c1 2(1)]
    note s3 = mint_power_plant_conserves [OF conservesD(1) [OF s2] conservesD(2) [OF s2 c1] 2(2)]
    from s1 s2 s3 show ?thesis using conserves_trans by blast
  qed
qed

section \<open>Moves\<close>

lemma purchase_move_conserves:
  assumes ok: "board_ok g" and c: "customer g s" and e: "purchase_move i lim cur s g = Some g'"
  shows "conserves g g'"
proof -
  from e obtain sales toks ns where p: "purchase (nft_sales g) s i (tokens g) (nfts g) lim cur = Some (sales, toks, ns)"
    and g': "g' = g\<lparr>nft_sales := sales, tokens := toks, nfts := ns\<rparr>"
    by (auto simp: purchase_move_def bind_SomeD)
  have tok: "reg_ok (tokens g)" using ok by (simp add: board_ok_def swap_okD)
  from tok p show ?thesis
  proof (cases rule: purchase_cases)
    case unchanged
    then have "g' = g\<lparr>nft_sales := nft_sales g\<rparr>" by (simp add: g')
    with ok show ?thesis by (simp add: conserves_refl)
  next
    case (bought sl n n')
    let ?h = "g\<lparr>tokens := toks\<rparr>"
    have st: "rebooked g ?h" using bought by (simp add: rebooked_def but_tokens_update)
    have "swap_ok ?h"
    proof (rule swap_ok_rebooked [OF _ st])
      show "swap_ok g" using ok by (simp add: board_ok_def)
      fix p m q
      assume "bt_get (swap g) p = Some m"
      then have "mkt_id m \<noteq> s" using c by (auto simp: customer_def is_market_def)
      then show "holding g q (mkt_id m) \<le> holding ?h q (mkt_id m)"
        using bought by (simp add: moved_def)
    qed
    with ok st have s1: "conserves g ?h"
      using stays_traded [OF traded_rebooked [OF st]] rebookedD(3) [OF st] by (intro conserves_stays)
    have "customer g (nft_inner i)" using ok bought by (simp add: board_ok_def nfts_ok_def)
    from nfts_step [OF conservesD(1) [OF s1] conservesD(2) [OF s1 this], of ns]
    have s2: "conserves ?h (?h\<lparr>nfts := ns\<rparr>)"
      using bought by (auto simp: conserves_def clock_def nft_index_def split: if_splits)
    let ?k = "?h\<lparr>nfts := ns\<rparr>"
    have k3: "keeps ?k g'"
      using conservesD(6) [OF s2] by (intro keeps_same_books) (simp_all add: g' wiring_def)
    have "board_ok g'"
      using conservesD(1) [OF s2] nfts_ok_keeps [OF _ k3] callbacks_ok_keeps [OF _ k3]
      by (intro board_ok_keeps [OF _ k3]) (simp_all add: board_ok_def g')
    with k3 have s3: "conserves ?k g'" by (simp add: conserves_def clock_def g')
    from s1 s2 s3 show ?thesis using conserves_trans by blast
  qed
qed

text \<open>Changes of the rest of the board.\<close>

lemma conserves_rest:
  assumes ok: "board_ok g" and "tokens g' = tokens g" "swap g' = swap g" "alloc_ids g' = alloc_ids g"
    and "wiring g' = wiring g" "nfts g' = nfts g" "callbacks g' = callbacks g" "clock g' = clock g"
  shows "conserves g g'"
proof -
  have k: "keeps g g'" using assms by (intro keeps_same_books) (simp_all add: board_ok_def)
  with assms have "stays g g'" by (simp add: stays_def)
  with ok show ?thesis using assms(2) by (intro conserves_stays) simp_all
qed

lemma trade_result_Some:
  "(trade_result m = Some (r, g')) \<Longrightarrow> \<exists>q. m = Some (q, g')"
  by (auto simp: trade_result_def bind_SomeD)

lemma play_inner_conserves:
  assumes ok: "board_ok g" and c: "customer g s" and e: "play_inner mv s g = Some (r, g')"
  shows "conserves g g'"
proof (cases mv)
  case Heartbeat
  with e ok show ?thesis by (simp add: conserves_refl)
next
  case (Trade pair a b sell cap)
  with e show ?thesis
    using conserves_sell [OF ok c] conserves_buy [OF ok c]
    by (auto simp: trade_move_def dest!: trade_result_Some split: if_splits)
next
  case (PurchaseNFT i lim cur)
  with e show ?thesis using purchase_move_conserves [OF ok c] by (auto simp: accepted_def bind_SomeD)
next
  case (ListNFTForSale i pr cur)
  with e obtain sales where "g' = g\<lparr>nft_sales := sales\<rparr>" by (auto simp: accepted_def list_move_def bind_SomeD)
  with ok show ?thesis by (intro conserves_rest) (simp_all add: wiring_def clock_def)
next
  case (SendTokens t n cur)
  with e show ?thesis using conserves_transfer [OF ok c] by (auto simp: accepted_def send_move_def bind_SomeD)
next
  case (RemoveTokens i n cur)
  with e ok show ?thesis
    using ship_hashrate_conserves [OF ok] conserves_refl
    by (auto simp: accepted_def remove_move_def bind_SomeD Let_def split: if_splits)
next
  case (Chat m)
  with e have "tokens g' = tokens g \<and> swap g' = swap g \<and> alloc_ids g' = alloc_ids g \<and> wiring g' = wiring g \<and>
      nfts g' = nfts g \<and> callbacks g' = callbacks g \<and> clock g' = clock g"
    by (auto simp: accepted_def chat_move_def bind_SomeD Let_def wiring_def clock_def split: if_splits)
  with ok show ?thesis by (intro conserves_rest) simp_all
next
  case (MintPowerPlant scale loc ty)
  with e show ?thesis using mint_power_plant_conserves [OF ok c, of scale loc ty] by (auto dest!: trade_result_Some)
next
  case (SuperMintPowerPlant scale loc ty)
  with e show ?thesis using super_mint_conserves [OF ok c, of scale loc ty] by (auto dest!: trade_result_Some)
qed

section \<open>A move on the example board\<close>

lemma example_board_ok: "board_ok example_board"
proof -
  have c: "customer example_board (EntityID n) = (n \<le> 120 \<and> n \<noteq> 108)" for n
    by (auto simp: customer_def is_market_def bt_get_def example_market_def)
  have p: "plain_token example_board t = (eid (as_id t) \<in> {101..106})" for t
    by (cases t; cases "as_id t") (auto simp: plain_token_def bt_get_def example_market_def)
  have "nfts_ok example_board"
    by (auto simp: nfts_ok_def example_nft_index c split: if_splits)
  moreover have "wired_ok example_board"
    by (simp add: wired_ok_def c p) (simp add: example_tokens_def)
  ultimately show ?thesis
    using example_swap_ok by (simp add: board_ok_def callbacks_ok_def)
qed

lemma example_has: "map_of (reg_tokens example_tokens) (EntityID 101) \<noteq> None"
  by (simp add: example_tokens_def)

lemma example_play:
  assumes "n \<in> {0, 1}"
  defines "env \<equiv> \<lparr>move_d = SendTokens (EntityID 110) 10 (tok 101), move_sequence = n, time_millis = 5\<rparr>"
  shows "game_is_finished example_board = Some None"
    and "\<exists>g1. play env ''alice'' example_board = Some (Inr (), g1)"
proof -
  show fin: "game_is_finished example_board = Some None"
    by (simp add: game_is_finished_def mul_w_def fits_def)
  obtain reg where "reg_transfer example_tokens (tok 101) (EntityID 109) (EntityID 110) 10 = Some (True, reg)"
    using registry.xfer_done [of example_tokens "tok 101" 10 "EntityID 109" "EntityID 110"] example_books(1) by auto
  then show "\<exists>g1. play env ''alice'' example_board = Some (Inr (), g1)"
    using assms(1)
    by (auto simp: play_def fin bt_get_def env_def add_w_def fits_def bt_or_def play_accepted_def sanitize_send_def
        try_res_def sanitize_token_def example_has update_current_time_def bt_vals_def Let_def median_elapsed_def
        get_or_zero_def process_ticks_def run_callbacks_def due_def not_due_def add_to_event_log_def push_log_def
        accepted_def send_move_def transfer_tokens_def)
qed

end
