(* ===== verification/Reachable.thy ===== *)
theory Reachable
  imports Invariant
begin

text \<open>
  The boards a game can reach: a new board, then any sequence of moves and of queries that
  touch the board. Every callback, \<open>play\<close> and \<open>GameBoard::new\<close> keep \<open>board_ok\<close>, so every
  reachable board has it; moves themselves conserve the supply of every token.
\<close>

section \<open>Callbacks\<close>

definition advances :: "GameBoard \<Rightarrow> GameBoard \<Rightarrow> bool" where
  "advances g g' = (board_ok g' \<and> keeps g g' \<and> clock g' = clock g)"

lemma advances_refl: "board_ok g \<Longrightarrow> advances g g"
  by (simp add: advances_def keeps_refl board_ok_def)

lemma advances_trans: "advances g g' \<Longrightarrow> advances g' g'' \<Longrightarrow> advances g g''"
  unfolding advances_def using keeps_trans by metis

lemma advances_conserves: "conserves g g' \<Longrightarrow> advances g g'"
  by (simp add: conserves_def advances_def)

lemma advancesD:
  assumes "advances g g'"
  shows "board_ok g'" and "swap_ok g'" and "customer g e \<Longrightarrow> customer g' e"
    and "plain_token g t \<Longrightarrow> plain_token g' t" and "wiring g' = wiring g" and "cb_ok g cb \<Longrightarrow> cb_ok g' cb"
    and "clock g' = clock g"
  using assms cb_ok_keeps by (auto simp: advances_def keeps_def board_ok_def)

lemma advances_stays: "board_ok g \<Longrightarrow> stays g g' \<Longrightarrow> advances g g'"
  using board_ok_stays [of g g'] by (simp add: advances_def stays_def)

lemma advances_mint:
  assumes "board_ok g" and "plain_token g p" and "mint_tokens g p a n = Some g'"
  shows "advances g g'"
  using assms by (intro advances_stays [OF assms(1)] stays_mint [of g p a n]) (simp_all add: board_ok_def)

lemma mint_all_advances:
  "board_ok g \<Longrightarrow> plain_token g p \<Longrightarrow> mint_all p l g = Some g' \<Longrightarrow> advances g g'"
proof (induction p l g rule: mint_all.induct)
  case (1 p g)
  then show ?case by (simp add: advances_refl)
next
  case (2 p e n rest g)
  from 2(4) obtain g1 where m: "mint_tokens g p e n = Some g1" and r: "mint_all p rest g1 = Some g'"
    by (auto simp: bind_SomeD)
  note s = advances_mint [OF 2(2,3) m]
  from 2(1) [OF m advancesD(1) [OF s] advancesD(4) [OF s 2(3)] r] s show ?case
    using advances_trans by blast
qed

lemma wired_tokens:
  assumes "board_ok g"
  shows "plain_token g (bitcoin_token_id g)" "plain_token g (real_sats_token_id g)"
    "plain_token g (steel_token_id g)" "plain_token g (silicon_token_id g)"
    "plain_token g (concrete_token_id g)" "plain_token g (asic_token_id g)"
  using assms by (simp_all add: board_ok_def wired_ok_def)

lemma power_plant_action_advances:
  assumes ok: "board_ok g" and e: "power_plant_action ev g = Some g'"
  shows "advances g g'"
proof -
  from e obtain g1 t where p: "pay_miners g = Some g1"
    and g': "g' = schedule_cb g1 (PowerPlantEventCb (ev\<lparr>event_time := t\<rparr>))"
    by (auto simp: power_plant_action_def bind_SomeD)
  from p have s: "advances g g1"
    using mint_all_advances [OF ok wired_tokens(1) [OF ok]] advances_refl [OF ok]
    by (auto simp: pay_miners_def bind_SomeD split: if_splits)
  from schedule_step(1,2,5) [OF advancesD(1) [OF s], of "PowerPlantEventCb (ev\<lparr>event_time := t\<rparr>)"]
  have "advances g1 g'" by (simp add: advances_def g')
  with s show ?thesis by (rule advances_trans)
qed

definition producer_ok :: "GameBoard \<Rightarrow> Producer \<Rightarrow> bool" where
  "producer_ok g p = (customer g (prod_id p) \<and> plain_token g (hash_asset p) \<and> plain_token g (price_asset p))"

lemma producer_ok_advances: "advances g g' \<Longrightarrow> producer_ok g p \<Longrightarrow> producer_ok g' p"
  using advancesD by (auto simp: producer_ok_def)

lemma first_round_advances:
  assumes ok: "board_ok g" and p: "producer_ok g p" and e: "first_round p g = Some (p', g')"
  shows "advances g g'" and "prod_id p' = prod_id p" "hash_asset p' = hash_asset p" "price_asset p' = price_asset p"
proof -
  from e obtain base g1 g2 where
    m1: "mint_tokens g (hash_asset p) (prod_id p) (total_units p) = Some g1"
    and m2: "mint_tokens g1 (price_asset p) (prod_id p) base = Some g2"
    and d: "deposit g2 (TradingPairID (hash_asset p) (price_asset p)) (total_units p div 10) base (prod_id p) = Some g'"
    and p': "p' = p\<lparr>first := False, total_units := total_units p'\<rparr>"
    by (auto simp: first_round_def Let_def bind_SomeD)
  have s1: "advances g g1" using advances_mint [OF ok _ m1] p by (simp add: producer_ok_def)
  note p1 = producer_ok_advances [OF s1 p]
  have s2: "advances g1 g2" using advances_mint [OF advancesD(1) [OF s1] _ m2] p1 by (simp add: producer_ok_def)
  note p2 = producer_ok_advances [OF s2 p1]
  have "stays g2 g'" using stays_deposit [OF advancesD(2) [OF s2] _ d] p2 by (simp add: producer_ok_def)
  with advances_stays [OF advancesD(1) [OF s2]] have s3: "advances g2 g'" by blast
  show "advances g g'" by (rule advances_trans [OF advances_trans [OF s1 s2] s3])
  show "prod_id p' = prod_id p" "hash_asset p' = hash_asset p" "price_asset p' = price_asset p"
    by (subst p', simp)+
qed

lemma producer_action_advances:
  assumes ok: "board_ok g" and p: "producer_ok g p" and e: "producer_action wrap p g = Some g'"
    and w: "\<And>h q. producer_ok h q \<Longrightarrow> cb_ok h (wrap q)"
  shows "advances g g'"
proof -
  define start where "start = (if first p then first_round p g else Some (p, g))"
  note e = e [unfolded producer_action_def, folded start_def]
  from e obtain z where "start = Some z" by (cases start) simp_all
  then obtain q g1 where q: "start = Some (q, g1)" by (cases z) simp
  have "advances g g1 \<and> producer_ok g q"
  proof (cases "first p")
    case True
    with q have "first_round p g = Some (q, g1)" by (simp add: start_def)
    from first_round_advances [OF ok p this] p show ?thesis by (simp add: producer_ok_def)
  next
    case False
    with q p advances_refl [OF ok] show ?thesis by (simp add: start_def)
  qed
  then have s1: "advances g g1" and pq: "producer_ok g q" by auto
  note p1 = producer_ok_advances [OF s1 pq]
  from e q obtain b r g2 t where
    tr: "do_sell_trade g1 (TradingPairID (hash_asset q) (price_asset q)) (min (b div 100) b) 0 None False (prod_id q) = Some (r, g2)"
    and g': "g' = g2 \<or> g' = schedule_cb g2 (wrap (q\<lparr>prod_elapsed_time := t\<rparr>))"
    by (auto simp: bind_SomeD split: if_splits)
  have s2: "advances g1 g2"
    using conserves_sell [OF advancesD(1) [OF s1] _ tr] p1 by (simp add: producer_ok_def advances_conserves)
  have "producer_ok g2 (q\<lparr>prod_elapsed_time := t\<rparr>)"
    using producer_ok_advances [OF s2 p1] by (simp add: producer_ok_def)
  from schedule_step(1,2,5) [OF advancesD(1) [OF s2] w [OF this]]
  have "advances g2 (schedule_cb g2 (wrap (q\<lparr>prod_elapsed_time := t\<rparr>)))" by (simp add: advances_def)
  with g' advances_refl [OF advancesD(1) [OF s2]] have s3: "advances g2 g'" by blast
  show ?thesis by (rule advances_trans [OF advances_trans [OF s1 s2] s3])
qed

lemma cb_action_advances:
  assumes ok: "board_ok g" and c: "cb_ok g cb" and e: "cb_action cb g = Some g'"
  shows "advances g g'"
proof (cases cb)
  case (PowerPlantEventCb ev)
  with e show ?thesis using power_plant_action_advances [OF ok] by simp
next
  case (CoinLockupCb l)
  with e show ?thesis using lockup_action_conserves [OF ok] advances_conserves by auto
next
  case (ASICProducer p)
  then have "producer_ok g p" using c by (simp add: producer_ok_def)
  from producer_action_advances [OF ok this, of ASICProducer] ASICProducer e show ?thesis
    by (simp add: asic_action_def producer_ok_def)
next
  case (SteelSmelter p)
  then have "producer_ok g p" using c by (simp add: producer_ok_def)
  from producer_action_advances [OF ok this, of SteelSmelter] SteelSmelter e show ?thesis
    by (simp add: steel_action_def producer_ok_def)
next
  case (SiliconRefinery p)
  then have "producer_ok g p" using c by (simp add: producer_ok_def)
  from producer_action_advances [OF ok this, of SiliconRefinery] SiliconRefinery e show ?thesis
    by (simp add: silicon_action_def producer_ok_def)
next
  case (ConcreteMiller p)
  then have "producer_ok g p" using c by (simp add: producer_ok_def)
  from producer_action_advances [OF ok this, of ConcreteMiller] ConcreteMiller e show ?thesis
    by (simp add: concrete_action_def producer_ok_def)
qed

lemma run_callbacks_advances:
  assumes ok: "board_ok g" and e: "run_callbacks g = Some g'"
  shows "advances g g'"
proof -
  from e obtain t where f: "fold_opt cb_action (due t (callbacks g)) (g\<lparr>callbacks := not_due t (callbacks g)\<rparr>) = Some g'"
    by (auto simp: run_callbacks_def bind_SomeD)
  let ?h = "g\<lparr>callbacks := not_due t (callbacks g)\<rparr>"
  have k: "keeps g ?h" using ok by (intro keeps_same_books) (simp_all add: board_ok_def wiring_def)
  have "nfts_ok ?h" using ok by (intro nfts_ok_keeps [OF _ k]) (simp_all add: board_ok_def)
  moreover have "callbacks_ok ?h"
    using ok by (intro callbacks_ok_keeps [OF _ k]) (auto simp: board_ok_def not_due_def)
  ultimately have s: "advances g ?h" using board_ok_keeps [OF ok k] k by (simp add: advances_def clock_def)
  have d: "cb_ok g cb" if "cb \<in> set (due t (callbacks g))" for cb
    using that ok by (auto simp: due_def board_ok_def callbacks_ok_def)
  from f s show ?thesis
  proof (rule fold_opt_invariant [where P = "advances g"])
    fix cb x x'
    assume c: "cb \<in> set (due t (callbacks g))" and x: "advances g x" and a: "cb_action cb x = Some x'"
    from cb_action_advances [OF advancesD(1) [OF x] advancesD(6) [OF x d [OF c]] a] x
    show "advances g x'" by (blast intro: advances_trans)
  qed
qed

section \<open>Playing\<close>

definition proceeds :: "GameBoard \<Rightarrow> GameBoard \<Rightarrow> bool" where
  "proceeds g g' = (board_ok g' \<and> keeps g g' \<and> elapsed_time g \<le> elapsed_time g')"

lemma proceeds_refl: "board_ok g \<Longrightarrow> proceeds g g"
  by (simp add: proceeds_def keeps_refl board_ok_def)

lemma proceeds_trans: "proceeds g g' \<Longrightarrow> proceeds g' g'' \<Longrightarrow> proceeds g g''"
  unfolding proceeds_def using keeps_trans order_trans by metis

lemma proceeds_advances: "advances g g' \<Longrightarrow> proceeds g g'"
  by (simp add: proceeds_def advances_def clock_def)

lemma proceedsD:
  assumes "proceeds g g'"
  shows "board_ok g'" and "swap_ok g'" and "customer g e \<Longrightarrow> customer g' e"
    and "wiring g' = wiring g" and "elapsed_time g \<le> elapsed_time g'"
  using assms by (auto simp: proceeds_def keeps_def board_ok_def)

lemma proceeds_rest:
  assumes "board_ok g" and "tokens g' = tokens g" "swap g' = swap g" "alloc_ids g' = alloc_ids g"
    and "wiring g' = wiring g" "nfts g' = nfts g" "callbacks g' = callbacks g" "elapsed_time g \<le> elapsed_time g'"
  shows "proceeds g g'"
proof -
  have k: "keeps g g'" using assms by (intro keeps_same_books) (simp_all add: board_ok_def)
  have "board_ok g'"
    using assms nfts_ok_keeps [OF _ k] callbacks_ok_keeps [OF _ k]
    by (intro board_ok_keeps [OF assms(1) k]) (simp_all add: board_ok_def)
  with k assms(8) show ?thesis by (simp add: proceeds_def)
qed

lemma event_log_proceeds:
  "board_ok g \<Longrightarrow> add_to_event_log e l g = Some g' \<Longrightarrow> proceeds g g'"
  by (auto simp: add_to_event_log_def bind_SomeD wiring_def intro!: proceeds_rest)

lemma time_proceeds:
  "board_ok g \<Longrightarrow> update_current_time u t g = Some g' \<Longrightarrow> proceeds g g'"
  by (auto simp: update_current_time_def Let_def bind_SomeD wiring_def intro!: proceeds_rest)

lemma play_accepted_proceeds:
  assumes ok: "board_ok g" and c: "customer g u" and e: "play_accepted d t u g = Some (r, g')"
  shows "proceeds g g'"
proof (cases "sanitize d g")
  case (Inl er)
  with e ok show ?thesis by (simp add: play_accepted_def proceeds_refl)
next
  case (Inr mv)
  with e obtain g1 g2 g3 where 1: "update_current_time u t g = Some g1" and 2: "run_callbacks g1 = Some g2"
    and 3: "add_to_event_log u (LogGameMove mv) g2 = Some g3"
    by (auto simp: play_accepted_def process_ticks_def bind_SomeD)
  with Inr e obtain r1 g4 where 4: "play_inner mv u g3 = Some (r1, g4)"
    by (cases "play_inner mv u g3") (auto simp: play_accepted_def process_ticks_def)
  note s1 = time_proceeds [OF ok 1]
  note s2 = proceeds_advances [OF run_callbacks_advances [OF proceedsD(1) [OF s1] 2]]
  note s3 = event_log_proceeds [OF proceedsD(1) [OF s2] 3]
  have s13: "proceeds g g3" using s1 s2 s3 proceeds_trans by blast
  note s4 = proceeds_advances [OF advances_conserves [OF play_inner_conserves [OF proceedsD(1) [OF s13] proceedsD(3) [OF s13 c] 4]]]
  from e Inr 1 2 3 4 have "g' = g4 \<or> (\<exists>er. add_to_event_log u (LogMoveRejectReason er) g4 = Some g')"
    by (cases r1) (auto simp: play_accepted_def process_ticks_def bind_SomeD)
  with event_log_proceeds [OF proceedsD(1) [OF s4]] s13 s4 show ?thesis
    using proceeds_trans by blast
qed

lemma user_customer: "board_ok g \<Longrightarrow> bt_get (users_by_key g) k = Some u \<Longrightarrow> customer g u"
  by (force simp: board_ok_def wired_ok_def dest: bt_get_SomeD)

lemma play_proceeds:
  assumes ok: "board_ok g" and e: "play env k g = Some (r, g')"
  shows "proceeds g g'"
proof (cases "bt_get (users_by_key g) k")
  case None
  with e ok show ?thesis by (simp add: play_def proceeds_refl)
next
  case (Some u)
  with e obtain fin where fin: "game_is_finished g = Some fin"
    by (cases "game_is_finished g") (auto simp: play_def)
  show ?thesis
  proof (cases fin)
    case (Some reason)
    with e fin \<open>bt_get _ _ = _\<close> ok show ?thesis
      using event_log_proceeds by (auto simp: play_def bind_SomeD)
  next
    case None
    let ?g = "\<lambda>n. g\<lparr>player_move_sequence := bt_put u n (player_move_sequence g)\<rparr>"
    have s: "proceeds g (?g n)" for n by (rule proceeds_rest [OF ok]) (simp_all add: wiring_def)
    from e fin \<open>bt_get _ _ = _\<close> None have "g' = ?g (bt_or 0 (player_move_sequence g) u) \<or>
        play_accepted (move_d env) (time_millis env) u (?g (move_sequence env)) = Some (r, g')"
      by (auto simp: play_def bind_SomeD Let_def split: if_splits)
    with play_accepted_proceeds [OF proceedsD(1) [OF s] proceedsD(3) [OF s user_customer [OF ok \<open>bt_get _ _ = _\<close>]]]
    show ?thesis using s proceeds_trans by blast
  qed
qed

section \<open>New boards\<close>

lemma initial_board_ok:
  assumes "initial_board = Some g"
  shows "board_ok g"
proof -
  let ?t = "\<lambda>i n. \<lparr>balances = [], total = 0, token_this = EntityID i, nickname = Some n\<rparr>"
  have g: "g = g\<lparr>tokens := tokens g, swap := [], nfts := \<lparr>nft_map = [], power_plants = []\<rparr>, callbacks := [],
      users := [], users_by_key := []\<rparr>"
    and ids: "bitcoin_token_id g = TokenPointer (EntityID 3235774465)" "real_sats_token_id g = TokenPointer (EntityID 3235774466)"
      "concrete_token_id g = TokenPointer (EntityID 3235774467)" "asic_token_id g = TokenPointer (EntityID 3235774468)"
      "steel_token_id g = TokenPointer (EntityID 3235774469)" "silicon_token_id g = TokenPointer (EntityID 3235774470)"
    and last: "last_id (alloc_ids g) = 3235774471"
    and hb: "map fst (hashboards (tokens g)) = [TokenPointer (EntityID 3235774468)]"
    and tk: "reg_tokens (tokens g) =
      [(EntityID 3235774465, ?t 3235774465 ''Virtual Sats''), (EntityID 3235774466, ?t 3235774466 ''Real World Sats''),
       (EntityID 3235774467, ?t 3235774467 ''Concrete (1mt)''), (EntityID 3235774468, ?t 3235774468 ''ASIC Gen 1''),
       (EntityID 3235774469, ?t 3235774469 ''Steel (1mt)''), (EntityID 3235774470, ?t 3235774470 ''Silicon (10kg)'')]"
    using assms
    by (auto simp: initial_board_def new_from_alloc_def alloc_make_def add_w_def fits_def new_allocator_def
        new_token_def default_registry_def Let_def)
  have sw: "swap g = []" "nfts g = \<lparr>nft_map = [], power_plants = []\<rparr>" "callbacks g = []" "users g = []" "users_by_key g = []"
    by (subst g, simp)+
  have "tokens_ok g"
    by (simp add: reg_ok_def tk bt_ok_def token_ok_def)
  moreover have has: "has_token g p = (eid (as_id p) \<in> {3235774465..3235774470})" for p
    by (cases p; cases "as_id p") (auto simp: reg_has_def tok_index_def tk bt_get_def)
  ultimately have "swap_ok g"
    by (auto simp: swap_ok_def ledger_ok_def markets_ok_def sw last)
  moreover have "wired_ok g"
  proof -
    have "fst e = TokenPointer (EntityID 3235774468)" if "e \<in> set (hashboards (tokens g))" for e
      using that arg_cong [OF hb, of set] by auto
    then show ?thesis by (auto simp: wired_ok_def plain_token_def has ids sw)
  qed
  ultimately show ?thesis
    by (simp add: board_ok_def nfts_ok_def callbacks_ok_def sw nft_index_def)
qed

text \<open>Registering a player, and changing what the invariant does not mention.\<close>

lemma board_ok_players:
  assumes ok: "board_ok g" and c: "customer g i"
  shows "board_ok (g\<lparr>users := bt_put i d (users g), users_by_key := bt_put k i (users_by_key g)\<rparr>)"
proof -
  let ?h = "g\<lparr>users := bt_put i d (users g), users_by_key := bt_put k i (users_by_key g)\<rparr>"
  have b: "swap_ok ?h = swap_ok g" "customer ?h e = customer g e" "plain_token ?h t = plain_token g t" for e t
    using same_books [of ?h g] by simp_all
  have cb: "cb_ok ?h x = cb_ok g x" for x by (cases x) (simp_all add: b)
  have "e \<in> set (bt_put i d (users g)) \<Longrightarrow> e = (i, d) \<or> e \<in> set (users g)"
    and "f \<in> set (bt_put k i (users_by_key g)) \<Longrightarrow> f = (k, i) \<or> f \<in> set (users_by_key g)" for e f
    using set_bt_put by fastforce+
  with ok c show ?thesis
    by (fastforce simp: board_ok_def nfts_ok_def callbacks_ok_def wired_ok_def b cb)
qed

lemma board_ok_finish: "board_ok g \<Longrightarrow> board_ok (g\<lparr>finish_time := t\<rparr>)"
proof -
  assume ok: "board_ok g"
  let ?h = "g\<lparr>finish_time := t\<rparr>"
  have b: "swap_ok ?h = swap_ok g" "customer ?h e = customer g e" "plain_token ?h q = plain_token g q" for e q
    using same_books [of ?h g] by simp_all
  have "cb_ok ?h x = cb_ok g x" for x by (cases x) (simp_all add: b)
  with ok b show ?thesis
    by (simp add: board_ok_def nfts_ok_def callbacks_ok_def wired_ok_def)
qed

lemma setup_player_ok:
  assumes ok: "board_ok g" and e: "setup_player n k g = Some g'"
  shows "board_ok g'"
proof -
  from e obtain i g1 g3 where a: "alloc g = Some (i, g1)"
    and m1: "mint_tokens (g1\<lparr>users := bt_put i \<lparr>user_key = k\<rparr> (users g1), users_by_key := bt_put k i (users_by_key g1)\<rparr>)
      (real_sats_token_id g1) i n = Some g3"
    and m2: "mint_tokens g3 (bitcoin_token_id g3) i n = Some g'"
    by (auto simp: setup_player_def Let_def bind_SomeD)
  from conserves_alloc [OF ok a] have ok1: "board_ok g1" "customer g1 i" by (auto dest: conservesD)
  note ok2 = board_ok_players [OF ok1]
  from advances_mint [OF ok2 _ m1] wired_tokens(2) [OF ok2] have ok3: "board_ok g3"
    by (simp add: advancesD(1))
  from advances_mint [OF ok3 _ m2] wired_tokens(1) [OF ok3] show ?thesis
    by (simp add: advancesD(1))
qed

lemma ensure_btc_market_ok:
  assumes "board_ok g" and "ensure_btc_market i g = Some g'"
  shows "advances g g'"
proof -
  from assms(2) obtain m where "ensure g (TradingPairID (bitcoin_token_id g) i) = Some (m, g')"
    by (auto simp: ensure_btc_market_def bind_SomeD)
  from stays_ensure [OF _ this] assms(1) show ?thesis
    by (intro advances_stays) (simp_all add: board_ok_def)
qed

lemma start_plants_ok:
  "board_ok g \<Longrightarrow> start_plants locs ps g = Some g' \<Longrightarrow> board_ok g'"
proof (induction locs ps g rule: start_plants.induct)
  case (3 coords ty locs player ps g)
  from 3(3) obtain i g1 where a: "alloc g = Some (i, g1)" by (cases "alloc g") auto
  let ?n = "\<lparr>owner = player, nft_id = i, transfer_count = 0\<rparr>"
  obtain p ns where nr: "nft_add (nfts g1) ?n = (p, ns)" by fastforce
  from 3(3) a nr obtain plant where pl: "new_power_plant p ty coords 1 = Some plant"
    by (cases "new_power_plant p ty coords 1") auto
  let ?g2 = "g1\<lparr>nfts := ns\<lparr>power_plants := bt_put p plant (power_plants ns)\<rparr>\<rparr>"
  from 3(3) a nr pl obtain g3 where m: "mint_tokens ?g2 (asic_token_id ?g2) (nft_inner p) 1 = Some g3"
    and r: "start_plants locs ps g3 = Some g'"
    by (cases "mint_tokens ?g2 (asic_token_id ?g2) (nft_inner p) 1") auto
  from conserves_alloc [OF 3(2) a] have ok1: "board_ok g1" "customer g1 i" by (auto dest: conservesD)
  have "conserves g1 ?g2" by (rule conserves_add_nft(1) [OF ok1(1) _ nr]) (use ok1 in auto)
  then have ok2: "board_ok ?g2" by (rule conservesD)
  from advances_mint [OF ok2 wired_tokens(6) [OF ok2] m] have "board_ok g3" by (rule advancesD)
  from 3(1) [OF a refl nr [symmetric] refl pl refl m this r] show ?case .
qed simp_all

lemma schedule_ok_step:
  "board_ok g \<Longrightarrow> cb_ok g cb \<Longrightarrow> advances g (schedule_cb g cb)"
  using schedule_step by (simp add: advances_def)

text \<open>A producer of plain tokens under a fresh id.\<close>

lemma new_producer_step:
  assumes ok: "board_ok g" and a: "alloc g = Some (i, g1)"
    and t: "plain_token g p" "plain_token g h"
    and w: "\<And>h q. producer_ok h q \<Longrightarrow> cb_ok h (wrap q)"
  shows "advances g (schedule_cb g1 (wrap (new_producer i p h n)))"
proof -
  from conserves_alloc [OF ok a] have s: "advances g g1" and c: "customer g1 i"
    by (auto intro: advances_conserves)
  have "producer_ok g1 (new_producer i p h n)"
    using c t advancesD(4) [OF s] by (simp add: producer_ok_def new_producer_def)
  from schedule_ok_step [OF advancesD(1) [OF s] w [OF this]] s show ?thesis
    using advances_trans by blast
qed

lemma producer_cb_ok:
  "producer_ok g p \<Longrightarrow> cb_ok g (ASICProducer p)" "producer_ok g p \<Longrightarrow> cb_ok g (SteelSmelter p)"
  "producer_ok g p \<Longrightarrow> cb_ok g (SiliconRefinery p)" "producer_ok g p \<Longrightarrow> cb_ok g (ConcreteMiller p)"
  by (simp_all add: producer_ok_def)

lemma alloc_same: "alloc g = Some (i, g') \<Longrightarrow> tokens g' = tokens g \<and> wiring g' = wiring g"
  by (auto simp: alloc_Some wiring_def)

lemma post_init_ok:
  assumes ok: "board_ok g" and e: "post_init g = Some g'"
  shows "board_ok g'"
proof -
  from e obtain g1 g2 g3 g4 g5 g6 where
    1: "ensure_btc_market (steel_token_id g) g = Some g1" and 2: "ensure_btc_market (silicon_token_id g1) g1 = Some g2"
    and 3: "ensure_btc_market (concrete_token_id g2) g2 = Some g3" and 4: "ensure_btc_market (asic_token_id g3) g3 = Some g4"
    and 5: "mint_tokens g4 (bitcoin_token_id g4) (root_user g4) 10000000000 = Some g5"
    and 6: "mint_tokens g5 (real_sats_token_id g5) (root_user g5) 30000 = Some g6"
    by (auto simp: post_init_def bind_SomeD)
  note e = e [unfolded post_init_def 1 2 3 4 5 6 Option.bind.bind_lunit]
  note s1 = ensure_btc_market_ok [OF ok 1]
  note s2 = ensure_btc_market_ok [OF advancesD(1) [OF s1] 2]
  note s3 = ensure_btc_market_ok [OF advancesD(1) [OF s2] 3]
  note s4 = ensure_btc_market_ok [OF advancesD(1) [OF s3] 4]
  note s5 = advances_mint [OF advancesD(1) [OF s4] wired_tokens(1) [OF advancesD(1) [OF s4]] 5]
  note s6 = advances_mint [OF advancesD(1) [OF s5] wired_tokens(2) [OF advancesD(1) [OF s5]] 6]
  note ok6 = advancesD(1) [OF s6]
  from e obtain asic_id g7 where a7: "alloc g6 = Some (asic_id, g7)" by (cases "alloc g6") auto
  from conserves_alloc [OF ok6 a7] have s7: "advances g6 g7" and c7: "customer g7 asic_id"
    by (auto intro: advances_conserves)
  let ?g8 = "schedule_cb g7 (PowerPlantEventCb \<lparr>event_time = 0, event_period = 11003\<rparr>)"
  have s8: "advances g7 ?g8" by (rule schedule_ok_step [OF advancesD(1) [OF s7]]) simp
  note ok8 = advancesD(1) [OF s8]
  from e a7 obtain h d rest where hb: "hashboards (tokens ?g8) = (h, d) # rest"
    by (cases "hashboards (tokens ?g8)") (auto simp: Let_def)
  then have h: "plain_token ?g8 h" using ok8 by (simp add: board_ok_def wired_ok_def)
  let ?btc = "bitcoin_token_id ?g8"
  let ?g9 = "schedule_cb ?g8 (ASICProducer (new_producer asic_id ?btc h 10007))"
  have "producer_ok ?g8 (new_producer asic_id ?btc h 10007)"
    using h wired_tokens(1) [OF ok8] advancesD(3) [OF s8 c7] by (simp add: producer_ok_def new_producer_def)
  then have s9: "advances ?g8 ?g9" by (intro schedule_ok_step [OF ok8] producer_cb_ok)
  note ok9 = advancesD(1) [OF s9]
  have btc: "plain_token ?g9 ?btc" using wired_tokens(1) [OF ok8] advancesD(4) [OF s9] by blast
  note e = e [unfolded a7 Option.bind.bind_lunit prod.case Let_def hb list.case]
  from e obtain i10 g10 where a10: "alloc ?g9 = Some (i10, g10)" by (cases "alloc ?g9") auto
  let ?g11 = "schedule_cb g10 (SteelSmelter (new_producer i10 ?btc (steel_token_id g10) 5003))"
  have "steel_token_id g10 = steel_token_id ?g9" using alloc_same [OF a10] by (simp add: wiring_def)
  then have s11: "advances ?g9 ?g11"
    using new_producer_step [OF ok9 a10 btc wired_tokens(3) [OF ok9] producer_cb_ok(2)] by simp
  note ok11 = advancesD(1) [OF s11]
  note e = e [unfolded a10 Option.bind.bind_lunit prod.case]
  from e obtain i12 g12 where a12: "alloc ?g11 = Some (i12, g12)" by (cases "alloc ?g11") auto
  let ?g13 = "schedule_cb g12 (SiliconRefinery (new_producer i12 ?btc (silicon_token_id g12) 25013))"
  have "silicon_token_id g12 = silicon_token_id ?g11" using alloc_same [OF a12] by (simp add: wiring_def)
  then have s13: "advances ?g11 ?g13"
    using new_producer_step [OF ok11 a12 advancesD(4) [OF s11 btc] wired_tokens(4) [OF ok11] producer_cb_ok(3)] by simp
  note ok13 = advancesD(1) [OF s13]
  have btc13: "plain_token ?g13 ?btc" using advancesD(4) [OF s13] advancesD(4) [OF s11 btc] by blast
  note e = e [unfolded a12 Option.bind.bind_lunit prod.case]
  from e obtain i14 g14 where a14: "alloc ?g13 = Some (i14, g14)" by (cases "alloc ?g13") auto
  let ?g15 = "schedule_cb g14 (ConcreteMiller (new_producer i14 ?btc (concrete_token_id g14) 14009))"
  have "concrete_token_id g14 = concrete_token_id ?g13" using alloc_same [OF a14] by (simp add: wiring_def)
  then have s15: "advances ?g13 ?g15"
    using new_producer_step [OF ok13 a14 btc13 wired_tokens(5) [OF ok13] producer_cb_ok(4)] by simp
  note e = e [unfolded a14 Option.bind.bind_lunit prod.case]
  show ?thesis by (rule start_plants_ok [OF advancesD(1) [OF s15] e])
qed

lemma new_board_ok:
  assumes "new_board s = Some g"
  shows "board_ok g"
proof -
  from assms obtain g0 g1 where 0: "initial_board = Some g0" and 1: "setup_game s g0 = Some g1" and 2: "post_init g1 = Some g"
    by (auto simp: new_board_def bind_SomeD)
  have "board_ok (g0\<lparr>finish_time := setup_finish_time s\<rparr>)" by (rule board_ok_finish [OF initial_board_ok [OF 0]])
  with 1 [unfolded setup_game_def] have "board_ok g1"
    by (rule fold_opt_invariant) (rule setup_player_ok)
  from post_init_ok [OF this 2] show ?thesis .
qed

section \<open>Reachable boards\<close>

inductive reachable :: "GameSetup \<Rightarrow> GameBoard \<Rightarrow> bool" for s :: GameSetup where
  start: "new_board s = Some g \<Longrightarrow> reachable s g"
| move: "reachable s g \<Longrightarrow> play env k g = Some (r, g') \<Longrightarrow> reachable s g'"
| buy_query: "reachable s g \<Longrightarrow> customer g u \<Longrightarrow> simulate_buy_trade g p a b u = Some (t, g') \<Longrightarrow> reachable s g'"
| sell_query: "reachable s g \<Longrightarrow> customer g u \<Longrightarrow> simulate_sell_trade g p a b u = Some (t, g') \<Longrightarrow> reachable s g'"
| cost_query: "reachable s g \<Longrightarrow> get_power_plant_cost g n ty k = Some (c, g') \<Longrightarrow> reachable s g'"
| price_query: "reachable s g \<Longrightarrow> get_pair_price_data g p = Some (q, g') \<Longrightarrow> reachable s g'"

lemma reachable_board_ok: "reachable s g \<Longrightarrow> board_ok g"
proof (induction rule: reachable.induct)
  case (start g)
  then show ?case by (rule new_board_ok)
next
  case (move g env k r g')
  then show ?case using play_proceeds proceedsD(1) by blast
next
  case (buy_query g u p a b t g')
  then show ?case unfolding simulate_buy_trade_def using conserves_buy conservesD(1) by blast
next
  case (sell_query g u p a b t g')
  then show ?case unfolding simulate_sell_trade_def using conserves_sell conservesD(1) by blast
next
  case (cost_query g n ty k c g')
  then obtain u btc bill where u: "bt_get (users_by_key g) k = Some u" and e: "estimate_bill btc u bill g = Some (c, g')"
    by (auto simp: get_power_plant_cost_def estimate_materials_cost_def bind_SomeD)
  from estimate_bill_conserves [OF cost_query.IH user_customer [OF cost_query.IH u] e] show ?case
    by (rule conservesD)
next
  case (price_query g p q g')
  then obtain m where "ensure g p = Some (m, g')"
    by (auto simp: get_pair_price_data_def bind_SomeD)
  from stays_ensure [OF _ this] price_query.IH show ?case
    by (intro board_ok_stays [OF price_query.IH]) (simp add: board_ok_def)
qed

inductive_cases reachable_elim: "reachable s g"

section \<open>Properties\<close>

text \<open>C1: A move never creates or destroys tokens, whatever it does and whether it is rejected or
  not: the supply of every token stays, and the board stays well formed.\<close>

theorem moves_conserve_supply:
  assumes "board_ok g" and "customer g s" and "play_inner mv s g = Some (r, g')"
  shows "supply_of g' = supply_of g \<and> board_ok g'"
  using conservesD(1,5) [OF play_inner_conserves [OF assms]] by simp

theorem moves_conserve_supply_witness:
  "\<exists>r g'. play_inner (SendTokens (EntityID 110) 10 (tok 101)) (EntityID 109) example_board = Some (r, g') \<and>
    supply_of g' = supply_of example_board \<and> board_ok g'"
proof -
  have c: "customer example_board (EntityID 109)"
    using user_customer [OF example_board_ok, of "''alice''"] by (simp add: bt_get_def)
  have "\<exists>r g'. play_inner (SendTokens (EntityID 110) 10 (tok 101)) (EntityID 109) example_board = Some (r, g')"
    using registry.xfer_done [of example_tokens "tok 101" 10 "EntityID 109" "EntityID 110"] example_books(1)
    by (auto simp: accepted_def send_move_def transfer_tokens_def)
  with moves_conserve_supply [OF example_board_ok c] show ?thesis by blast
qed

text \<open>C11: A move of a player never turns the clock of the game back, and changes neither the users
  nor the tokens the game is about.\<close>

theorem play_keeps_the_game:
  assumes "board_ok g" and "play env k g = Some (r, g')"
  shows "board_ok g' \<and> elapsed_time g \<le> elapsed_time g' \<and> wiring g' = wiring g"
  using proceedsD(1,4,5) [OF play_proceeds [OF assms]] by simp

theorem play_keeps_the_game_witness:
  "\<exists>g'. play \<lparr>move_d = SendTokens (EntityID 110) 10 (tok 101), move_sequence = 1, time_millis = 5\<rparr> ''alice'' example_board
      = Some (Inr (), g') \<and> board_ok g' \<and> elapsed_time example_board \<le> elapsed_time g'"
  using example_play(2) [of 1] play_keeps_the_game [OF example_board_ok] by (auto simp: eval_nat_numeral)

end
