(* ===== verification/Game_Laws.thy ===== *)
theory Game_Laws
  imports Reachable
begin

text \<open>
  How a game ends and what a move does to the clock: the owner the end of the game names holds
  at least half of the hash rate, the bounty is paid out in full, the clock is the median of
  the players' times and never runs back, and the scheduler runs what is due in order.
\<close>

section \<open>Hash rates by owner\<close>

definition plant_rate :: "GameBoard \<Rightarrow> PowerPlant \<Rightarrow> nat" where
  "plant_rate g plant = (case compute_hashrate plant g of Some r \<Rightarrow> r | None \<Rightarrow> 0)"

definition owned_by :: "GameBoard \<Rightarrow> EntityID \<Rightarrow> NftPtr \<times> PowerPlant \<Rightarrow> bool" where
  "owned_by g e p = (\<exists>n. nft_index (nfts g) (fst p) = Some n \<and> owner n = e)"

definition rate_sum :: "GameBoard \<Rightarrow> (NftPtr \<times> PowerPlant) list \<Rightarrow> nat" where
  "rate_sum g ps = (\<Sum>p\<leftarrow>ps. plant_rate g (snd p))"

text \<open>The hash rate of a player, and of the whole game.\<close>

definition owned_rate :: "GameBoard \<Rightarrow> EntityID \<Rightarrow> nat" where
  "owned_rate g e = rate_sum g (filter (owned_by g e) (power_plants (nfts g)))"

definition total_rate :: "GameBoard \<Rightarrow> nat" where
  "total_rate g = rate_sum g (power_plants (nfts g))"

lemma rate_sum_simps [simp]: "rate_sum g [] = 0" "rate_sum g (p # ps) = plant_rate g (snd p) + rate_sum g ps"
  by (simp_all add: rate_sum_def)

lemma rate_sum_filter: "rate_sum g (filter P ps) \<le> rate_sum g ps"
  by (induction ps) auto

lemma accumulate_rates_sum:
  assumes "accumulate_rates g ps tot res = Some (tot', res')" and "bt_ok res"
    and "\<And>e v. bt_get res e = Some v \<Longrightarrow> snd v = hashrate_denominator"
  shows "tot' = tot + rate_sum g ps" and "bt_ok res'"
    and "bt_get res' e = Some v \<Longrightarrow> snd v = hashrate_denominator"
    and "fst (bt_or (0, 0) res' e) = fst (bt_or (0, 0) res e) + rate_sum g (filter (owned_by g e) ps) * hashrate_denominator"
    and "(bt_get res' e \<noteq> None) = (bt_get res e \<noteq> None \<or> (\<exists>p \<in> set ps. owned_by g e p))"
proof -
  have "tot' = tot + rate_sum g ps \<and> bt_ok res' \<and> (\<forall>e v. bt_get res' e = Some v \<longrightarrow> snd v = hashrate_denominator) \<and>
    (\<forall>e. fst (bt_or (0, 0) res' e) = fst (bt_or (0, 0) res e) + rate_sum g (filter (owned_by g e) ps) * hashrate_denominator \<and>
      (bt_get res' e \<noteq> None) = (bt_get res e \<noteq> None \<or> (\<exists>p \<in> set ps. owned_by g e p)))"
    using assms
  proof (induction ps arbitrary: tot res)
    case Nil
    then show ?case by auto
  next
    case (Cons p ps)
    obtain i plant where p: "p = (i, plant)" by fastforce
    from Cons.prems(1) obtain rate n v where
      r: "compute_hashrate plant g = Some rate" and n: "nft_index (nfts g) i = Some n"
      and v: "v = (fst (bt_or (0, hashrate_denominator) res (owner n)) + rate * hashrate_denominator,
            snd (bt_or (0, hashrate_denominator) res (owner n)))"
      and rest: "accumulate_rates g ps (tot + rate) (bt_put (owner n) v res) = Some (tot', res')"
      by (auto simp: p bind_SomeD arith_checked bt_or_def split: option.splits)
    have sv: "snd v = hashrate_denominator"
      using Cons.prems(3) [of "owner n"] by (auto simp: v bt_or_def split: option.splits)
    have own: "owned_by g e p = (e = owner n)" for e using n by (auto simp: owned_by_def p)
    have fv: "fst v = fst (bt_or (0, 0) res (owner n)) + rate * hashrate_denominator"
      by (auto simp: v bt_or_def split: option.splits)
    have "plant_rate g (snd p) = rate" by (simp add: plant_rate_def p r)
    moreover from rest have "tot' = tot + rate + rate_sum g ps \<and> bt_ok res' \<and>
      (\<forall>e v. bt_get res' e = Some v \<longrightarrow> snd v = hashrate_denominator) \<and>
      (\<forall>e. fst (bt_or (0, 0) res' e) = fst (bt_or (0, 0) (bt_put (owner n) v res) e) +
          rate_sum g (filter (owned_by g e) ps) * hashrate_denominator \<and>
        (bt_get res' e \<noteq> None) = (bt_get (bt_put (owner n) v res) e \<noteq> None \<or> (\<exists>p \<in> set ps. owned_by g e p)))"
      by (rule Cons.IH) (use Cons.prems sv in \<open>auto split: if_splits\<close>)
    ultimately show ?case
      by (auto simp: own fv add_mult_distrib)
  qed
  then show "tot' = tot + rate_sum g ps" and "bt_ok res'"
    and "bt_get res' e = Some v \<Longrightarrow> snd v = hashrate_denominator"
    and "fst (bt_or (0, 0) res' e) = fst (bt_or (0, 0) res e) + rate_sum g (filter (owned_by g e) ps) * hashrate_denominator"
    and "(bt_get res' e \<noteq> None) = (bt_get res e \<noteq> None \<or> (\<exists>p \<in> set ps. owned_by g e p))"
    by blast+
qed

lemma find_dominating_Some:
  "find_dominating shares = Some (Some k) \<Longrightarrow> \<exists>v. (k, v) \<in> set shares \<and> snd v \<le> 2 * fst v"
proof (induction shares)
  case (Cons s shares)
  then show ?case
    by (cases s; cases "snd (snd s) \<le> 2 * fst (snd s)") (fastforce simp: bind_SomeD arith_checked)+
qed simp

lemma find_dominating_None:
  "find_dominating shares = Some None \<Longrightarrow> (k, v) \<in> set shares \<Longrightarrow> 2 * fst v < snd v"
  by (induction shares rule: find_dominating.induct)
    (auto simp: bind_SomeD arith_checked split: if_splits)

text \<open>The scaled and rounded share is a half exactly when the rate is at least half of all.\<close>

lemma half_share:
  assumes "0 < (t::nat)"
  shows "(hashrate_denominator \<le> 2 * (r * hashrate_denominator div t)) = (t \<le> 2 * r)"
proof -
  have "(hashrate_denominator \<le> 2 * (r * hashrate_denominator div t)) = (50000 \<le> r * 100000 div t)"
    by (auto simp: hashrate_denominator_def)
  also have "\<dots> = (50000 * t \<le> r * 100000)"
    using assms by (simp add: less_eq_div_iff_mult_less_eq)
  also have "\<dots> = (t \<le> 2 * r)" by simp
  finally show ?thesis .
qed

lemma user_shares:
  assumes "get_user_hashrate_share g = Some shares"
  shows "0 < total_rate g \<Longrightarrow> (e, v) \<in> set shares \<Longrightarrow>
      v = (owned_rate g e * hashrate_denominator div total_rate g, hashrate_denominator)"
    and "total_rate g = 0 \<Longrightarrow> (e, v) \<in> set shares \<Longrightarrow> v = (0, hashrate_denominator)"
    and "(e \<in> fst ` set shares) = (\<exists>p \<in> set (power_plants (nfts g)). owned_by g e p)"
proof -
  have "accumulate_rates g (power_plants (nfts g)) 0 [] \<noteq> None"
    using assms by (intro notI) (simp add: get_user_hashrate_share_def)
  then obtain tot res where a: "accumulate_rates g (power_plants (nfts g)) 0 [] = Some (tot, res)"
    by fastforce
  have s: "shares = (if tot > 0 then map (\<lambda>(k, v). (k, (fst v div tot, snd v))) res else res)"
    using assms unfolding get_user_hashrate_share_def a by simp
  have ac1: "tot = rate_sum g (power_plants (nfts g))" using accumulate_rates_sum(1) [OF a bt_ok_Nil] by simp
  have ac2: "bt_ok res" using accumulate_rates_sum(2) [OF a bt_ok_Nil] by simp
  have ac3: "snd v = hashrate_denominator" if "bt_get res e = Some v" for e v
    by (rule accumulate_rates_sum(3) [OF a bt_ok_Nil _ that]) simp
  have ac4: "fst (bt_or (0, 0) res e) = owned_rate g e * hashrate_denominator" for e
    using accumulate_rates_sum(4) [OF a bt_ok_Nil, of e] by (simp add: owned_rate_def bt_or_def)
  have ac5: "(bt_get res e \<noteq> None) = (\<exists>p \<in> set (power_plants (nfts g)). owned_by g e p)" for e
    using accumulate_rates_sum(5) [OF a bt_ok_Nil, of e] by simp
  have t: "tot = total_rate g" using ac1 by (simp add: total_rate_def)
  have res: "v = (owned_rate g e * hashrate_denominator, hashrate_denominator)" if "(e, v) \<in> set res" for e v
  proof -
    have at: "bt_get res e = Some v" using that bt_get_iff [OF ac2] by simp
    have "snd v = hashrate_denominator" by (rule ac3 [OF at])
    moreover have "fst v = owned_rate g e * hashrate_denominator"
      using ac4 [of e] at by (simp add: bt_or_def)
    ultimately show ?thesis by (simp add: prod_eq_iff)
  qed
  show "v = (owned_rate g e * hashrate_denominator div total_rate g, hashrate_denominator)"
    if "0 < total_rate g" "(e, v) \<in> set shares"
    using that res by (force simp: s t)
  have "owned_rate g e \<le> total_rate g"
    unfolding owned_rate_def total_rate_def by (rule rate_sum_filter)
  then show "v = (0, hashrate_denominator)" if "total_rate g = 0" "(e, v) \<in> set shares"
    using that res [of e v] by (simp add: s t)
  have "fst ` set shares = fst ` set res" by (force simp: s)
  moreover have "(e \<in> fst ` set res) = (bt_get res e \<noteq> None)" by (simp add: bt_get_None)
  ultimately show "(e \<in> fst ` set shares) = (\<exists>p \<in> set (power_plants (nfts g)). owned_by g e p)"
    using ac5 [of e] by simp
qed

lemma finished_cases:
  assumes "game_is_finished g = Some fin"
  shows "fin = Some TimeExpired \<longleftrightarrow> finish_time g \<le> elapsed_time g"
    and "fin = Some (DominatingPlayer e) \<Longrightarrow> 3 * finish_time g div 4 \<le> elapsed_time g \<and>
      0 < total_rate g \<and> total_rate g \<le> 2 * owned_rate g e \<and> (\<exists>p \<in> set (power_plants (nfts g)). owned_by g e p)"
    and "fin = None \<Longrightarrow> 3 * finish_time g div 4 \<le> elapsed_time g \<Longrightarrow> 0 < total_rate g \<Longrightarrow>
      \<exists>p \<in> set (power_plants (nfts g)). owned_by g e p \<Longrightarrow> 2 * owned_rate g e < total_rate g"
proof -
  show "fin = Some TimeExpired \<longleftrightarrow> finish_time g \<le> elapsed_time g"
    using assms by (auto simp: game_is_finished_def bind_SomeD split: if_splits)
  have run: "\<exists>shares k. get_user_hashrate_share g = Some shares \<and> find_dominating shares = Some k \<and>
      fin = map_option DominatingPlayer k"
    if "elapsed_time g < finish_time g" "3 * finish_time g div 4 \<le> elapsed_time g"
    using assms that by (auto simp: game_is_finished_def bind_SomeD arith_checked split: if_splits)
  show "3 * finish_time g div 4 \<le> elapsed_time g \<and> 0 < total_rate g \<and> total_rate g \<le> 2 * owned_rate g e \<and>
      (\<exists>p \<in> set (power_plants (nfts g)). owned_by g e p)"
    if f: "fin = Some (DominatingPlayer e)"
  proof -
    have t: "elapsed_time g < finish_time g" "3 * finish_time g div 4 \<le> elapsed_time g"
      using assms f by (auto simp: game_is_finished_def bind_SomeD arith_checked split: if_splits)
    from run [OF t] obtain shares k where s: "get_user_hashrate_share g = Some shares"
      and d: "find_dominating shares = Some k" and k: "fin = map_option DominatingPlayer k" by blast
    from k f have "k = Some e" by (cases k) auto
    from find_dominating_Some [OF d [unfolded this]] obtain v where v: "(e, v) \<in> set shares" "snd v \<le> 2 * fst v"
      by auto
    have pos: "0 < total_rate g"
    proof (rule ccontr)
      assume "\<not> 0 < total_rate g"
      with user_shares(2) [OF s _ v(1)] v(2) show False by (simp add: hashrate_denominator_def)
    qed
    with user_shares(1) [OF s pos v(1)] v(2) half_share [OF pos] have "total_rate g \<le> 2 * owned_rate g e"
      by auto
    moreover have "e \<in> fst ` set shares" using v(1) by force
    ultimately show ?thesis using pos t user_shares(3) [OF s] by blast
  qed
  show "2 * owned_rate g e < total_rate g"
    if f: "fin = None" "3 * finish_time g div 4 \<le> elapsed_time g" "0 < total_rate g"
      "\<exists>p \<in> set (power_plants (nfts g)). owned_by g e p"
  proof -
    have t: "elapsed_time g < finish_time g"
      using assms f(1) by (auto simp: game_is_finished_def split: if_splits)
    from run [OF t f(2)] f(1) obtain shares where s: "get_user_hashrate_share g = Some shares"
      and d: "find_dominating shares = Some None" by auto
    from user_shares(3) [OF s] f(4) obtain v where v: "(e, v) \<in> set shares" by force
    have "2 * fst v < snd v" by (rule find_dominating_None [OF d v])
    with user_shares(1) [OF s f(3) v] half_share [OF f(3), of "owned_rate g e"] show ?thesis
      by (simp add: not_le [symmetric])
  qed
qed

section \<open>The bounty\<close>

lemma map_opt_length: "map_opt f xs = Some ys \<Longrightarrow> length ys = length xs"
  using list_all2_lengthD map_opt_Some by metis

lemma map_opt_keys:
  assumes "map_opt (\<lambda>(k, v). do { r \<leftarrow> f v; Some (k, r) }) xs = Some ys"
  shows "map fst ys = map fst xs"
  using assms
proof (induction xs arbitrary: ys)
  case (Cons x xs)
  then show ?case by (cases x) (auto simp: bind_SomeD)
qed simp

lemma add_excess_sum:
  assumes "add_excess n rs = Some rs'" and "rs \<noteq> []"
  shows "sum_list (map snd rs') = sum_list (map snd rs) + n" and "map fst rs' = map fst rs"
  using assms by (auto simp: add_excess_def bind_SomeD arith_checked split: list.splits)

lemma expired_rewards_sum:
  assumes e: "expired_rewards bounty bals = Some rs" and ne: "bals \<noteq> []"
  shows "sum_list (map snd rs) = bounty" and "map fst rs = map fst bals"
proof -
  from e obtain tot rewards paid excess where
    r: "(if tot = 0
       then map_opt (\<lambda>(k, v). do { r \<leftarrow> div_w bounty (length bals); Some (k, r) }) bals
       else map_opt (\<lambda>(k, v). do { p \<leftarrow> mul128 v bounty; r \<leftarrow> div_w p tot; Some (k, r mod 2 ^ 64) }) bals) = Some rewards"
    and p: "sum_w 64 0 (map snd rewards) = Some paid" and x: "sub_w bounty paid = Some excess"
    and a: "add_excess excess rewards = Some rs"
    by (auto simp: expired_rewards_def bind_SomeD)
  have k: "map fst rewards = map fst bals"
  proof (cases "tot = 0")
    case True
    with r map_opt_keys [of "\<lambda>v. div_w bounty (length bals)" bals rewards] show ?thesis by simp
  next
    case False
    with r map_opt_keys [of "\<lambda>v. do { p \<leftarrow> mul128 v bounty; r \<leftarrow> div_w p tot; Some (r mod 2 ^ 64) }" bals rewards]
    show ?thesis by simp
  qed
  then have "rewards \<noteq> []" using ne by auto
  note s = add_excess_sum [OF a this]
  have "paid = sum_list (map snd rewards)" and "paid \<le> bounty" and "excess = bounty - paid"
    using p x by (simp_all add: arith_checked)
  with s show "sum_list (map snd rs) = bounty" by simp
  show "map fst rs = map fst bals" using s k by simp
qed

text \<open>What is paid out, and to whom, by the way the game ended: a game that ran out of time pays
  its players, in the order of their keys; a dominated one pays the dominating player and the host.
  A game without players that runs out of time pays nothing to nobody.\<close>

lemma close_distribution_expired:
  assumes e: "get_close_distribution g bounty host = Some (Inr rs)" and f: "game_is_finished g = Some (Some TimeExpired)"
  shows "map fst rs = map fst (users_by_key g)"
    and "sum_list (map snd rs) = (if users_by_key g = [] then 0 else bounty)"
proof -
  from e f obtain bals where
    b: "map_opt (\<lambda>(k, v). do { b \<leftarrow> balance g (bitcoin_token_id g) v; Some (k, b) }) (users_by_key g) = Some bals"
    and x: "expired_rewards bounty bals = Some rs"
    by (auto simp: get_close_distribution_def bind_SomeD)
  from b have k: "map fst bals = map fst (users_by_key g)" by (rule map_opt_keys)
  have n: "bals = [] \<longleftrightarrow> users_by_key g = []" using map_opt_length [OF b] by auto
  have "rs = []" if "bals = []"
    using x that by (auto simp: expired_rewards_def bind_SomeD add_excess_def split: if_splits)
  with expired_rewards_sum [OF x] k n show "map fst rs = map fst (users_by_key g)"
    and "sum_list (map snd rs) = (if users_by_key g = [] then 0 else bounty)" by fastforce+
qed

lemma close_distribution_dominated:
  assumes "get_close_distribution g bounty host = Some (Inr rs)" and "game_is_finished g \<noteq> Some (Some TimeExpired)"
  shows "\<exists>i u. game_is_finished g = Some (Some (DominatingPlayer i)) \<and> bt_get (users g) i = Some u \<and>
      rs = [(user_key u, bounty - bounty div 4), (host, bounty div 4)]"
proof -
  from assms(1) obtain fin where f: "game_is_finished g = Some fin"
    by (cases "game_is_finished g") (auto simp: get_close_distribution_def)
  show ?thesis
  proof (cases fin)
    case None
    with assms f show ?thesis by (simp add: get_close_distribution_def)
  next
    case (Some why)
    with assms f show ?thesis
      by (cases why) (auto simp: get_close_distribution_def Let_def bind_SomeD arith_checked)
  qed
qed

lemma close_distribution_sum:
  assumes e: "get_close_distribution g bounty host = Some (Inr rs)" and ne: "users_by_key g \<noteq> []"
  shows "sum_list (map snd rs) = bounty"
proof (cases "game_is_finished g = Some (Some TimeExpired)")
  case True
  with close_distribution_expired(2) [OF e] ne show ?thesis by simp
next
  case False
  with close_distribution_dominated [OF e] show ?thesis by fastforce
qed

section \<open>The clock\<close>

text \<open>A median: no more than half of the times are below it, and no more than half above it.\<close>

definition is_median :: "nat list \<Rightarrow> nat \<Rightarrow> bool" where
  "is_median xs m =
     (2 * length (filter (\<lambda>x. x < m) xs) \<le> length xs \<and> 2 * length (filter (\<lambda>x. m < x) xs) \<le> length xs)"

lemma filter_sorted_below:
  assumes "sorted xs" and "i < length xs" and "m \<le> xs ! i"
  shows "length (filter (\<lambda>x. x < m) xs) \<le> i"
proof -
  have "filter (\<lambda>x. x < m) (drop i xs) = []"
  proof -
    have "m \<le> x" if x: "x \<in> set (drop i xs)" for x
    proof -
      from x obtain j where j: "j < length xs - i" "x = xs ! (i + j)" by (auto simp: in_set_conv_nth)
      have "xs ! i \<le> xs ! (i + j)" by (rule sorted_nth_mono [OF assms(1)]) (use j in auto)
      with j assms(3) show ?thesis by simp
    qed
    then show ?thesis by (auto simp: filter_empty_conv not_less)
  qed
  then have "filter (\<lambda>x. x < m) xs = filter (\<lambda>x. x < m) (take i xs)"
    by (metis append_Nil2 append_take_drop_id filter_append)
  then show ?thesis by (metis length_filter_le length_take min.cobounded2 order_trans)
qed

lemma filter_sorted_above:
  assumes "sorted xs" and "i < length xs" and "xs ! i \<le> m"
  shows "length (filter (\<lambda>x. m < x) xs) \<le> length xs - Suc i"
proof -
  have "filter (\<lambda>x. m < x) (take (Suc i) xs) = []"
  proof -
    have "x \<le> m" if x: "x \<in> set (take (Suc i) xs)" for x
    proof -
      from x obtain j where "j < length (take (Suc i) xs)" "x = take (Suc i) xs ! j"
        by (auto simp: in_set_conv_nth)
      then have j: "j \<le> i" "x = xs ! j" by auto
      have "xs ! j \<le> xs ! i" by (rule sorted_nth_mono [OF assms(1) j(1) assms(2)])
      with j assms(3) show ?thesis by simp
    qed
    then show ?thesis by (auto simp: filter_empty_conv not_less)
  qed
  then have "filter (\<lambda>x. m < x) xs = filter (\<lambda>x. m < x) (drop (Suc i) xs)"
    by (metis append_Nil append_take_drop_id filter_append)
  then show ?thesis by (metis length_drop length_filter_le)
qed

lemma median_elapsed_median:
  assumes "median_elapsed xs = Some m" and "xs \<noteq> []"
  shows "is_median xs m"
proof -
  let ?s = "sort xs" and ?n = "length xs"
  have filt: "length (filter P ?s) = length (filter P xs)" for P
    by (metis filter_sort length_sort)
  have srt: "sorted ?s" by simp
  obtain i j where ij: "i < ?n" "j < ?n" "?s ! i \<le> m" "m \<le> ?s ! j" "2 * j \<le> ?n" "?n \<le> 2 * Suc i"
  proof (cases "?n mod 2 = 0")
    case True
    with assms have m: "m = (?s ! (?n div 2) + ?s ! (?n div 2 - 1)) div 2" and pos: "?n div 2 \<noteq> 0"
      by (auto simp: median_elapsed_def Let_def bind_SomeD arith_checked get_or_zero_def)
    have "?s ! (?n div 2 - 1) \<le> ?s ! (?n div 2)" by (rule sorted_nth_mono [OF srt]) (use pos in auto)
    with m pos True show thesis by (intro that [of "?n div 2 - 1" "?n div 2"]) auto
  next
    case False
    with assms have m: "m = ?s ! (?n div 2)"
      by (auto simp: median_elapsed_def Let_def get_or_zero_def)
    have h: "?n div 2 < ?n" "2 * (?n div 2) \<le> ?n" "?n \<le> 2 * Suc (?n div 2)" using assms(2) by auto
    show thesis by (rule that [of "?n div 2" "?n div 2"]) (simp_all only: h m order_refl)
  qed
  have "length (filter (\<lambda>x. x < m) ?s) \<le> j" by (rule filter_sorted_below [OF srt]) (use ij in auto)
  moreover have "length (filter (\<lambda>x. m < x) ?s) \<le> length ?s - Suc i"
    by (rule filter_sorted_above [OF srt]) (use ij in auto)
  ultimately show ?thesis using ij by (simp add: is_median_def filt)
qed

section \<open>Properties\<close>

text \<open>C6: When the game is finished. The time is up exactly from the finish time on; a player is
  dominating only after three quarters of the time, with half of the hash rate or more and a
  plant; and while the game runs on after that, every owner has less than half.\<close>

theorem finished_exactly:
  assumes "game_is_finished g = Some fin"
  shows "(fin = Some TimeExpired) = (finish_time g \<le> elapsed_time g) \<and>
    (case fin of
       Some (DominatingPlayer e) \<Rightarrow> 3 * finish_time g div 4 \<le> elapsed_time g \<and> 0 < total_rate g \<and>
         total_rate g \<le> 2 * owned_rate g e \<and> Bex (set (power_plants (nfts g))) (owned_by g e)
     | Some TimeExpired \<Rightarrow> True
     | None \<Rightarrow> elapsed_time g < 3 * finish_time g div 4 \<or> total_rate g = 0 \<or>
         {e. Bex (set (power_plants (nfts g))) (owned_by g e)} \<subseteq> {e. 2 * owned_rate g e < total_rate g})"
proof -
  have 1: "(fin = Some TimeExpired) = (finish_time g \<le> elapsed_time g)" by (rule finished_cases(1) [OF assms])
  show ?thesis
  proof (cases fin)
    case None
    with 1 finished_cases(3) [OF assms None] show ?thesis by (fastforce simp: not_less)
  next
    case (Some why)
    with 1 finished_cases(2) [OF assms] show ?thesis by (cases why) (auto simp: Bex_def)
  qed
qed

theorem finished_exactly_witness:
  "game_is_finished example_board = Some None \<and> \<not> finish_time example_board \<le> elapsed_time example_board"
proof -
  have "game_is_finished example_board = Some None"
    by (simp add: game_is_finished_def mul_w_def fits_def)
  with finished_exactly [OF this] show ?thesis by simp
qed

text \<open>C7: Whenever the distribution of a bounty is computed (the game has ended and no sum
  overflows, which would panic), it pays the bounty to the last unit. A game that ran out of time
  pays it to its players, each of them once, and a dominated game to the dominating player and the
  host, with three quarters rounded up for the player. The one exception is stated too: a game that runs
  out of time without a single player has an empty distribution, which pays nothing.\<close>

theorem bounty_paid_in_full:
  assumes "get_close_distribution g bounty host = Some (Inr rs)"
  shows "if game_is_finished g = Some (Some TimeExpired)
    then map fst rs = map fst (users_by_key g) \<and>
      sum_list (map snd rs) = (if users_by_key g = [] then 0 else bounty)
    else (\<exists>i u. game_is_finished g = Some (Some (DominatingPlayer i)) \<and> bt_get (users g) i = Some u \<and>
      rs = [(user_key u, bounty - bounty div 4), (host, bounty div 4)])"
  using close_distribution_expired [OF assms] close_distribution_dominated [OF assms] by simp

theorem bounty_paid_in_full_witness:
  "\<exists>rs. get_close_distribution (example_board\<lparr>elapsed_time := 1000\<rparr>) 1001 ''host'' = Some (Inr rs) \<and>
    map fst rs = [''alice'', ''bob''] \<and> sum_list (map snd rs) = 1001"
proof -
  let ?g = "example_board\<lparr>elapsed_time := 1000\<rparr>"
  have "balance ?g (tok 101) (EntityID 109) = Some 500" "balance ?g (tok 101) (EntityID 110) = Some 100"
    using example_books(1) by (simp_all add: balance_Some)
  then obtain rs where "get_close_distribution ?g 1001 ''host'' = Some (Inr rs)"
    by (simp add: get_close_distribution_def game_is_finished_def expired_rewards_def add_w_def mul_w_def
        fits_def div_w_def sub_w_def add_excess_def)
  with bounty_paid_in_full [OF this] show ?thesis by (simp add: game_is_finished_def mul_w_def fits_def)
qed

text \<open>The time of the game is a median of the players' times: no more than half of them are
  below it, and no more than half above.\<close>

theorem time_is_a_median:
  assumes "median_elapsed xs = Some m" and "xs \<noteq> []"
  shows "is_median xs m"
  using assms by (rule median_elapsed_median)

theorem time_is_a_median_witness: "median_elapsed [9, 1, 5] = Some 5 \<and> is_median [9, 1, 5] 5"
  using time_is_a_median [of "[9, 1, 5]" 5] by (simp add: median_elapsed_def get_or_zero_def)

text \<open>C8: The hash rate of a plant is the best that its boards can do with its power: some
  assignment of power to boards reaches it, and none gets beyond.\<close>

theorem hashrate_is_best:
  assumes "compute_hashrate plant g = Some r" and "boards_at g (nft_inner (plant_id plant)) = Some boards"
  shows "Max {hashes zs |zs. assignment boards (watts plant) zs} = r"
proof -
  note b = compute_hashrate_best [OF assms]
  have "{hashes zs |zs. assignment boards (watts plant) zs} \<subseteq> {..r}" using b(1) by auto
  then have "finite {hashes zs |zs. assignment boards (watts plant) zs}" using finite_subset by blast
  then show ?thesis using b by (intro Max_eqI) blast+
qed

theorem hashrate_is_best_witness:
  "\<exists>r. compute_hashrate \<lparr>plant_id = NftPtr (EntityID 111), plant_type = Solar, watts = 3, coordinates = (0, 0)\<rparr> example_board
      = Some r \<and> Max {hashes zs |zs. assignment [(3, 5)] 3 zs} = r"
proof -
  let ?p = "\<lparr>plant_id = NftPtr (EntityID 111), plant_type = Solar, watts = 3, coordinates = (0, 0)\<rparr>"
  have "balance example_board (tok 104) (EntityID 111) = Some 5"
    using example_books(3) by (simp add: balance_Some)
  then have b: "boards_at example_board (EntityID 111) = Some [(3, 5)]"
    by (simp add: boards_at_def) (simp add: example_tokens_def)
  then have "\<exists>r. compute_hashrate ?p example_board = Some r"
    by (simp add: compute_hashrate_def mul_w_def add_w_def fits_def sub_w_def)
  with hashrate_is_best [of ?p example_board _ "[(3, 5)]"] b show ?thesis by auto
qed

end
