(* ===== verification/Payout_Laws.thy ===== *)
theory Payout_Laws
  imports Game_Laws
begin

text \<open>
  What time brings: the scheduler takes exactly the callbacks that are due, in the order of
  their times, and a mining payout divides the subsidy by hash rate.
\<close>

section \<open>The scheduler\<close>

text \<open>Every callback is stored under its time.\<close>

definition sched_ok :: "CallbackRegistry \<Rightarrow> bool" where
  "sched_ok cbs = (bt_ok cbs \<and> (\<forall>e \<in> set cbs. \<forall>cb \<in> set (snd e). cb_time cb = fst e))"

definition scheduled :: "CallbackRegistry \<Rightarrow> Callback set" where
  "scheduled cbs = (\<Union>e \<in> set cbs. set (snd e))"

lemma sched_ok_schedule: "sched_ok cbs \<Longrightarrow> sched_ok (schedule cbs cb)"
proof -
  assume ok: "sched_ok cbs"
  have "cb_time x = cb_time cb" if "x \<in> set (bt_or [] cbs (cb_time cb))" for x
  proof (cases "bt_get cbs (cb_time cb)")
    case (Some l)
    then have "(cb_time cb, l) \<in> set cbs" by (rule bt_get_SomeD)
    moreover have "x \<in> set l" using that Some by (simp add: bt_or_def)
    ultimately show ?thesis using ok by (fastforce simp: sched_ok_def)
  qed (use that in \<open>simp add: bt_or_def\<close>)
  moreover have "e \<in> set (schedule cbs cb) \<Longrightarrow> e \<in> set cbs \<or> e = (cb_time cb, bt_or [] cbs (cb_time cb) @ [cb])" for e
    using set_bt_put unfolding schedule_def by fastforce
  ultimately show ?thesis
    using ok by (fastforce simp: sched_ok_def schedule_def bt_ok_put)
qed

lemma sched_ok_not_due: "sched_ok cbs \<Longrightarrow> sched_ok (not_due t cbs)"
  unfolding sched_ok_def not_due_def bt_ok_def
  by (induction cbs) auto

lemma due_times:
  assumes "sched_ok cbs"
  shows "sorted (map cb_time (due t cbs))" and "set (due t cbs) = {cb \<in> scheduled cbs. cb_time cb < t}"
    and "scheduled (not_due t cbs) = {cb \<in> scheduled cbs. t \<le> cb_time cb}"
proof -
  show "set (due t cbs) = {cb \<in> scheduled cbs. cb_time cb < t}"
    "scheduled (not_due t cbs) = {cb \<in> scheduled cbs. t \<le> cb_time cb}"
    using assms by (auto simp: due_def not_due_def scheduled_def sched_ok_def)
  show "sorted (map cb_time (due t cbs))"
    using assms
  proof (induction cbs)
    case Nil
    then show ?case by (simp add: due_def)
  next
    case (Cons e cbs)
    then have ok: "sched_ok cbs" by (simp add: sched_ok_def bt_ok_Cons)
    have "cb_time cb = fst e" if "cb \<in> set (snd e)" for cb
      using that Cons.prems by (simp add: sched_ok_def)
    then have "map cb_time (snd e) = replicate (length (snd e)) (fst e)"
      by (simp add: list_eq_iff_nth_eq)
    moreover have "fst e \<le> cb_time cb" if "cb \<in> set (due t cbs)" for cb
      using that Cons.prems by (fastforce simp: due_def sched_ok_def bt_ok_Cons)
    moreover have "due t (e # cbs) = (if fst e < t then snd e @ due t cbs else due t cbs)"
      by (simp add: due_def)
    ultimately show ?case
      using Cons.IH [OF ok] by (auto simp: sorted_append)
  qed
qed

section \<open>Mining payouts\<close>

lemma owner_shares_sum:
  assumes "owner_shares g ps tot sh = Some (tot', sh')" and "bt_ok sh"
  shows "tot' = tot + rate_sum g ps" and "bt_ok sh'"
    and "bt_or 0 sh' e = bt_or 0 sh e + rate_sum g (filter (owned_by g e) ps)"
    and "bt_sum sh' = bt_sum sh + rate_sum g ps"
proof -
  have "tot' = tot + rate_sum g ps \<and> bt_ok sh' \<and>
    (\<forall>e. bt_or 0 sh' e = bt_or 0 sh e + rate_sum g (filter (owned_by g e) ps)) \<and>
    bt_sum sh' = bt_sum sh + rate_sum g ps"
    using assms
  proof (induction ps arbitrary: tot sh)
    case Nil
    then show ?case by simp
  next
    case (Cons p ps)
    obtain i plant where p: "p = (i, plant)" by fastforce
    from Cons.prems(1) obtain r n where r: "compute_hashrate plant g = Some r" and n: "nft_index (nfts g) i = Some n"
      and rest: "owner_shares g ps (tot + r) (bt_put (owner n) (bt_or 0 sh (owner n) + r) sh) = Some (tot', sh')"
      by (auto simp: p bind_SomeD arith_checked)
    have own: "owned_by g e p = (e = owner n)" for e using n by (auto simp: owned_by_def p)
    have rt: "plant_rate g (snd p) = r" by (simp add: plant_rate_def p r)
    have sm: "bt_sum (bt_put (owner n) (bt_or 0 sh (owner n) + r) sh) = bt_sum sh + r"
      using bt_sum_put [OF Cons.prems(2), of "owner n" "bt_or 0 sh (owner n) + r"] by simp
    from Cons.IH [OF rest bt_ok_put [OF Cons.prems(2)]] show ?case
      by (auto simp: own rt sm)
  qed
  then show "tot' = tot + rate_sum g ps" "bt_ok sh'"
    "bt_or 0 sh' e = bt_or 0 sh e + rate_sum g (filter (owned_by g e) ps)"
    "bt_sum sh' = bt_sum sh + rate_sum g ps" by blast+
qed

lemma payout_share_value: "payout_share s t v = Some a \<Longrightarrow> a = v * s div t \<and> t \<noteq> 0"
proof -
  assume "payout_share s t v = Some a"
  then have "a = v * 1024 * s div t div 1024" and t: "t \<noteq> 0"
    by (auto simp: payout_share_def bind_SomeD arith_checked)
  moreover have "v * 1024 * s = v * s * 1024" by simp
  ultimately have "a = (v * s * 1024) div (t * 1024)"
    by (simp only: div_mult2_eq)
  with t show ?thesis by simp
qed

lemma mint_all_books:
  assumes "mint_all p l g = Some g'" and "tokens_ok g" and "bt_ok l"
  shows "tokens_ok g'" and "has_token g' = has_token g"
    and "holding g' = (\<lambda>q e. holding g q e + (if q = p then bt_or 0 l e else 0))"
    and "supply_of g' = (\<lambda>q. supply_of g q + (if q = p then bt_sum l else 0))"
proof -
  have "tokens_ok g' \<and> has_token g' = has_token g \<and>
    holding g' = (\<lambda>q e. holding g q e + (if q = p then bt_or 0 l e else 0)) \<and>
    supply_of g' = (\<lambda>q. supply_of g q + (if q = p then bt_sum l else 0))"
    using assms
  proof (induction p l g rule: mint_all.induct)
    case (1 p g)
    then show ?case by (auto simp: fun_eq_iff bt_or_def)
  next
    case (2 p e n rest g)
    from 2(2) obtain g1 where m: "mint_tokens g p e n = Some g1" and r: "mint_all p rest g1 = Some g'"
      by (auto simp: bind_SomeD)
    note mb = mint_tokens_books [OF 2(3) m]
    have ok: "bt_ok rest" and e: "bt_or 0 rest e = 0"
      using 2(4) by (fastforce simp: bt_ok_Cons bt_or_def split: option.splits dest!: bt_get_SomeD)+
    from 2(1) [OF m r mb(1) ok] mb e show ?case
      by (auto simp: fun_eq_iff bt_or_def bt_get_def bt_sum_def)
  qed
  then show "tokens_ok g'" "has_token g' = has_token g"
    "holding g' = (\<lambda>q e. holding g q e + (if q = p then bt_or 0 l e else 0))"
    "supply_of g' = (\<lambda>q. supply_of g q + (if q = p then bt_sum l else 0))" by blast+
qed

lemma map_opt_values:
  assumes "map_opt (\<lambda>(k, v). do { a \<leftarrow> f v; Some (k, a) }) xs = Some ys"
  shows "ys = map (\<lambda>(k, v). (k, the (f v))) xs" and "\<forall>x \<in> set xs. f (snd x) \<noteq> None"
proof -
  have "ys = map (\<lambda>(k, v). (k, the (f v))) xs \<and> (\<forall>x \<in> set xs. f (snd x) \<noteq> None)"
    using assms by (induction xs arbitrary: ys) (auto simp: bind_SomeD)
  then show "ys = map (\<lambda>(k, v). (k, the (f v))) xs" "\<forall>x \<in> set xs. f (snd x) \<noteq> None" by blast+
qed

lemma sum_div_le: "(\<Sum>x\<leftarrow>xs. f x * s div t) \<le> (\<Sum>x\<leftarrow>xs. f x) * s div (t::nat)"
proof (induction xs)
  case (Cons x xs)
  have "f x * s div t + (\<Sum>x\<leftarrow>xs. f x) * s div t \<le> (f x * s + (\<Sum>x\<leftarrow>xs. f x) * s) div t"
    using div_add1_eq [of "f x * s" "(\<Sum>x\<leftarrow>xs. f x) * s" t] by simp
  with Cons show ?case by (simp add: add_mult_distrib)
qed simp

text \<open>Each owner gets the subsidy times the share of the hash rate, rounded down.\<close>

lemma pay_miners_books:
  assumes ok: "tokens_ok g" and e: "pay_miners g = Some g'"
  shows "holding g' = (\<lambda>q e. holding g q e +
      (if q = bitcoin_token_id g then owned_rate g e * mining_subsidy g div total_rate g else 0))"
    and "\<forall>q. q \<noteq> bitcoin_token_id g \<longrightarrow> supply_of g' q = supply_of g q"
    and "supply_of g' (bitcoin_token_id g) \<le> supply_of g (bitcoin_token_id g) + mining_subsidy g"
proof -
  let ?s = "mining_subsidy g" and ?btc = "bitcoin_token_id g"
  from e obtain tot sh where o: "owner_shares g (power_plants (nfts g)) 0 [] = Some (tot, sh)"
    by (cases "owner_shares g (power_plants (nfts g)) 0 []") (auto simp: pay_miners_def)
  note os = owner_shares_sum [OF o bt_ok_Nil]
  have tot: "tot = total_rate g" using os(1) by (simp add: total_rate_def)
  have own: "bt_or 0 sh e = owned_rate g e" for e using os(3) [of e] by (simp add: owned_rate_def bt_or_def)
  have sm: "bt_sum sh = tot" using os(1,4) by simp
  have "(holding g' = (\<lambda>q e. holding g q e + (if q = ?btc then owned_rate g e * ?s div tot else 0))) \<and>
    (\<forall>q. q \<noteq> ?btc \<longrightarrow> supply_of g' q = supply_of g q) \<and> supply_of g' ?btc \<le> supply_of g ?btc + ?s"
  proof (cases "tot = 0")
    case True
    with e o show ?thesis by (simp add: pay_miners_def fun_eq_iff)
  next
    case False
    with e o obtain am where am: "map_opt (\<lambda>(e, v). do { a \<leftarrow> payout_share ?s tot v; Some (e, a) }) sh = Some am"
      and m: "mint_all ?btc am g = Some g'"
      by (auto simp: pay_miners_def bind_SomeD)
    have eq: "am = map (\<lambda>(e, v). (e, v * ?s div tot)) sh"
      using map_opt_values [OF am] payout_share_value [of ?s tot] by fastforce
    have bt: "bt_ok am" using os(2) by (simp add: eq bt_ok_def comp_def case_prod_unfold)
    have get: "bt_or 0 am e = bt_or 0 sh e * ?s div tot" for e
      by (simp add: eq bt_or_def bt_get_def map_of_map split: option.splits)
    note mb = mint_all_books [OF m ok bt]
    have "bt_sum am = (\<Sum>x\<leftarrow>sh. snd x * ?s div tot)"
      by (simp add: eq bt_sum_def comp_def case_prod_unfold)
    also have "\<dots> \<le> (\<Sum>x\<leftarrow>sh. snd x) * ?s div tot" by (rule sum_div_le)
    also have "\<dots> = ?s" using sm False by (simp add: bt_sum_def)
    finally have "bt_sum am \<le> ?s" .
    moreover have "holding g' = (\<lambda>q e. holding g q e + (if q = ?btc then owned_rate g e * ?s div tot else 0))"
      unfolding mb(3) by (intro ext) (simp only: get own)
    ultimately show ?thesis using mb(4) by simp
  qed
  then show "holding g' = (\<lambda>q e. holding g q e + (if q = ?btc then owned_rate g e * ?s div total_rate g else 0))"
    and "\<forall>q. q \<noteq> ?btc \<longrightarrow> supply_of g' q = supply_of g q"
    and "supply_of g' ?btc \<le> supply_of g ?btc + ?s"
    unfolding tot by blast+
qed

section \<open>Properties\<close>

text \<open>C5: A mining payout adds to every owner's coins the subsidy times the owner's share of the hash
  rate, rounded down, and to nobody else's; it mints no other token and never more than the subsidy.\<close>

theorem miners_are_paid:
  assumes "tokens_ok g" and "pay_miners g = Some g'"
  shows "holding g' = (\<lambda>q e. holding g q e +
      (if q = bitcoin_token_id g then owned_rate g e * mining_subsidy g div total_rate g else 0)) \<and>
    (supply_of g' = (supply_of g)(bitcoin_token_id g := supply_of g' (bitcoin_token_id g))) \<and>
    supply_of g' (bitcoin_token_id g) \<le> supply_of g (bitcoin_token_id g) + mining_subsidy g"
  using pay_miners_books [OF assms] by (auto simp: fun_eq_iff)

theorem miners_are_paid_witness:
  "\<exists>g'. pay_miners example_board = Some g' \<and>
    supply_of g' (tok 101) \<le> supply_of example_board (tok 101) + mining_subsidy example_board"
proof -
  have "balance example_board (tok 104) (EntityID 111) = Some 5"
    using example_books(3) by (simp add: balance_Some)
  then have "boards_at example_board (EntityID 111) = Some [(3, 5)]"
    by (simp add: boards_at_def) (simp add: example_tokens_def)
  then have "owner_shares example_board (power_plants example_nfts) 0 [] = Some (9, [(EntityID 109, 9)])"
    by (simp add: example_nfts_def nft_index_def bt_get_def bt_or_def compute_hashrate_def mul_w_def add_w_def fits_def sub_w_def)
  moreover obtain t where "tok_index example_tokens (tok 101) = Some t" using example_has_token [of "tok 101"] by (auto simp: reg_has_def)
  moreover have "\<exists>g'. mint_tokens example_board (tok 101) (EntityID 109) 100 = Some g'"
    by (simp add: mint_tokens_def tok_index_mut_def tok_index_def bt_sum_def example_tokens_def bt_get_def mint_def bt_or_def add_w_def fits_def)
  ultimately have "\<exists>g'. pay_miners example_board = Some g'"
    by (auto simp: pay_miners_def payout_share_def mul_w_def div_w_def fits_def)
  with miners_are_paid [of example_board] show ?thesis by auto
qed

text \<open>The scheduler takes exactly the callbacks whose time has come, in the order of their
  times, and keeps exactly the others.\<close>

theorem due_in_time_order:
  assumes "sched_ok cbs"
  shows "sorted (map cb_time (due t cbs)) \<and> set (due t cbs) = {cb \<in> scheduled cbs. cb_time cb < t} \<and>
    scheduled (not_due t cbs) = {cb \<in> scheduled cbs. t \<le> cb_time cb} \<and> sched_ok (not_due t cbs)"
  using due_times [OF assms] sched_ok_not_due [OF assms] by simp

theorem due_in_time_order_witness:
  "due 5 (schedule (schedule [] (PowerPlantEventCb \<lparr>event_time = 7, event_period = 1\<rparr>))
      (PowerPlantEventCb \<lparr>event_time = 3, event_period = 1\<rparr>)) = [PowerPlantEventCb \<lparr>event_time = 3, event_period = 1\<rparr>] \<and>
    sorted (map cb_time (due 5 (schedule (schedule [] (PowerPlantEventCb \<lparr>event_time = 7, event_period = 1\<rparr>))
      (PowerPlantEventCb \<lparr>event_time = 3, event_period = 1\<rparr>))))"
  using due_in_time_order [OF sched_ok_schedule [OF sched_ok_schedule [of "[]"]], of 5]
  by (simp add: sched_ok_def due_def schedule_def bt_or_def bt_get_def)

end
