(* ===== verification/Move_Laws.thy ===== *)
theory Move_Laws
  imports Reachable
begin

text \<open>
  What each move does: the order in which a player's moves are accepted, purchases of NFTs,
  locked coins, minted plants, and the logs.
\<close>

section \<open>The order of moves\<close>

lemma play_unfinished:
  assumes "bt_get (users_by_key g) k = Some u" and "game_is_finished g = Some None"
    and "play env k g = Some (r, g')" and "cur = bt_or 0 (player_move_sequence g) u"
  shows "if move_sequence env = cur + 1 \<or> cur = 0 \<and> move_sequence env = 0
    then play_accepted (move_d env) (time_millis env) u
      (g\<lparr>player_move_sequence := bt_put u (move_sequence env) (player_move_sequence g)\<rparr>) = Some (r, g')
    else r = Inr () \<and> g' = g\<lparr>player_move_sequence := bt_put u cur (player_move_sequence g)\<rparr>"
proof -
  let ?acc = "move_sequence env = cur + 1 \<or> cur = 0 \<and> move_sequence env = 0"
  from assms(1-3) have "(do {
      expected \<leftarrow> add64 cur 1;
      if expected \<noteq> move_sequence env \<and> \<not> (cur = 0 \<and> move_sequence env = 0)
      then Some (Inr (), g\<lparr>player_move_sequence := bt_put u cur (player_move_sequence g)\<rparr>)
      else play_accepted (move_d env) (time_millis env) u
        (g\<lparr>player_move_sequence := bt_put u (move_sequence env) (player_move_sequence g)\<rparr>)
    }) = Some (r, g')"
    unfolding play_def assms(4) by (simp add: Let_def)
  then obtain n where "add64 cur 1 = Some n"
    and *: "(if n \<noteq> move_sequence env \<and> \<not> (cur = 0 \<and> move_sequence env = 0)
      then Some (Inr (), g\<lparr>player_move_sequence := bt_put u cur (player_move_sequence g)\<rparr>)
      else play_accepted (move_d env) (time_millis env) u
        (g\<lparr>player_move_sequence := bt_put u (move_sequence env) (player_move_sequence g)\<rparr>)) = Some (r, g')"
    by (cases "add64 cur 1") simp_all
  moreover from this(1) have "n = cur + 1" by (simp add: arith_checked)
  ultimately show ?thesis by (cases ?acc) (auto split: if_splits)
qed

lemma play_accepted_sequence:
  assumes ok: "board_ok g" and c: "customer g u" and e: "play_accepted d t u g = Some (r, g')"
  shows "player_move_sequence g' = player_move_sequence g"
proof (cases "sanitize d g")
  case (Inl er)
  with e show ?thesis by (simp add: play_accepted_def)
next
  case (Inr mv)
  with e obtain g1 g2 g3 where 1: "update_current_time u t g = Some g1" and 2: "run_callbacks g1 = Some g2"
    and 3: "add_to_event_log u (LogGameMove mv) g2 = Some g3"
    by (auto simp: play_accepted_def process_ticks_def bind_SomeD)
  with Inr e obtain r1 g4 where 4: "play_inner mv u g3 = Some (r1, g4)"
    by (cases "play_inner mv u g3") (auto simp: play_accepted_def process_ticks_def)
  note s1 = time_proceeds [OF ok 1]
  note a2 = run_callbacks_advances [OF proceedsD(1) [OF s1] 2]
  note s3 = event_log_proceeds [OF advancesD(1) [OF a2] 3]
  have c3: "customer g3 u" using proceedsD(3) [OF s1 c] advancesD(3) [OF a2] proceedsD(3) [OF s3] by blast
  note s4 = play_inner_conserves [OF proceedsD(1) [OF s3] c3 4]
  have "player_move_sequence g1 = player_move_sequence g"
    using 1 by (auto simp: update_current_time_def Let_def bind_SomeD)
  moreover have "player_move_sequence g2 = player_move_sequence g1"
    using advancesD(7) [OF a2] by (simp add: clock_def)
  moreover have "player_move_sequence g3 = player_move_sequence g2"
    using 3 by (auto simp: add_to_event_log_def bind_SomeD)
  moreover have "player_move_sequence g4 = player_move_sequence g3"
    using conservesD(7) [OF s4] by (simp add: clock_def)
  moreover have "player_move_sequence g' = player_move_sequence g4"
    using e Inr 1 2 3 4
    by (cases r1) (auto simp: play_accepted_def process_ticks_def bind_SomeD add_to_event_log_def)
  ultimately show ?thesis by simp
qed

text \<open>The number that a player's last accepted move had.\<close>

definition last_sequence :: "GameBoard \<Rightarrow> EntityID \<Rightarrow> u64" where
  "last_sequence g u = bt_or 0 (player_move_sequence g) u"

lemma last_sequence_put [simp]:
  "last_sequence (g\<lparr>player_move_sequence := bt_put u n (player_move_sequence g)\<rparr>) v =
    (if v = u then n else last_sequence g v)"
  by (simp add: last_sequence_def bt_or_def)

text \<open>The part of the board that a move is about: everything but the logs and the sequence numbers.\<close>

definition assets :: "GameBoard \<Rightarrow> TokenRegistry \<times> ConstantFunctionMarketMaker \<times> NFTRegistry \<times> NFTSaleRegistry \<times> CallbackRegistry \<times> u64" where
  "assets g = (tokens g, swap g, nfts g, nft_sales g, callbacks g, elapsed_time g)"

lemma play_order:
  assumes ok: "board_ok g" and u: "bt_get (users_by_key g) k = Some u"
    and fin: "game_is_finished g = Some None" and e: "play env k g = Some (r, g')"
  shows "\<not> (move_sequence env = last_sequence g u + 1 \<or> last_sequence g u = 0 \<and> move_sequence env = 0) \<Longrightarrow>
      r = Inr () \<and> assets g' = assets g \<and> last_sequence g' = last_sequence g"
    and "move_sequence env = last_sequence g u + 1 \<or> last_sequence g u = 0 \<and> move_sequence env = 0 \<Longrightarrow>
      last_sequence g' = (last_sequence g)(u := move_sequence env)"
proof -
  note p = play_unfinished [OF u fin e refl]
  assume "\<not> (move_sequence env = last_sequence g u + 1 \<or> last_sequence g u = 0 \<and> move_sequence env = 0)"
  with p have "r = Inr ()" and g': "g' = g\<lparr>player_move_sequence := bt_put u (last_sequence g u) (player_move_sequence g)\<rparr>"
    by (auto simp: last_sequence_def split: if_splits)
  then show "r = Inr () \<and> assets g' = assets g \<and> last_sequence g' = last_sequence g"
    unfolding g' by (auto simp: assets_def fun_eq_iff)
next
  note p = play_unfinished [OF u fin e refl]
  let ?g = "g\<lparr>player_move_sequence := bt_put u (move_sequence env) (player_move_sequence g)\<rparr>"
  assume "move_sequence env = last_sequence g u + 1 \<or> last_sequence g u = 0 \<and> move_sequence env = 0"
  with p have a: "play_accepted (move_d env) (time_millis env) u ?g = Some (r, g')"
    by (auto simp: last_sequence_def split: if_splits)
  have s: "proceeds g ?g" by (rule proceeds_rest [OF ok]) (simp_all add: wiring_def)
  from play_accepted_sequence [OF proceedsD(1) [OF s] proceedsD(3) [OF s user_customer [OF ok u]] a]
  have "last_sequence g' = last_sequence ?g" by (simp add: last_sequence_def fun_eq_iff)
  then show "last_sequence g' = (last_sequence g)(u := move_sequence env)" by (auto simp: fun_eq_iff)
qed

lemma play_finished:
  assumes "bt_get (users_by_key g) k = Some u" and "game_is_finished g = Some (Some reason)"
    and "play env k g = Some (r, g')"
  shows "r = Inl (GameIsFinished reason)" and "assets g' = assets g" and "last_sequence g' = last_sequence g"
    and "users_by_key g' = users_by_key g"
  using assms by (auto simp: play_def bind_SomeD add_to_event_log_def assets_def last_sequence_def fun_eq_iff)

text \<open>A sequence of moves, as the game's server feeds them to the board.\<close>

definition play_moves :: "(MoveEnvelope \<times> string) list \<Rightarrow> GameBoard \<Rightarrow> GameBoard option" where
  "play_moves = fold_opt (\<lambda>(env, k) g. map_option snd (play env k g))"

lemma play_keeps_order:
  assumes ok: "board_ok g" and e: "play env k g = Some (r, g')"
  shows "board_ok g'" and "users_by_key g' = users_by_key g" and "last_sequence g v \<le> last_sequence g' v"
proof -
  note p = play_proceeds [OF ok e]
  show "board_ok g'" "users_by_key g' = users_by_key g"
    using proceedsD(1,4) [OF p] by (simp_all add: wiring_def)
  show "last_sequence g v \<le> last_sequence g' v"
  proof (cases "bt_get (users_by_key g) k")
    case None
    with e show ?thesis by (simp add: play_def)
  next
    case (Some u)
    with e obtain fin where fin: "game_is_finished g = Some fin"
      by (cases "game_is_finished g") (auto simp: play_def)
    show ?thesis
    proof (cases fin)
      case None
      note o = play_order [OF ok Some fin [unfolded None] e]
      show ?thesis
      proof (cases "move_sequence env = last_sequence g u + 1 \<or> last_sequence g u = 0 \<and> move_sequence env = 0")
        case True
        from o(2) [OF this] True show ?thesis by auto
      next
        case False
        from o(1) [OF this] show ?thesis by simp
      qed
    next
      case r: (Some reason)
      with play_finished(3) [OF Some _ e] fin show ?thesis by simp
    qed
  qed
qed

lemma play_moves_keep_order:
  assumes "board_ok g" and "play_moves ms g = Some g'"
  shows "board_ok g' \<and> users_by_key g' = users_by_key g \<and> last_sequence g v \<le> last_sequence g' v"
  using assms
proof (induction ms arbitrary: g)
  case Nil
  then show ?case by (simp add: play_moves_def)
next
  case (Cons m ms)
  obtain env k where m: "m = (env, k)" by fastforce
  from Cons.prems(2) obtain r g1 where p: "play env k g = Some (r, g1)" and rest: "play_moves ms g1 = Some g'"
    by (auto simp: play_moves_def m bind_SomeD)
  note k = play_keeps_order [OF Cons.prems(1) p]
  from Cons.IH [OF k(1) rest] k(2) k(3) [of v] show ?case by auto
qed

text \<open>A move with a number that is not above the player's last one, and not 0.\<close>

lemma stale_move:
  assumes ok: "board_ok g" and u: "bt_get (users_by_key g) k = Some u" and e: "play env k g = Some (r, g')"
    and old: "move_sequence env \<le> last_sequence g u" "move_sequence env \<noteq> 0"
  shows "assets g' = assets g"
proof -
  from e u obtain fin where fin: "game_is_finished g = Some fin"
    by (cases "game_is_finished g") (auto simp: play_def)
  show ?thesis
  proof (cases fin)
    case None
    with play_order(1) [OF ok u _ e] fin old show ?thesis by auto
  next
    case (Some reason)
    with play_finished(2) [OF u _ e] fin show ?thesis by simp
  qed
qed

text \<open>What sanitization has accepted stays accepted: no board that comes later has lost a
  user, a token or an NFT.\<close>

lemma proceeds_sanitized:
  assumes "proceeds g g'" and "sanitize m g = Inr m'"
  shows "sanitize m g' = Inr m"
proof -
  from assms(1) have "users g' = users g" and "grows g g'" by (simp_all add: proceeds_def keeps_def wiring_def)
  with names_ok_later [of g m g'] assms(2) show ?thesis by (simp add: sanitize_Inr grows_def)
qed

lemma play_moves_proceed:
  assumes "board_ok g" and "play_moves ms g = Some g'"
  shows "proceeds g g'"
  using assms(2) [unfolded play_moves_def] proceeds_refl [OF assms(1)]
proof (rule fold_opt_invariant [where P = "proceeds g"])
  fix m x x'
  assume x: "proceeds g x" and p: "(\<lambda>(env, k) g. map_option snd (play env k g)) m x = Some x'"
  then obtain env k r where "play env k x = Some (r, x')" by (cases m) auto
  from proceeds_trans [OF x play_proceeds [OF proceedsD(1) [OF x] this]] show "proceeds g x'" .
qed

section \<open>Properties\<close>

text \<open>C12: A move that sanitization accepts on a well-formed board is unchanged, its tokens and NFTs are registered, the
  receiver of its tokens is a user or an NFT and its plant has a size. All this still holds on the
  board to which a play applies the move, after the clock was set and the callbacks that were due have run, and on the board
  after any further moves of anyone: nothing a move may name is ever unregistered.\<close>

theorem sanitized_moves_stay_valid:
  assumes "board_ok g" and "sanitize m g = Inr m'"
    and "update_current_time u t g = Some g1" and "process_ticks g1 = Some g2" and "play_moves ms g2 = Some g3"
  shows "m' = m \<and> names_ok g m \<and> (\<forall>h \<in> {g2, g3}. sanitize m h = Inr m \<and> names_ok h m)"
proof -
  note 1 = time_proceeds [OF assms(1,3)]
  note 2 = proceeds_trans [OF 1 proceeds_advances [OF run_callbacks_advances [OF proceedsD(1) [OF 1] assms(4) [unfolded process_ticks_def]]]]
  note 3 = proceeds_trans [OF 2 play_moves_proceed [OF proceedsD(1) [OF 2] assms(5)]]
  from proceeds_sanitized [OF 2 assms(2)] proceeds_sanitized [OF 3 assms(2)] assms(2)
  show ?thesis by (simp add: sanitize_Inr)
qed

theorem sanitized_moves_stay_valid_witness:
  "\<exists>g1 g2. update_current_time (EntityID 109) 5 example_board = Some g1 \<and> process_ticks g1 = Some g2 \<and>
    sanitize (SendTokens (EntityID 110) 10 (tok 101)) g2 = Inr (SendTokens (EntityID 110) 10 (tok 101))"
proof -
  have "sanitize (SendTokens (EntityID 110) 10 (tok 101)) example_board = Inr (SendTokens (EntityID 110) 10 (tok 101))"
    by (simp add: sanitize_Inr names_ok_def bt_get_def del: sanitize.simps)
  moreover have "\<exists>g1 g2. update_current_time (EntityID 109) 5 example_board = Some g1 \<and> process_ticks g1 = Some g2"
    by (simp add: update_current_time_def bt_vals_def Let_def median_elapsed_def get_or_zero_def process_ticks_def
      run_callbacks_def due_def not_due_def bt_or_def bt_get_def add_w_def fits_def)
  moreover have "play_moves [] g2 = Some g2" for g2 by (simp add: play_moves_def)
  ultimately show ?thesis using sanitized_moves_stay_valid [OF example_board_ok] by blast
qed

text \<open>C9: On a running game a player's move is accepted only with the number after the last one
  (or 0, before any other); then that number is stored, and no other player's changes. With any
  other number the board keeps its assets and its sequence numbers, and the result is still
  a success.\<close>

theorem moves_in_order:
  assumes "board_ok g" and "bt_get (users_by_key g) k = Some u" and "game_is_finished g = Some None"
    and "play env k g = Some (r, g')"
  shows "if move_sequence env = last_sequence g u + 1 \<or> last_sequence g u = 0 \<and> move_sequence env = 0
    then last_sequence g' = (last_sequence g)(u := move_sequence env)
    else r = Inr () \<and> assets g' = assets g \<and> last_sequence g' = last_sequence g"
  using play_order [OF assms] by simp

theorem moves_in_order_witness:
  "\<exists>g'. play \<lparr>move_d = SendTokens (EntityID 110) 10 (tok 101), move_sequence = 1, time_millis = 5\<rparr> ''alice'' example_board
      = Some (Inr (), g') \<and> last_sequence g' = (last_sequence example_board)(EntityID 109 := 1)"
  using example_play [of 1] moves_in_order [OF example_board_ok, of "''alice''" "EntityID 109"
    "\<lparr>move_d = SendTokens (EntityID 110) 10 (tok 101), move_sequence = 1, time_millis = 5\<rparr>"]
  by (fastforce simp: bt_get_def last_sequence_def bt_or_def)

text \<open>C10: A move cannot be replayed: once a player's number is at least that of a move, and the
  move's number is not 0, then after any number of moves of anyone it changes no asset.\<close>

theorem no_replay:
  assumes "board_ok g" and "bt_get (users_by_key g) k = Some u" and "move_sequence env \<le> last_sequence g u"
    and "move_sequence env \<noteq> 0" and "play_moves ms g = Some g1" and "play env k g1 = Some (r, g2)"
  shows "assets g2 = assets g1"
proof -
  note m = play_moves_keep_order [OF assms(1,5), of u]
  show ?thesis by (rule stale_move [of g1 k u]) (use m assms in auto)
qed

theorem no_replay_witness:
  "\<exists>r g2. play \<lparr>move_d = SendTokens (EntityID 110) 10 (tok 101), move_sequence = 1, time_millis = 5\<rparr> ''alice''
      (example_board\<lparr>player_move_sequence := [(EntityID 109, 1)]\<rparr>) = Some (r, g2) \<and>
    assets g2 = assets (example_board\<lparr>player_move_sequence := [(EntityID 109, 1)]\<rparr>)"
proof -
  let ?g = "example_board\<lparr>player_move_sequence := [(EntityID 109, 1)]\<rparr>"
  let ?e = "\<lparr>move_d = SendTokens (EntityID 110) 10 (tok 101), move_sequence = 1, time_millis = 5\<rparr>"
  have "board_ok ?g"
    by (rule proceedsD(1) [OF proceeds_rest [OF example_board_ok]]) (simp_all add: wiring_def)
  moreover have "\<exists>r g2. play ?e ''alice'' ?g = Some (r, g2)"
    by (simp add: play_def bt_get_def game_is_finished_def mul_w_def fits_def add_w_def bt_or_def)
  ultimately show ?thesis
    using no_replay [of ?g "''alice''" "EntityID 109" ?e "[]" ?g]
    by (fastforce simp: play_moves_def bt_get_def last_sequence_def bt_or_def)
qed

text \<open>The number 0 is not stored as used: as long as a player's last number is 0, a move with
  the number 0 is played in full, and leaves the last number at 0.\<close>

theorem zero_is_replayed:
  assumes "board_ok g" and "bt_get (users_by_key g) k = Some u" and "game_is_finished g = Some None"
    and "last_sequence g u = 0" and "move_sequence env = 0" and "play env k g = Some (r, g')"
  shows "play_accepted (move_d env) (time_millis env) u
      (g\<lparr>player_move_sequence := bt_put u 0 (player_move_sequence g)\<rparr>) = Some (r, g') \<and>
    last_sequence g' u = 0"
  using play_order(2) [OF assms(1,2,3,6)] play_unfinished [OF assms(2,3,6) refl] assms(4,5)
  by (simp_all add: last_sequence_def)

theorem zero_is_replayed_witness:
  "\<exists>g'. play \<lparr>move_d = SendTokens (EntityID 110) 10 (tok 101), move_sequence = 0, time_millis = 5\<rparr> ''alice'' example_board
      = Some (Inr (), g') \<and> last_sequence g' (EntityID 109) = 0"
  using example_play [of 0] zero_is_replayed [OF example_board_ok, of "''alice''" "EntityID 109"
    "\<lparr>move_d = SendTokens (EntityID 110) 10 (tok 101), move_sequence = 0, time_millis = 5\<rparr>"]
  by (fastforce simp: bt_get_def last_sequence_def bt_or_def)

end
