(* ===== verification/Messages.thy ===== *)
theory Messages
  imports Prelude
begin

text \<open>
  Signed messages (\<open>common/attest-messages/src/lib.rs\<close>, \<open>authenticated.rs\<close>, \<open>checkpoints.rs\<close>):
  envelopes, their hashes, signing and authentication. Canonical JSON, SHA-256 and the Schnorr
  operations of secp256k1 are library code: they are the fields of \<open>Crypto\<close>, an argument of
  every definition that uses them, and \<open>crypto_ok\<close> is what is documented of them.
\<close>

section \<open>Data\<close>

type_synonym XOnlyPublicKey = string
type_synonym u8s = "nat list"

text \<open>The 256-bit digest of an envelope, as a number.\<close>

datatype CanonicalEnvelopeHash = CanonicalEnvelopeHash (digest: nat)

instantiation CanonicalEnvelopeHash :: linorder
begin
definition less_eq_CanonicalEnvelopeHash :: "CanonicalEnvelopeHash \<Rightarrow> CanonicalEnvelopeHash \<Rightarrow> bool" where
  "less_eq_CanonicalEnvelopeHash a b = (digest a \<le> digest b)"
definition less_CanonicalEnvelopeHash :: "CanonicalEnvelopeHash \<Rightarrow> CanonicalEnvelopeHash \<Rightarrow> bool" where
  "less_CanonicalEnvelopeHash a b = (digest a < digest b)"
instance
  by standard
    (auto simp: less_eq_CanonicalEnvelopeHash_def less_CanonicalEnvelopeHash_def CanonicalEnvelopeHash.expand)
end

definition genesis_hash :: CanonicalEnvelopeHash where
  "genesis_hash = CanonicalEnvelopeHash 0"

definition is_genesis :: "CanonicalEnvelopeHash \<Rightarrow> bool" where
  "is_genesis h = (h = genesis_hash)"

datatype PrecomittedNonce = PrecomittedNonce (secret: nat)
datatype PrecomittedPublicNonce = PrecomittedPublicNonce (nonce_key: XOnlyPublicKey)

record Unsigned =
  signature :: "u8s option"

record Ancestors =
  prev_msg :: CanonicalEnvelopeHash
  anc_genesis :: CanonicalEnvelopeHash

text \<open>Five block hashes with their heights, the most recent first.\<close>

type_synonym BitcoinCheckPoints = "(nat \<times> int) list"

definition default_checkpoints :: BitcoinCheckPoints where
  "default_checkpoints = replicate 5 (0, - 1)"

record Header =
  hdr_key :: XOnlyPublicKey
  next_nonce :: PrecomittedPublicNonce
  ancestors :: "Ancestors option"
  tips :: "(XOnlyPublicKey \<times> int \<times> CanonicalEnvelopeHash) list"
  height :: int
  sent_time_ms :: int
  unsigned_part :: Unsigned
  checkpoints :: BitcoinCheckPoints

record 'm GenericEnvelope =
  header :: Header
  msg :: 'm
  cache :: "CanonicalEnvelopeHash option"

text \<open>A wrapper that only the authenticating functions make.\<close>

datatype 'a Authenticated = Authenticated (inner: 'a)

datatype AuthenticationError =
  SerializerError string | NoSignature | ValidationError string | HashingError | MissingAncestors | NoAncestorsForGenesis

datatype SigningError = SigningSerializerError string | SignHashingError

section \<open>The libraries\<close>

record 'm Crypto =
  canonical_json :: "Header \<Rightarrow> 'm \<Rightarrow> string"
  sha256 :: "string \<Rightarrow> nat"
  verify_schnorr :: "u8s \<Rightarrow> nat \<Rightarrow> XOnlyPublicKey \<Rightarrow> string + unit"
  sign_schnorr :: "nat \<Rightarrow> nat \<Rightarrow> nat \<Rightarrow> u8s"
  public_key :: "nat \<Rightarrow> XOnlyPublicKey"
  from_slice :: "u8s \<Rightarrow> XOnlyPublicKey option"

text \<open>
  BIP 340: a signature made with a secret key and a nonce has 64 bytes, verifies under the
  public key of the secret key, and starts with the public key of the nonce.
\<close>

definition crypto_ok :: "'m Crypto \<Rightarrow> bool" where
  "crypto_ok c = (\<forall>sk n m. verify_schnorr c (sign_schnorr c n m sk) m (public_key c sk) = Inr () \<and>
     length (sign_schnorr c n m sk) = 64 \<and>
     from_slice c (take 32 (sign_schnorr c n m sk)) = Some (public_key c n))"

section \<open>Hashes\<close>

text \<open>
  The cached hash is not serialized, so it is not hashed. The code panics (\<open>expect\<close>) when a value cannot be
  written as canonical JSON; \<open>canonical_json\<close> is a total function here, so the model is of the messages that can
  be written, which those of the program are.
\<close>

definition compute_hash :: "'m Crypto \<Rightarrow> 'm GenericEnvelope \<Rightarrow> CanonicalEnvelopeHash" where
  "compute_hash c e = CanonicalEnvelopeHash (sha256 c (canonical_json c (header e) (msg e)))"

definition canonicalized_hash_ref :: "'m Crypto \<Rightarrow> 'm GenericEnvelope \<Rightarrow> CanonicalEnvelopeHash" where
  "canonicalized_hash_ref c e = (case cache e of Some h \<Rightarrow> h | None \<Rightarrow> compute_hash c e)"

definition new_envelope :: "'m Crypto \<Rightarrow> Header \<Rightarrow> 'm \<Rightarrow> 'm GenericEnvelope" where
  "new_envelope c h m =
     (let s = \<lparr>header = h, msg = m, cache = None\<rparr> in s\<lparr>cache := Some (canonicalized_hash_ref c s)\<rparr>)"

definition get_genesis_hash :: "'m Crypto \<Rightarrow> 'm GenericEnvelope \<Rightarrow> CanonicalEnvelopeHash" where
  "get_genesis_hash c e =
     (case ancestors (header e) of Some a \<Rightarrow> anc_genesis a | None \<Rightarrow> canonicalized_hash_ref c e)"

definition envelope_signature :: "'m GenericEnvelope \<Rightarrow> u8s option" where
  "envelope_signature e = signature (unsigned_part (header e))"

definition set_signature :: "u8s option \<Rightarrow> 'm GenericEnvelope \<Rightarrow> 'm GenericEnvelope" where
  "set_signature s e = e\<lparr>header := header e\<lparr>unsigned_part := \<lparr>signature = s\<rparr>\<rparr>\<rparr>"

definition extract_used_nonce :: "'m Crypto \<Rightarrow> 'm GenericEnvelope \<Rightarrow> PrecomittedPublicNonce option" where
  "extract_used_nonce c e = do {
     s \<leftarrow> envelope_signature e;
     k \<leftarrow> from_slice c (take 32 s);
     Some (PrecomittedPublicNonce k)
   }"

definition extract_sig_s :: "'m GenericEnvelope \<Rightarrow> u8s option" where
  "extract_sig_s e = do { s \<leftarrow> envelope_signature e; Some (take 32 (drop 32 s)) }"

text \<open>The digest to sign; there is none while a signature is present.\<close>

definition signature_digest :: "'m Crypto \<Rightarrow> 'm GenericEnvelope \<Rightarrow> nat option" where
  "signature_digest c e =
     (if envelope_signature e \<noteq> None then None else Some (digest (canonicalized_hash_ref c e)))"

definition signature_digest_mut :: "'m Crypto \<Rightarrow> 'm GenericEnvelope \<Rightarrow> nat" where
  "signature_digest_mut c e = digest (canonicalized_hash_ref c ((set_signature None e)\<lparr>cache := None\<rparr>))"

section \<open>Signing and authenticating\<close>

definition sign_with ::
  "'m Crypto \<Rightarrow> nat \<Rightarrow> PrecomittedNonce \<Rightarrow> 'm GenericEnvelope \<Rightarrow> (SigningError + unit) \<times> 'm GenericEnvelope" where
  "sign_with c keypair nonce e =
     (let e1 = (set_signature None e)\<lparr>cache := None\<rparr> in
      case signature_digest c e1 of
        None \<Rightarrow> (Inl SignHashingError, e1)
      | Some m \<Rightarrow>
          let e2 = set_signature (Some (sign_schnorr c (secret nonce) m keypair)) e1
          in (Inr (), e2\<lparr>cache := Some (compute_hash c e2)\<rparr>))"

definition check_ancestors :: "Header \<Rightarrow> AuthenticationError + unit" where
  "check_ancestors h =
     (if height h = 0 \<and> ancestors h \<noteq> None then Inl NoAncestorsForGenesis
      else if height h > 0 \<and> ancestors h = None then Inl MissingAncestors
      else Inr ())"

definition self_authenticate ::
  "'m Crypto \<Rightarrow> 'm GenericEnvelope \<Rightarrow> AuthenticationError + 'm GenericEnvelope Authenticated" where
  "self_authenticate c e =
     (case check_ancestors (header e) of
        Inl er \<Rightarrow> Inl er
      | Inr _ \<Rightarrow>
          (case envelope_signature e of
             None \<Rightarrow> Inl NoSignature
           | Some sig \<Rightarrow>
               (let redacted = (set_signature None e)\<lparr>cache := None\<rparr> in
                case signature_digest c redacted of
                  None \<Rightarrow> Inl HashingError
                | Some m \<Rightarrow>
                    (case verify_schnorr c sig m (hdr_key (header e)) of
                       Inl er \<Rightarrow> Inl (ValidationError er)
                     | Inr _ \<Rightarrow> Inr (Authenticated e)))))"

definition solemnly_swear_self_authenticated ::
  "'m GenericEnvelope \<Rightarrow> AuthenticationError + 'm GenericEnvelope Authenticated" where
  "solemnly_swear_self_authenticated e =
     (case check_ancestors (header e) of Inl er \<Rightarrow> Inl er | Inr _ \<Rightarrow> Inr (Authenticated e))"

section \<open>Laws\<close>

lemma signature_simps [simp]:
  "envelope_signature (set_signature s e) = s" "envelope_signature (e\<lparr>cache := h\<rparr>) = envelope_signature e"
  "set_signature s (set_signature t e) = set_signature s e"
  "set_signature s (e\<lparr>cache := h\<rparr>) = (set_signature s e)\<lparr>cache := h\<rparr>"
  "cache (set_signature s e) = cache e" "msg (set_signature s e) = msg e"
  "hdr_key (header (set_signature s e)) = hdr_key (header e)"
  "height (header (set_signature s e)) = height (header e)"
  "ancestors (header (set_signature s e)) = ancestors (header e)"
  by (simp_all add: envelope_signature_def set_signature_def)

lemma compute_hash_cache [simp]: "compute_hash c (e\<lparr>cache := h\<rparr>) = compute_hash c e"
  by (simp add: compute_hash_def)

lemma check_ancestors_set [simp]: "check_ancestors (header (set_signature s e)) = check_ancestors (header e)"
  by (simp add: check_ancestors_def)

text \<open>The digest that is signed does not depend on the signature or the cache.\<close>

definition bare_digest :: "'m Crypto \<Rightarrow> 'm GenericEnvelope \<Rightarrow> nat" where
  "bare_digest c e = digest (compute_hash c (set_signature None e))"

lemma bare_digest_simps [simp]:
  "bare_digest c (set_signature s e) = bare_digest c e" "bare_digest c (e\<lparr>cache := h\<rparr>) = bare_digest c e"
  by (simp_all add: bare_digest_def)

lemma signature_digest_bare [simp]:
  "signature_digest c ((set_signature None e)\<lparr>cache := None\<rparr>) = Some (bare_digest c e)"
  by (simp add: signature_digest_def bare_digest_def canonicalized_hash_ref_def)

lemma sign_with_result:
  "sign_with c sk n e =
    (let e' = set_signature (Some (sign_schnorr c (secret n) (bare_digest c e) sk)) e
     in (Inr (), e'\<lparr>cache := Some (compute_hash c e')\<rparr>))"
  by (simp add: sign_with_def Let_def)

lemma self_authenticate_Inr:
  "(self_authenticate c e = Inr a) =
    (check_ancestors (header e) = Inr () \<and> a = Authenticated e \<and>
     (\<exists>s. envelope_signature e = Some s \<and> verify_schnorr c s (bare_digest c e) (hdr_key (header e)) = Inr ()))"
  by (auto simp: self_authenticate_def Let_def split: sum.splits option.splits)

text \<open>An envelope whose cache, if there is one, is its hash.\<close>

definition cache_ok :: "'m Crypto \<Rightarrow> 'm GenericEnvelope \<Rightarrow> bool" where
  "cache_ok c e = (\<forall>h. cache e = Some h \<longrightarrow> h = compute_hash c e)"

lemma cache_ok_hash: "cache_ok c e \<Longrightarrow> canonicalized_hash_ref c e = compute_hash c e"
  by (simp add: cache_ok_def canonicalized_hash_ref_def split: option.splits)

lemma cache_ok_new: "cache_ok c (new_envelope c h m)"
  by (simp add: cache_ok_def new_envelope_def canonicalized_hash_ref_def compute_hash_def)

lemma cache_ok_sign: "cache_ok c (snd (sign_with c sk n e))"
  by (simp add: cache_ok_def sign_with_result Let_def)

end
