(* ===== verification/Message_Laws.thy ===== *)
theory Message_Laws
  imports Messages
begin

text \<open>
  What signing and authenticating an envelope promise each other, under \<open>crypto_ok\<close>, and a small
  instance of the libraries on which the theorems are evaluated.
\<close>

section \<open>A small instance of the libraries\<close>

text \<open>
  A secret key \<open>n\<close> has the public key of \<open>n\<close> letters; a signature is 32 times the nonce and
  32 times the sum of message and key.
\<close>

definition toy_public_key :: "nat \<Rightarrow> XOnlyPublicKey" where
  "toy_public_key n = replicate n CHR ''x''"

definition toy_crypto :: "string Crypto" where
  "toy_crypto = \<lparr>canonical_json = (\<lambda>h m. m), sha256 = length,
     verify_schnorr = (\<lambda>s m k. if drop 32 s = replicate 32 (m + length k) then Inr () else Inl ''bad''),
     sign_schnorr = (\<lambda>n m sk. replicate 32 n @ replicate 32 (m + sk)),
     public_key = toy_public_key,
     from_slice = (\<lambda>s. Some (toy_public_key (hd s)))\<rparr>"

lemma toy_crypto_ok: "crypto_ok toy_crypto"
  by (simp add: crypto_ok_def toy_crypto_def toy_public_key_def)

definition toy_header :: Header where
  "toy_header = \<lparr>hdr_key = toy_public_key 3, next_nonce = PrecomittedPublicNonce (toy_public_key 9),
     ancestors = None, tips = [], height = 0, sent_time_ms = 5, unsigned_part = \<lparr>signature = None\<rparr>,
     checkpoints = default_checkpoints\<rparr>"

definition toy_envelope :: "string GenericEnvelope" where
  "toy_envelope = new_envelope toy_crypto toy_header ''hi''"

lemma toy_envelope_simps:
  "header toy_envelope = toy_header" "msg toy_envelope = ''hi''"
  "cache toy_envelope = Some (CanonicalEnvelopeHash 2)"
  by (simp_all add: toy_envelope_def new_envelope_def toy_crypto_def canonicalized_hash_ref_def compute_hash_def)

section \<open>Signing, then authenticating\<close>

lemma authenticate_signed:
  assumes "crypto_ok c" and "check_ancestors (header e) = Inr ()" and "hdr_key (header e) = public_key c sk"
  shows "self_authenticate c (snd (sign_with c sk n e)) = Inr (Authenticated (snd (sign_with c sk n e)))"
  using assms by (simp add: self_authenticate_Inr sign_with_result Let_def crypto_ok_def)

lemma used_nonce_signed:
  "crypto_ok c \<Longrightarrow>
    extract_used_nonce c (snd (sign_with c sk n e)) = Some (PrecomittedPublicNonce (public_key c (secret n)))"
  by (simp add: extract_used_nonce_def sign_with_result Let_def crypto_ok_def)

lemma digest_signed: "signature_digest_mut c (snd (sign_with c sk n e)) = signature_digest_mut c e"
  by (simp add: signature_digest_mut_def sign_with_result Let_def canonicalized_hash_ref_def compute_hash_def
      set_signature_def)

text \<open>C14: An envelope whose key belongs to the signer and whose height agrees with its ancestors is
  authenticated after it is signed, whatever signature and cached hash it carried before. Signing
  keeps the message and the digest that is signed, the cached hash is the hash of the signed
  envelope, and the nonce that was used is read back from the signature.\<close>

theorem sign_then_authenticate:
  assumes "crypto_ok c" and "check_ancestors (header e) = Inr ()" and "hdr_key (header e) = public_key c sk"
  shows "case sign_with c sk n e of (r, e') \<Rightarrow>
    r = Inr () \<and> self_authenticate c e' = Inr (Authenticated e') \<and> msg e' = msg e \<and>
    signature_digest_mut c e' = signature_digest_mut c e \<and> canonicalized_hash_ref c e' = compute_hash c e' \<and>
    extract_used_nonce c e' = Some (PrecomittedPublicNonce (public_key c (secret n)))"
  using authenticate_signed [OF assms, of n] used_nonce_signed [OF assms(1), of sk n e]
    digest_signed [of c sk n e] cache_ok_hash [OF cache_ok_sign, of c sk n e]
  by (cases "sign_with c sk n e") (auto simp: sign_with_result Let_def)

theorem sign_then_authenticate_witness:
  "case sign_with toy_crypto 3 (PrecomittedNonce 7) toy_envelope of (r, e') \<Rightarrow>
    r = Inr () \<and> self_authenticate toy_crypto e' = Inr (Authenticated e') \<and> msg e' = msg toy_envelope \<and>
    signature_digest_mut toy_crypto e' = signature_digest_mut toy_crypto toy_envelope \<and>
    canonicalized_hash_ref toy_crypto e' = compute_hash toy_crypto e' \<and>
    extract_used_nonce toy_crypto e' =
      Some (PrecomittedPublicNonce (public_key toy_crypto (secret (PrecomittedNonce 7))))"
  by (rule sign_then_authenticate [OF toy_crypto_ok])
    (simp_all add: toy_envelope_simps toy_header_def check_ancestors_def toy_crypto_def)

section \<open>What is authenticated\<close>

text \<open>An envelope is authenticated exactly when it carries a signature that verifies for its key
  and for the digest of the envelope without signature and cache, and its height agrees with its
  ancestors: 0 without, positive with them. At a negative height both are accepted. The result is
  the envelope itself.\<close>

theorem authenticate_exact:
  "self_authenticate c e = Inr a \<longleftrightarrow>
    a = Authenticated e \<and>
    ((height (header e) = 0 \<and> ancestors (header e) = None) \<or>
     (0 < height (header e) \<and> (\<exists>p. ancestors (header e) = Some p)) \<or>
     height (header e) < 0) \<and>
    (\<exists>s. envelope_signature e = Some s \<and>
         verify_schnorr c s (signature_digest_mut c e) (hdr_key (header e)) = Inr ())"
proof -
  have "signature_digest_mut c e = bare_digest c e"
    by (simp add: signature_digest_mut_def bare_digest_def canonicalized_hash_ref_def)
  then show ?thesis
    by (cases "ancestors (header e)") (auto simp: self_authenticate_Inr check_ancestors_def)
qed

text \<open>The hash cached with an envelope plays no part in its authentication.\<close>

lemma cache_is_not_trusted:
  "map_sum id (\<lambda>a. cache_update (\<lambda>_. h) (inner a)) (self_authenticate c e) =
   map_sum id inner (self_authenticate c (e\<lparr>cache := h\<rparr>))"
  by (auto simp: self_authenticate_def Let_def split: sum.splits option.splits)

end
