(* ===== verification/Sequencer.thy ===== *)
theory Sequencer
  imports Messages Board
begin

text \<open>
  The sequencer (\<open>common/game-sequencer/src/lib.rs\<close> and \<open>game_specific.rs\<close>): the host's chain of
  envelopes fixes the order of the players' envelopes. \<open>OfflineSequencer\<close> puts a finished
  collection in that order; \<open>GenericSequencer\<close> does it while batches and envelopes still arrive,
  as three tasks that share a cache and two channels. The data of \<open>game-host-messages\<close> and
  \<open>game-player-messages\<close> that travel in the envelopes are here too.

  A \<open>HashMap\<close> is an association list with distinct keys, in any order; the channels are lists.
\<close>

section \<open>What the envelopes carry\<close>

record Peer =
  service_url :: string
  port :: nat

datatype BroadcastByHost =
  GameSetupByHost GameSetup | Sequence "CanonicalEnvelopeHash list" | NewPeer Peer | HostHeartbeat

definition is_sequence :: "BroadcastByHost \<Rightarrow> bool" where
  "is_sequence b = (case b of Sequence _ \<Rightarrow> True | _ \<Rightarrow> False)"

record 'a Channelized =
  channel_data :: 'a
  channel :: string

type_synonym HostEnvelope = "BroadcastByHost Channelized GenericEnvelope"

text \<open>A JSON value and a PSBT are their texts.\<close>

datatype ParticipantAction =
  MoveAction MoveEnvelope | Custom string | PsbtSigningCoordination "string Channelized"

definition new_participant_action :: "GameMove \<Rightarrow> u64 \<Rightarrow> u64 \<Rightarrow> ParticipantAction" where
  "new_participant_action d sequence time =
     MoveAction \<lparr>move_d = d, move_sequence = sequence, time_millis = time\<rparr>"

type_synonym 'v hash_map = "(CanonicalEnvelopeHash \<times> 'v) list"

definition hm_remove :: "CanonicalEnvelopeHash \<Rightarrow> 'v hash_map \<Rightarrow> 'v hash_map" where
  "hm_remove h m = filter (\<lambda>e. fst e \<noteq> h) m"

section \<open>From raw envelopes to batches\<close>

record 'm UnauthenticatedRawSequencer =
  unauth_envelopes :: "HostEnvelope list"
  unauth_cache :: "'m GenericEnvelope hash_map"

record 'm RawSequencer =
  sequencer_envelopes :: "HostEnvelope Authenticated list"
  raw_cache :: "'m GenericEnvelope Authenticated hash_map"

record 'm OfflineSequencer =
  batches_to_sequence :: "CanonicalEnvelopeHash list list"
  msg_cache :: "'m GenericEnvelope Authenticated hash_map"

datatype SequencerError =
  BadMessageType | MessageFromWrongEntity | MissingTip | Gap | SequencerAuthenticationError

definition raw_from_unauthenticated ::
  "'m UnauthenticatedRawSequencer \<Rightarrow> AuthenticationError + 'm RawSequencer" where
  "raw_from_unauthenticated v =
     (case collect_results solemnly_swear_self_authenticated (unauth_envelopes v) of
        Inl e \<Rightarrow> Inl e
      | Inr es \<Rightarrow>
          (case collect_results (\<lambda>(h, e). map_sum id (Pair h) (solemnly_swear_self_authenticated e)) (unauth_cache v) of
             Inl e \<Rightarrow> Inl e
           | Inr c \<Rightarrow> Inr \<lparr>sequencer_envelopes = es, raw_cache = c\<rparr>))"

text \<open>\<open>windows(2).any(..)\<close>, whose condition may panic.\<close>

fun windows_any :: "('a \<Rightarrow> 'a \<Rightarrow> bool option) \<Rightarrow> 'a list \<Rightarrow> bool option" where
  "windows_any P (a # b # rest) = do {
     x \<leftarrow> P a b;
     if x then Some True else windows_any P (b # rest)
   }"
| "windows_any P _ = Some False"

definition add_i64 :: "int \<Rightarrow> int \<Rightarrow> int option" where
  "add_i64 a b = (if - (2 ^ 63) \<le> a + b \<and> a + b < 2 ^ 63 then Some (a + b) else None)"

definition host_height :: "HostEnvelope Authenticated \<Rightarrow> int" where
  "host_height e = height (header (inner e))"

definition host_key :: "HostEnvelope Authenticated \<Rightarrow> XOnlyPublicKey" where
  "host_key e = hdr_key (header (inner e))"

definition batch_of :: "HostEnvelope Authenticated \<Rightarrow> CanonicalEnvelopeHash list option" where
  "batch_of e = (case channel_data (msg (inner e)) of Sequence s \<Rightarrow> Some s | _ \<Rightarrow> None)"

definition offline_from_raw :: "'m RawSequencer \<Rightarrow> (SequencerError + 'm OfflineSequencer) option" where
  "offline_from_raw v =
     (let es = sequencer_envelopes v in
      if es \<noteq> [] \<and> host_height (hd es) \<noteq> 0 then Some (Inl MissingTip)
      else do {
        gap \<leftarrow> windows_any (\<lambda>a b. do { n \<leftarrow> add_i64 (host_height a) 1; Some (n \<noteq> host_height b) }) es;
        if gap then Some (Inl Gap)
        else do {
          other \<leftarrow> windows_any (\<lambda>a b. Some (host_key a \<noteq> host_key b)) es;
          if other then Some (Inl MessageFromWrongEntity)
          else Some (Inr \<lparr>batches_to_sequence = List.map_filter batch_of es, msg_cache = raw_cache v\<rparr>)
        }
      })"

section \<open>Sequencing a finished collection\<close>

datatype 'e SequenceingError = MappingError 'e | MissingEnvelope CanonicalEnvelopeHash

fun sequence_map ::
  "('a \<Rightarrow> 'e + 'r option) \<Rightarrow> CanonicalEnvelopeHash list \<Rightarrow> 'a hash_map \<Rightarrow>
   ('e SequenceingError + 'r list) \<times> 'a hash_map" where
  "sequence_map f [] c = (Inr [], c)"
| "sequence_map f (h # hs) c =
     (case map_of c h of
        None \<Rightarrow> (Inl (MissingEnvelope h), c)
      | Some e \<Rightarrow>
          (case f e of
             Inl er \<Rightarrow> (Inl (MappingError er), hm_remove h c)
           | Inr r \<Rightarrow>
               (case sequence_map f hs (hm_remove h c) of
                  (Inl er, c') \<Rightarrow> (Inl er, c')
                | (Inr rs, c') \<Rightarrow> (Inr (case r of None \<Rightarrow> rs | Some x \<Rightarrow> x # rs), c'))))"

definition directly_sequence_map ::
  "('m GenericEnvelope Authenticated \<Rightarrow> 'e + 'r option) \<Rightarrow> 'm OfflineSequencer \<Rightarrow>
   ('e SequenceingError + 'r list) \<times> 'm OfflineSequencer" where
  "directly_sequence_map f s =
     (case sequence_map f (concat (batches_to_sequence s)) (msg_cache s) of
        (r, c) \<Rightarrow> (r, s\<lparr>msg_cache := c\<rparr>))"

definition directly_sequence ::
  "'m OfflineSequencer \<Rightarrow> (unit SequenceingError + 'm GenericEnvelope Authenticated list) \<times> 'm OfflineSequencer" where
  "directly_sequence s = directly_sequence_map (\<lambda>a. Inr (Some a)) s"

definition read_move ::
  "ParticipantAction GenericEnvelope Authenticated \<Rightarrow> unit + (MoveEnvelope \<times> XOnlyPublicKey) option" where
  "read_move m =
     (case msg (inner m) of
        MoveAction me \<Rightarrow> Inr (Some (me, hdr_key (header (inner m))))
      | Custom _ \<Rightarrow> Inr None
      | PsbtSigningCoordination _ \<Rightarrow> Inr None)"

definition extracted_move_envelopes ::
  "ParticipantAction OfflineSequencer \<Rightarrow> unit SequenceingError + (MoveEnvelope \<times> XOnlyPublicKey) list" where
  "extracted_move_envelopes v = fst (directly_sequence_map read_move v)"

text \<open>
  The same collection behind a channel and locks; \<open>try_lock\<close> fails while somebody else holds a lock.
\<close>

record 'm OfflineDBFetcher =
  fetcher_batches :: "CanonicalEnvelopeHash list list"
  batches_locked :: bool
  fetcher_cache :: "'m GenericEnvelope Authenticated hash_map"
  cache_locked :: bool

definition new_fetcher ::
  "CanonicalEnvelopeHash list list \<Rightarrow> 'm GenericEnvelope Authenticated hash_map \<Rightarrow> 'm OfflineDBFetcher" where
  "new_fetcher bs c = \<lparr>fetcher_batches = bs, batches_locked = False, fetcher_cache = c, cache_locked = False\<rparr>"

definition fetcher_of_offline :: "'m OfflineSequencer \<Rightarrow> 'm OfflineDBFetcher" where
  "fetcher_of_offline s = new_fetcher (batches_to_sequence s) (msg_cache s)"

definition offline_of_fetcher :: "'m OfflineDBFetcher \<Rightarrow> unit + 'm OfflineSequencer" where
  "offline_of_fetcher d =
     (if batches_locked d then Inl ()
      else if cache_locked d then Inl ()
      else Inr \<lparr>batches_to_sequence = fetcher_batches d, msg_cache = fetcher_cache d\<rparr>)"

definition fetcher_directly_sequence ::
  "'m OfflineDBFetcher \<Rightarrow> unit SequenceingError + 'm GenericEnvelope Authenticated list" where
  "fetcher_directly_sequence d =
     (case offline_of_fetcher d of
        Inl e \<Rightarrow> Inl (MappingError e)
      | Inr s \<Rightarrow> fst (directly_sequence_map (\<lambda>a. Inr (Some a)) s))"

lemma fetcher_sequences:
  "fetcher_directly_sequence (fetcher_of_offline s) = fst (directly_sequence s)"
  by (cases s) (simp add: fetcher_directly_sequence_def fetcher_of_offline_def new_fetcher_def offline_of_fetcher_def
      directly_sequence_def)

section \<open>Sequencing while envelopes arrive\<close>

text \<open>
  The state of \<open>GenericSequencer\<close>: the channel of batches, the batch at hand, whether the batcher
  waits for a notification, the cache, the channel of envelopes and the channel of moves.
\<close>

record ('a, 'r) GenericSequencer =
  input_batches :: "CanonicalEnvelopeHash list list"
  envelope_hashes :: "CanonicalEnvelopeHash list"
  should_wait :: bool
  envs :: "'a hash_map"
  output_envelope :: "'a list"
  output_move :: "'r list"

definition new_sequencer :: "('a, 'r) GenericSequencer" where
  "new_sequencer = \<lparr>input_batches = [], envelope_hashes = [], should_wait = False, envs = [],
     output_envelope = [], output_move = []\<rparr>"

text \<open>
  The steps of the batcher and of the deserializer, and the wake-up of the batcher: the code wakes it with
  \<open>notify_waiters\<close> when envelopes arrive, the model at any time, which covers every such moment.
\<close>

inductive seq_step :: "('a \<Rightarrow> 'e + 'r) \<Rightarrow> ('a, 'r) GenericSequencer \<Rightarrow> ('a, 'r) GenericSequencer \<Rightarrow> bool"
  for f :: "'a \<Rightarrow> 'e + 'r" where
  recv_batch: "envelope_hashes s = [] \<Longrightarrow> input_batches s = b # bs \<Longrightarrow>
    seq_step f s (s\<lparr>input_batches := bs, envelope_hashes := b\<rparr>)"
| occupied: "envelope_hashes s = h # hs \<Longrightarrow> \<not> should_wait s \<Longrightarrow> map_of (envs s) h = Some e \<Longrightarrow>
    seq_step f s (s\<lparr>envelope_hashes := hs, envs := hm_remove h (envs s), output_envelope := output_envelope s @ [e]\<rparr>)"
| vacant: "envelope_hashes s = h # hs \<Longrightarrow> \<not> should_wait s \<Longrightarrow> map_of (envs s) h = None \<Longrightarrow>
    seq_step f s (s\<lparr>should_wait := True\<rparr>)"
| notified: "should_wait s \<Longrightarrow> seq_step f s (s\<lparr>should_wait := False\<rparr>)"
| extracted: "output_envelope s = e # es \<Longrightarrow> f e = Inr x \<Longrightarrow>
    seq_step f s (s\<lparr>output_envelope := es, output_move := output_move s @ [x]\<rparr>)"
| skipped: "output_envelope s = e # es \<Longrightarrow> f e = Inl er \<Longrightarrow>
    seq_step f s (s\<lparr>output_envelope := es\<rparr>)"

text \<open>
  A run, with the batches the host has committed to and the envelopes the database has
  delivered so far; the database delivers an envelope once.
\<close>

inductive seq_run ::
  "('a \<Rightarrow> 'e + 'r) \<Rightarrow> CanonicalEnvelopeHash list list \<Rightarrow> 'a hash_map \<Rightarrow> ('a, 'r) GenericSequencer \<Rightarrow> bool"
  for f :: "'a \<Rightarrow> 'e + 'r" where
  init: "seq_run f [] [] new_sequencer"
| batch: "seq_run f bs ms s \<Longrightarrow> seq_run f (bs @ [b]) ms (s\<lparr>input_batches := input_batches s @ [b]\<rparr>)"
| arrival: "seq_run f bs ms s \<Longrightarrow> h \<notin> fst ` set ms \<Longrightarrow>
    seq_run f bs ((h, e) # ms) (s\<lparr>envs := (h, e) # envs s\<rparr>)"
| step: "seq_run f bs ms s \<Longrightarrow> seq_step f s s' \<Longrightarrow> seq_run f bs ms s'"

text \<open>
  One round of \<open>OnlineDBFetcher::start_sequencer\<close>: the answer of the database for the host's
  envelope at the height \<open>count\<close> (a failure, nothing yet, or the envelope), the batches sent so
  far, and the peers inserted.
\<close>

record Poll =
  poll_count :: int
  sent_batches :: "CanonicalEnvelopeHash list list"
  inserted_peers :: "Peer list"

definition new_poll :: Poll where
  "new_poll = \<lparr>poll_count = 0, sent_batches = [], inserted_peers = []\<rparr>"

definition poll_sequencer :: "'err + HostEnvelope Authenticated option \<Rightarrow> Poll \<Rightarrow> Poll" where
  "poll_sequencer answer p =
     (case answer of
        Inl _ \<Rightarrow> p
      | Inr None \<Rightarrow> p
      | Inr (Some e) \<Rightarrow>
          (let p' = (case channel_data (msg (inner e)) of
               Sequence b \<Rightarrow> p\<lparr>sent_batches := sent_batches p @ [b]\<rparr>
             | NewPeer peer \<Rightarrow> p\<lparr>inserted_peers := inserted_peers p @ [peer]\<rparr>
             | _ \<Rightarrow> p)
           in p'\<lparr>poll_count := poll_count p + 1\<rparr>))"

text \<open>\<open>Sequencer::output_move\<close>: nothing while the channel is empty and open.\<close>

definition sequencer_output_move :: "bool \<Rightarrow> 'r option list \<Rightarrow> ('r option \<times> 'r option list) option" where
  "sequencer_output_move closed q =
     (case q of x # rest \<Rightarrow> Some (x, rest) | [] \<Rightarrow> (if closed then Some (None, []) else None))"

section \<open>Demultiplexing\<close>

record Demuxed =
  listening_moves :: bool
  listening_custom :: bool
  listening_psbt :: bool
  sent_moves :: "(MoveEnvelope \<times> XOnlyPublicKey) list"
  sent_psbt :: "(string \<times> string) list"
  sent_custom :: "string list"

definition new_demuxed :: Demuxed where
  "new_demuxed = \<lparr>listening_moves = True, listening_custom = True, listening_psbt = True,
     sent_moves = [], sent_psbt = [], sent_custom = []\<rparr>"

text \<open>
  One envelope of \<open>DemuxedSequencer::run\<close>; \<open>alive\<close> says which receivers still exist. A message
  to a receiver that is gone is lost, and the sender stops listening.
\<close>

definition demux :: "bool \<times> bool \<times> bool \<Rightarrow> ParticipantAction GenericEnvelope Authenticated \<Rightarrow> Demuxed \<Rightarrow> Demuxed" where
  "demux alive e d =
     (case alive of (alive_moves, alive_custom, alive_psbt) \<Rightarrow>
      case msg (inner e) of
        MoveAction m \<Rightarrow>
          if listening_moves d
          then d\<lparr>listening_moves := alive_moves,
                 sent_moves := (if alive_moves then sent_moves d @ [(m, hdr_key (header (inner e)))] else sent_moves d)\<rparr>
          else d
      | Custom c \<Rightarrow>
          if listening_custom d
          then d\<lparr>listening_custom := alive_custom,
                 sent_custom := (if alive_custom then sent_custom d @ [c] else sent_custom d)\<rparr>
          else d
      | PsbtSigningCoordination c \<Rightarrow>
          if listening_psbt d
          then d\<lparr>listening_psbt := alive_psbt,
                 sent_psbt := (if alive_psbt then sent_psbt d @ [(channel_data c, channel c)] else sent_psbt d)\<rparr>
          else d)"

definition demux_done :: "Demuxed \<Rightarrow> bool" where
  "demux_done d = (\<not> (listening_custom d \<or> listening_moves d \<or> listening_psbt d))"

end
