(* ===== verification/Sequencer_Laws.thy ===== *)
theory Sequencer_Laws
  imports Sequencer
begin

text \<open>
  The order of the players' envelopes: what a connected chain of the host is, that sequencing a
  finished collection is lookup along the chain, and that sequencing while envelopes arrive
  gives the same moves in the same order, however the tasks interleave.
\<close>

section \<open>Connected chains\<close>

text \<open>The heights are 0, 1, 2, ..., and the key is the same throughout.\<close>

definition connected :: "HostEnvelope Authenticated list \<Rightarrow> bool" where
  "connected es = (map host_height es = map int [0..<length es] \<and> (\<exists>k. \<forall>e \<in> set es. host_key e = k))"

lemma ex_window:
  "(\<exists>i. Suc i < length (a # b # xs) \<and> P ((a # b # xs) ! i) ((a # b # xs) ! Suc i)) =
    (P a b \<or> (\<exists>i. Suc i < length (b # xs) \<and> P ((b # xs) ! i) ((b # xs) ! Suc i)))"
proof -
  have ex: "(\<exists>i. Q i) = (Q 0 \<or> (\<exists>i. Q (Suc i)))" for Q :: "nat \<Rightarrow> bool" by (metis not0_implies_Suc)
  show ?thesis by (subst ex) simp
qed

lemma windows_any_pure:
  "windows_any (\<lambda>a b. Some (P a b)) xs = Some (\<exists>i. Suc i < length xs \<and> P (xs ! i) (xs ! Suc i))"
proof (induction xs rule: induct_list012)
  case (3 a b xs)
  then show ?case unfolding ex_window by auto
qed auto

lemma windows_gap:
  assumes "es \<noteq> []" and "0 \<le> h" and "host_height (hd es) = h" and "h + int (length es) < 2 ^ 63"
  shows "windows_any (\<lambda>a b. do { n \<leftarrow> add_i64 (host_height a) 1; Some (n \<noteq> host_height b) }) es =
    Some (map host_height es \<noteq> map (\<lambda>i. h + int i) [0..<length es])"
  using assms
proof (induction es arbitrary: h rule: induct_list012)
  case (3 a b xs)
  have up: "map (\<lambda>i. h + int i) [0..<length (a # b # xs)] = h # map (\<lambda>i. (h + 1) + int i) [0..<length (b # xs)]"
    by (simp add: upt_rec [of 0] map_Suc_upt [symmetric] comp_def add.assoc del: upt_Suc)
  have n: "add_i64 (host_height a) 1 = Some (h + 1)" using 3 by (simp add: add_i64_def)
  show ?case
  proof (cases "host_height b = h + 1")
    case True
    with 3 have "windows_any (\<lambda>a b. do { n \<leftarrow> add_i64 (host_height a) 1; Some (n \<noteq> host_height b) }) (b # xs) =
      Some (map host_height (b # xs) \<noteq> map (\<lambda>i. (h + 1) + int i) [0..<length (b # xs)])" by simp
    with n True 3 show ?thesis unfolding up by simp
  next
    case False
    then have "map host_height (b # xs) \<noteq> map (\<lambda>i. (h + 1) + int i) [0..<length (b # xs)]"
      by (simp add: upt_rec [of 0])
    with n False show ?thesis unfolding up by simp
  qed
qed simp_all

lemma same_keys:
  "(\<exists>i. Suc i < length es \<and> host_key (es ! i) \<noteq> host_key (es ! Suc i)) = (\<nexists>k. \<forall>e \<in> set es. host_key e = k)"
proof (induction es rule: induct_list012)
  case (3 a b xs)
  show ?case
    unfolding ex_window [where P = "\<lambda>a b. host_key a \<noteq> host_key b"] 3(2) by auto
qed auto

lemma offline_from_raw_cases:
  assumes "int (length (sequencer_envelopes v)) < 2 ^ 63"
  defines "es \<equiv> sequencer_envelopes v"
  shows "offline_from_raw v = Some (
    if es \<noteq> [] \<and> host_height (hd es) \<noteq> 0 then Inl MissingTip
    else if map host_height es \<noteq> map int [0..<length es] then Inl Gap
    else if \<not> connected es then Inl MessageFromWrongEntity
    else Inr \<lparr>batches_to_sequence = List.map_filter batch_of es, msg_cache = raw_cache v\<rparr>)"
proof (cases "es \<noteq> [] \<and> host_height (hd es) \<noteq> 0")
  case True
  then show ?thesis by (simp add: offline_from_raw_def es_def Let_def)
next
  case False
  have g: "windows_any (\<lambda>a b. do { n \<leftarrow> add_i64 (host_height a) 1; Some (n \<noteq> host_height b) }) es =
      Some (map host_height es \<noteq> map int [0..<length es])"
  proof (cases "es = []")
    case ne: False
    with windows_gap [of es 0] False assms show ?thesis by simp
  qed simp
  have k: "windows_any (\<lambda>a b. Some (host_key a \<noteq> host_key b)) es = Some (\<nexists>k. \<forall>e \<in> set es. host_key e = k)"
    by (simp only: windows_any_pure same_keys)
  show ?thesis
    unfolding offline_from_raw_def Let_def es_def [symmetric] g k using False
    by (auto simp: connected_def)
qed

section \<open>Sequencing is lookup\<close>

lemma map_of_hm_remove [simp]: "map_of (hm_remove h c) = (map_of c)(h := None)"
proof
  fix k
  show "map_of (hm_remove h c) k = ((map_of c)(h := None)) k"
    by (induction c) (auto simp: hm_remove_def)
qed

abbreviation sequence_plain ::
  "CanonicalEnvelopeHash list \<Rightarrow> 'a hash_map \<Rightarrow> (unit SequenceingError + 'a list) \<times> 'a hash_map" where
  "sequence_plain \<equiv> sequence_map (\<lambda>a. Inr (Some a))"

lemma sequence_all:
  "(\<exists>es. fst (sequence_plain hs c) = Inr es) =
     (distinct hs \<and> set hs \<subseteq> dom (map_of c))"
  "distinct hs \<Longrightarrow> set hs \<subseteq> dom (map_of c) \<Longrightarrow>
     fst (sequence_plain hs c) = Inr (map (\<lambda>h. the (map_of c h)) hs)"
proof -
  have 1: "\<exists>es. fst (sequence_plain hs c) = Inr es \<Longrightarrow>
      distinct hs \<and> set hs \<subseteq> dom (map_of c)" for hs and c :: "'a hash_map"
  proof (induction hs arbitrary: c)
    case (Cons h hs)
    then obtain e where e: "map_of c h = Some e" by (auto split: option.splits)
    with Cons.prems have "\<exists>es. fst (sequence_plain hs (hm_remove h c)) = Inr es"
      by (cases "sequence_plain hs (hm_remove h c)") (auto split: sum.splits)
    from Cons.IH [OF this] e show ?case by (auto simp: subset_iff dom_def split: if_splits)
  qed simp
  have 2: "distinct hs \<Longrightarrow> set hs \<subseteq> dom (map_of c) \<Longrightarrow>
     fst (sequence_plain hs c) = Inr (map (\<lambda>h. the (map_of c h)) hs)" for hs and c :: "'a hash_map"
  proof (induction hs arbitrary: c)
    case (Cons h hs)
    then obtain e where e: "map_of c h = Some e" by auto
    have "fst (sequence_plain hs (hm_remove h c)) = Inr (map (\<lambda>k. the (map_of (hm_remove h c) k)) hs)"
      using Cons.prems by (intro Cons.IH) auto
    moreover have "map (\<lambda>k. the (map_of (hm_remove h c) k)) hs = map (\<lambda>k. the (map_of c k)) hs"
      using Cons.prems by auto
    ultimately show ?case using e by (auto split: prod.splits)
  qed simp
  show "(\<exists>es. fst (sequence_plain hs c) = Inr es) = (distinct hs \<and> set hs \<subseteq> dom (map_of c))"
    using 1 2 by blast
  show "distinct hs \<Longrightarrow> set hs \<subseteq> dom (map_of c) \<Longrightarrow>
     fst (sequence_plain hs c) = Inr (map (\<lambda>h. the (map_of c h)) hs)" by (rule 2)
qed

text \<open>With an extractor that never fails, the moves are those extracted from the sequence.\<close>

lemma sequence_map_filter:
  "sequence_map (\<lambda>a. Inr (g a) :: unit + _) hs c =
    (case sequence_plain hs c of
       (Inl er, c') \<Rightarrow> (Inl er, c')
     | (Inr es, c') \<Rightarrow> (Inr (List.map_filter g es), c'))"
proof (induction hs arbitrary: c)
  case (Cons h hs)
  show ?case
  proof (cases "map_of c h")
    case (Some e)
    with Cons [of "hm_remove h c"] show ?thesis
      by (auto simp: List.map_filter_simps split: prod.splits sum.splits option.splits)
  qed simp
qed (simp add: List.map_filter_simps)

text \<open>Sequencing on every branch: the result, and what is left in the cache.\<close>

lemma sequence_plain_cases:
  "case sequence_plain hs c of
     (Inr es, c') \<Rightarrow> distinct hs \<and> set hs \<subseteq> dom (map_of c) \<and> es = map (\<lambda>h. the (map_of c h)) hs \<and>
        map_of c' = map_of c |` (- set hs)
   | (Inl er, c') \<Rightarrow> (\<exists>pre h post. hs = pre @ h # post \<and> er = MissingEnvelope h \<and>
        (map_of c h = None \<or> h \<in> set pre) \<and> distinct pre \<and> set pre \<subseteq> dom (map_of c) \<and>
        map_of c' = map_of c |` (- set pre))"
proof (induction hs arbitrary: c)
  case (Cons h hs)
  show ?case
  proof (cases "map_of c h")
    case None
    moreover have "map_of c = map_of c |` (- set [])" by (simp add: restrict_map_def)
    ultimately show ?thesis by simp (rule exI [of _ "[]"], simp)
  next
    case (Some e)
    have cut: "(map_of c)(h := None) |` (- S) = map_of c |` (- insert h S)" for S
      by (auto simp: restrict_map_def fun_eq_iff)
    obtain r c' where rec: "sequence_plain hs (hm_remove h c) = (r, c')" by fastforce
    show ?thesis
    proof (cases r)
      case (Inr es)
      with Cons [of "hm_remove h c", unfolded map_of_hm_remove cut rec] have i: "distinct hs" "set hs \<subseteq> dom ((map_of c)(h := None))"
        "es = map (\<lambda>k. the (((map_of c)(h := None)) k)) hs" "map_of c' = map_of c |` (- insert h (set hs))"
        by simp_all
      from i(2) have "h \<notin> set hs" by auto
      with i Some rec Inr show ?thesis by auto
    next
      case (Inl er)
      with Cons [of "hm_remove h c", unfolded map_of_hm_remove cut rec] obtain pre k post where
        i: "hs = pre @ k # post" "er = MissingEnvelope k" "((map_of c)(h := None)) k = None \<or> k \<in> set pre"
          "distinct pre" "set pre \<subseteq> dom ((map_of c)(h := None))" "map_of c' = map_of c |` (- insert h (set pre))"
        by auto
      have "h # hs = (h # pre) @ k # post \<and> er = MissingEnvelope k \<and>
        (map_of c k = None \<or> k \<in> set (h # pre)) \<and> distinct (h # pre) \<and>
        set (h # pre) \<subseteq> dom (map_of c) \<and> map_of c' = map_of c |` (- set (h # pre))"
        using i Some by (auto split: if_splits)
      then have "\<exists>pre k post. h # hs = pre @ k # post \<and> er = MissingEnvelope k \<and>
        (map_of c k = None \<or> k \<in> set pre) \<and> distinct pre \<and>
        set pre \<subseteq> dom (map_of c) \<and> map_of c' = map_of c |` (- set pre)" by blast
      then show ?thesis using Inl rec Some by simp
    qed
  qed
qed (simp add: restrict_map_def)

section \<open>Sequencing while envelopes arrive\<close>

definition extracted :: "('a \<Rightarrow> 'e + 'r) \<Rightarrow> 'a list \<Rightarrow> 'r list" where
  "extracted f es = List.map_filter (\<lambda>e. case f e of Inr x \<Rightarrow> Some x | Inl _ \<Rightarrow> None) es"

lemma extracted_simps [simp]:
  "extracted f [] = []" "extracted f (xs @ ys) = extracted f xs @ extracted f ys"
  "f e = Inr x \<Longrightarrow> extracted f [e] = [x]" "f e = Inl er \<Longrightarrow> extracted f [e] = []"
  by (simp_all add: extracted_def List.map_filter_def)

text \<open>
  The hashes taken so far are a prefix of the hashes the host committed to, all different; the
  cache holds the other envelopes; what was sent on is what those hashes stand for.
\<close>

definition taken_inv ::
  "('a \<Rightarrow> 'e + 'r) \<Rightarrow> CanonicalEnvelopeHash list list \<Rightarrow> 'a hash_map \<Rightarrow> ('a, 'r) GenericSequencer \<Rightarrow>
   CanonicalEnvelopeHash list \<Rightarrow> 'a list \<Rightarrow> bool" where
  "taken_inv f bs ms s taken consumed =
     (concat bs = taken @ envelope_hashes s @ concat (input_batches s) \<and> distinct taken \<and>
      set taken \<subseteq> dom (map_of ms) \<and> map_of (envs s) = map_of ms |` (- set taken) \<and>
      map (\<lambda>h. the (map_of ms h)) taken = consumed @ output_envelope s \<and>
      output_move s = extracted f consumed)"

lemma taken_inv_step:
  assumes i: "taken_inv f bs ms s taken consumed" and st: "seq_step f s s'"
  shows "\<exists>taken' consumed'. taken_inv f bs ms s' taken' consumed'"
  using st
proof cases
  case (occupied h hs e)
  with i have h: "map_of ms h = Some e" "h \<notin> set taken"
    by (auto simp: taken_inv_def restrict_map_def split: if_splits)
  have "(map_of ms |` (- set taken))(h := None) = map_of ms |` (- set (taken @ [h]))"
    by (auto simp: restrict_map_def fun_eq_iff)
  with i h occupied have "taken_inv f bs ms s' (taken @ [h]) consumed"
    by (auto simp: taken_inv_def)
  then show ?thesis by blast
next
  case (extracted e es x)
  with i have "taken_inv f bs ms s' taken (consumed @ [e])"
    by (simp add: taken_inv_def)
  then show ?thesis by blast
next
  case (skipped e es er)
  with i have "taken_inv f bs ms s' taken (consumed @ [e])"
    by (simp add: taken_inv_def)
  then show ?thesis by blast
qed (use i in \<open>auto simp: taken_inv_def\<close>)

lemma taken_inv_run: "seq_run f bs ms s \<Longrightarrow> \<exists>taken consumed. taken_inv f bs ms s taken consumed"
proof (induction rule: seq_run.induct)
  case init
  then show ?case by (auto simp: taken_inv_def new_sequencer_def)
next
  case (batch bs ms s b)
  then obtain taken consumed where "taken_inv f bs ms s taken consumed" by blast
  then have "taken_inv f (bs @ [b]) ms (s\<lparr>input_batches := input_batches s @ [b]\<rparr>) taken consumed"
    by (simp add: taken_inv_def)
  then show ?case by blast
next
  case (arrival bs ms s h e)
  then obtain taken consumed where i: "taken_inv f bs ms s taken consumed" by blast
  have "map_of ms h = None" using arrival.hyps(2) by (simp add: map_of_eq_None_iff)
  with i have n: "h \<notin> set taken" by (auto simp: taken_inv_def)
  have m: "map (\<lambda>k. the (map_of ((h, e) # ms) k)) taken = map (\<lambda>k. the (map_of ms k)) taken" using n by auto
  have c: "map_of ((h, e) # envs s) = map_of ((h, e) # ms) |` (- set taken)"
    using i n by (auto simp: taken_inv_def restrict_map_def fun_eq_iff)
  have d: "set taken \<subseteq> dom (map_of ((h, e) # ms))" using i by (auto simp: taken_inv_def)
  have "taken_inv f bs ((h, e) # ms) (s\<lparr>envs := (h, e) # envs s\<rparr>) taken consumed"
    unfolding taken_inv_def m using i c d by (simp add: taken_inv_def)
  then show ?case by blast
next
  case (step bs ms s s')
  then show ?case using taken_inv_step by blast
qed

text \<open>Safety: what has come out is the start of what sequencing the whole collection gives.\<close>

lemma online_prefix:
  assumes r: "seq_run f bs ms s" and o: "fst (sequence_plain (concat bs) ms) = Inr es"
  shows "\<exists>rest. extracted f es = output_move s @ rest"
proof -
  from taken_inv_run [OF r] obtain taken consumed where i: "taken_inv f bs ms s taken consumed" by blast
  have d: "distinct (concat bs)" "set (concat bs) \<subseteq> dom (map_of ms)"
    using sequence_all(1) [of "concat bs" ms] o by auto
  have "es = map (\<lambda>h. the (map_of ms h)) (concat bs)" using sequence_all(2) [OF d] o by simp
  also have "\<dots> = consumed @ output_envelope s @ map (\<lambda>h. the (map_of ms h)) (envelope_hashes s @ concat (input_batches s))"
    using i by (simp add: taken_inv_def)
  finally show ?thesis using i by (simp add: taken_inv_def)
qed

section \<open>The run can always be completed\<close>

inductive seq_steps :: "('a \<Rightarrow> 'e + 'r) \<Rightarrow> ('a, 'r) GenericSequencer \<Rightarrow> ('a, 'r) GenericSequencer \<Rightarrow> bool"
  for f :: "'a \<Rightarrow> 'e + 'r" where
  refl: "seq_steps f s s"
| trans: "seq_step f s s' \<Longrightarrow> seq_steps f s' s'' \<Longrightarrow> seq_steps f s s''"

lemma seq_run_steps: "seq_steps f s s' \<Longrightarrow> seq_run f bs ms s \<Longrightarrow> seq_run f bs ms s'"
  by (induction rule: seq_steps.induct) (auto intro: seq_run.step)

text \<open>The work left: batches to receive, envelopes to take and to extract, and a wake-up.\<close>

definition work :: "('a, 'r) GenericSequencer \<Rightarrow> nat" where
  "work s = 2 * length (concat (input_batches s)) + length (input_batches s) + 2 * length (envelope_hashes s) +
     length (output_envelope s) + (if should_wait s then 1 else 0)"

lemma work_left:
  assumes i: "taken_inv f bs ms s taken consumed" and d: "distinct (concat bs)" "set (concat bs) \<subseteq> dom (map_of ms)"
    and w: "work s \<noteq> 0"
  shows "\<exists>s'. seq_step f s s' \<and> work s' < work s"
proof (cases "should_wait s")
  case True
  from notified [OF this, of f] show ?thesis by (intro exI conjI) (auto simp: work_def True)
next
  case nw: False
  show ?thesis
  proof (cases "output_envelope s")
    case (Cons e es)
    show ?thesis
    proof (cases "f e")
      case (Inl er)
      from skipped [of s e es f, OF Cons Inl] show ?thesis by (intro exI conjI) (auto simp: work_def Cons)
    next
      case (Inr x)
      from seq_step.extracted [of s e es f, OF Cons Inr] show ?thesis by (intro exI conjI) (auto simp: work_def Cons)
    qed
  next
    case oe: Nil
    show ?thesis
    proof (cases "envelope_hashes s")
      case (Cons h hs)
      have "concat bs = taken @ h # hs @ concat (input_batches s)" using i Cons by (simp add: taken_inv_def)
      with d have "h \<notin> set taken" "h \<in> dom (map_of ms)" by auto
      then obtain e where "map_of (envs s) h = Some e" using i by (auto simp: taken_inv_def restrict_map_def)
      from occupied [of s h hs e f, OF Cons nw this] show ?thesis
        by (intro exI conjI) (auto simp: work_def Cons)
    next
      case Nil
      with w oe nw obtain b rest where b: "input_batches s = b # rest"
        by (cases "input_batches s") (auto simp: work_def)
      from recv_batch [of s b rest f, OF Nil b] show ?thesis
        by (intro exI conjI) (auto simp: work_def Nil b)
    qed
  qed
qed

lemma online_completes:
  assumes r: "seq_run f bs ms s" and o: "fst (sequence_plain (concat bs) ms) = Inr es"
  shows "\<exists>s'. seq_steps f s s' \<and> output_move s' = extracted f es"
  using r
proof (induction "work s" arbitrary: s rule: less_induct)
  case less
  have d: "distinct (concat bs)" "set (concat bs) \<subseteq> dom (map_of ms)"
    using sequence_all(1) [of "concat bs" ms] o by auto
  from taken_inv_run [OF less.prems] obtain taken consumed where i: "taken_inv f bs ms s taken consumed" by blast
  show ?case
  proof (cases "work s = 0")
    case True
    then have "concat (input_batches s) = []" "envelope_hashes s = []" "output_envelope s = []"
      by (auto simp: work_def)
    with i have "taken = concat bs" "output_move s = extracted f (map (\<lambda>h. the (map_of ms h)) taken)"
      by (simp_all add: taken_inv_def)
    with sequence_all(2) [OF d] o show ?thesis by (auto intro: seq_steps.refl)
  next
    case False
    from work_left [OF i d this] obtain s1 where s1: "seq_step f s s1" "work s1 < work s" by blast
    from less.hyps [OF s1(2) seq_run.step [OF less.prems s1(1)]] s1(1) show ?thesis
      by (blast intro: seq_steps.trans)
  qed
qed

end
