(* ===== verification/Sequencer_Props.thy ===== *)
theory Sequencer_Props
  imports Sequencer_Laws
begin

text \<open>
  The properties of the sequencer, over the lemmas of \<open>Sequencer_Laws\<close>: which chains are taken,
  what sequencing gives, that polling and running tasks give the same, and the demultiplexer.
\<close>

section \<open>Example envelopes\<close>

definition ex_header :: "string \<Rightarrow> int \<Rightarrow> Header" where
  "ex_header k n = \<lparr>hdr_key = k, next_nonce = PrecomittedPublicNonce ''n'', ancestors = None, tips = [],
     height = n, sent_time_ms = 0, unsigned_part = \<lparr>signature = None\<rparr>, checkpoints = default_checkpoints\<rparr>"

definition ex_host :: "int \<Rightarrow> BroadcastByHost \<Rightarrow> HostEnvelope Authenticated" where
  "ex_host n b = Authenticated \<lparr>header = ex_header ''host'' n, msg = \<lparr>channel_data = b, channel = ''default''\<rparr>, cache = None\<rparr>"

definition ex_chain :: "HostEnvelope Authenticated list" where
  "ex_chain = [ex_host 0 HostHeartbeat, ex_host 1 (Sequence [CanonicalEnvelopeHash 7]),
     ex_host 2 (Sequence [CanonicalEnvelopeHash 8, CanonicalEnvelopeHash 5])]"

definition ex_action :: "ParticipantAction \<Rightarrow> ParticipantAction GenericEnvelope Authenticated" where
  "ex_action a = Authenticated \<lparr>header = ex_header ''alice'' 0, msg = a, cache = None\<rparr>"

definition ex_move :: "nat \<Rightarrow> MoveEnvelope" where
  "ex_move n = \<lparr>move_d = Heartbeat, move_sequence = 1, time_millis = of_nat n\<rparr>"

definition ex_cache :: "ParticipantAction GenericEnvelope Authenticated hash_map" where
  "ex_cache = [(CanonicalEnvelopeHash 5, ex_action (MoveAction (ex_move 2))),
     (CanonicalEnvelopeHash 8, ex_action (Custom ''hello'')),
     (CanonicalEnvelopeHash 7, ex_action (MoveAction (ex_move 1)))]"

lemma map_filter_append: "List.map_filter f (xs @ ys) = List.map_filter f xs @ List.map_filter f ys"
  by (simp add: List.map_filter_def)

lemma extracted_by_filter:
  "extracted_move_envelopes v =
    map_sum id (List.map_filter (\<lambda>e. case msg (inner e) of
        MoveAction m \<Rightarrow> Some (m, hdr_key (header (inner e))) | _ \<Rightarrow> None))
      (fst (directly_sequence v))"
proof -
  let ?m = "\<lambda>e. case msg (inner e) of MoveAction m \<Rightarrow> Some (m, hdr_key (header (inner e))) | _ \<Rightarrow> None"
  let ?hs = "concat (batches_to_sequence v)"
  have r: "read_move = (\<lambda>e. Inr (?m e))"
    by (rule ext) (simp add: read_move_def split: ParticipantAction.split)
  have "sequence_map read_move ?hs (msg_cache v) =
      (case sequence_plain ?hs (msg_cache v) of
         (Inl er, c') \<Rightarrow> (Inl er, c') | (Inr es, c') \<Rightarrow> (Inr (List.map_filter ?m es), c'))"
    unfolding r by (rule sequence_map_filter)
  then show ?thesis
    unfolding extracted_move_envelopes_def directly_sequence_map_def directly_sequence_def
    by (simp split: prod.split sum.split)
qed

lemma flatten_extracted:
  "List.map_filter id (extracted read_move es) = List.map_filter (\<lambda>e. case msg (inner e) of
        MoveAction m \<Rightarrow> Some (m, hdr_key (header (inner e))) | _ \<Rightarrow> None) es"
  by (induction es) (auto simp: extracted_def List.map_filter_simps read_move_def split: ParticipantAction.splits)

text \<open>One round of polling a part of the chain.\<close>

lemma polled:
  assumes ok: "0 \<le> poll_count p \<and> poll_count p \<le> int (length es) \<and>
      sent_batches p = List.map_filter batch_of (take (nat (poll_count p)) es)"
    and db: "\<forall>e. answer = Inr (Some e) \<longrightarrow> nat (poll_count p) < length es \<and> e = es ! nat (poll_count p)"
  defines "p' \<equiv> poll_sequencer answer p"
  shows "0 \<le> poll_count p' \<and> poll_count p' \<le> int (length es) \<and>
      sent_batches p' = List.map_filter batch_of (take (nat (poll_count p')) es)"
proof (cases "\<exists>e. answer = Inr (Some e)")
  case True
  then obtain e where e: "answer = Inr (Some e)" by blast
  with db have "nat (poll_count p) < length es" and ee: "e = es ! nat (poll_count p)" by auto
  then have "take (nat (poll_count p + 1)) es = take (nat (poll_count p)) es @ [e]"
    using ok by (simp add: take_Suc_conv_app_nth nat_add_distrib)
  moreover have "poll_count p' = poll_count p + 1"
    "sent_batches p' = sent_batches p @ (case batch_of e of None \<Rightarrow> [] | Some b \<Rightarrow> [b])"
    by (auto simp: p'_def poll_sequencer_def e batch_of_def Let_def split: BroadcastByHost.splits)
  ultimately show ?thesis using ok \<open>nat (poll_count p) < length es\<close>
    by (simp add: map_filter_append List.map_filter_simps split: option.splits)
next
  case False
  then have "p' = p" by (auto simp: p'_def poll_sequencer_def split: sum.splits option.splits)
  with ok show ?thesis by simp
qed

section \<open>Offline\<close>

text \<open>C15: A raw sequencer is taken exactly when its envelopes are connected, that is at heights
  0, 1, 2, ... and by one key; the batches are those of the Sequence messages in chain order and the
  cache is kept. Otherwise the error is MissingTip when the first envelope is not at height 0, else
  Gap when the heights are not consecutive, else MessageFromWrongEntity. It does not panic.\<close>

theorem offline_exact:
  assumes "int (length (sequencer_envelopes v)) < 2 ^ 63"
  defines "es \<equiv> sequencer_envelopes v"
  shows "offline_from_raw v = Some (
    if es \<noteq> [] \<and> host_height (hd es) \<noteq> 0 then Inl MissingTip
    else if map host_height es \<noteq> map int [0..<length es] then Inl Gap
    else if \<not> connected es then Inl MessageFromWrongEntity
    else Inr \<lparr>batches_to_sequence = List.map_filter batch_of es, msg_cache = raw_cache v\<rparr>)"
  unfolding es_def by (rule offline_from_raw_cases [OF assms(1)])

abbreviation ex_raw :: "ParticipantAction RawSequencer" where
  "ex_raw \<equiv> \<lparr>sequencer_envelopes = ex_chain, raw_cache = ex_cache\<rparr>"

lemma ex_chain_heights: "map host_height ex_chain = [0, 1, 2]" "map host_key ex_chain = replicate 3 ''host''"
  "length ex_chain = 3" "List.map_filter batch_of ex_chain =
     [[CanonicalEnvelopeHash 7], [CanonicalEnvelopeHash 8, CanonicalEnvelopeHash 5]]"
  by (simp_all add: ex_chain_def ex_host_def ex_header_def host_height_def host_key_def batch_of_def
      List.map_filter_simps eval_nat_numeral)

lemma ex_chain_connected: "connected ex_chain"
proof -
  have "\<forall>e \<in> set ex_chain. host_key e = ''host''"
    by (simp add: ex_chain_def ex_host_def ex_header_def host_key_def)
  then show ?thesis by (auto simp: connected_def ex_chain_heights upt_rec)
qed

theorem offline_exact_witness:
  "offline_from_raw ex_raw = Some (Inr \<lparr>batches_to_sequence =
     [[CanonicalEnvelopeHash 7], [CanonicalEnvelopeHash 8, CanonicalEnvelopeHash 5]], msg_cache = ex_cache\<rparr>)"
proof -
  have "map host_height ex_chain = map int [0..<length ex_chain]" using ex_chain_connected by (simp add: connected_def)
  then show ?thesis
    using offline_exact [of ex_raw] ex_chain_connected
    by (simp add: ex_chain_heights) (simp add: ex_chain_def host_height_def ex_host_def ex_header_def)
qed

text \<open>Sequencing a collection looks up the hashes of all batches in order: it succeeds exactly
  when they are all different and all present, and then gives the envelope of each hash and leaves
  the others in the cache. Otherwise the error names the first hash that is missing or repeated.\<close>

theorem sequencing_is_lookup:
  "case directly_sequence s of (r, s') \<Rightarrow>
    (let hs = concat (batches_to_sequence s); look = map_of (msg_cache s) in
     batches_to_sequence s' = batches_to_sequence s \<and>
     (case r of
        Inr es \<Rightarrow> distinct hs \<and> set hs \<subseteq> dom look \<and> es = map (\<lambda>h. the (look h)) hs \<and>
                  map_of (msg_cache s') = look |` (- set hs)
      | Inl er \<Rightarrow> (\<exists>pre h post. hs = pre @ h # post \<and> er = MissingEnvelope h \<and>
                  (look h = None \<or> h \<in> set pre) \<and> distinct pre \<and> set pre \<subseteq> dom look \<and>
                  map_of (msg_cache s') = look |` (- set pre))))"
  using sequence_plain_cases [of "concat (batches_to_sequence s)" "msg_cache s"]
  by (auto simp: directly_sequence_def directly_sequence_map_def split: prod.splits sum.splits)

text \<open>The moves extracted from a finished collection are those of its move messages, each with
  the key that signed it, in the order of the host; other messages are left out.\<close>

theorem extracted_moves:
  "extracted_move_envelopes v =
    map_sum id (List.map_filter (\<lambda>e. case msg (inner e) of
        MoveAction m \<Rightarrow> Some (m, hdr_key (header (inner e))) | _ \<Rightarrow> None))
      (fst (directly_sequence v))"
  by (rule extracted_by_filter)

section \<open>Online\<close>

text \<open>C16: However batches and envelopes arrive and however the tasks are scheduled, the moves sent
  on so far are the start of what the offline sequencer extracts from the same batches and
  envelopes, and the tasks can always go on to send all of them.\<close>

theorem online_follows_offline:
  assumes "seq_run read_move bs ms s"
    and "extracted_move_envelopes \<lparr>batches_to_sequence = bs, msg_cache = ms\<rparr> = Inr mvs"
  shows "(\<exists>rest. mvs = List.map_filter id (output_move s) @ rest) \<and>
    (\<exists>s'. seq_steps read_move s s' \<and> List.map_filter id (output_move s') = mvs)"
proof -
  let ?m = "\<lambda>e. case msg (inner e) of MoveAction m \<Rightarrow> Some (m, hdr_key (header (inner e))) | _ \<Rightarrow> None"
  have "map_sum id (List.map_filter ?m) (fst (sequence_plain (concat bs) ms)) = Inr mvs"
    using assms(2) by (simp add: extracted_by_filter directly_sequence_def directly_sequence_map_def split: prod.splits)
  then obtain es where es: "fst (sequence_plain (concat bs) ms) = Inr es" "mvs = List.map_filter ?m es"
    by (cases "fst (sequence_plain (concat bs) ms)") auto
  then have mvs: "mvs = List.map_filter id (extracted read_move es)" by (simp add: flatten_extracted)
  from online_prefix [OF assms(1) es(1)] have "\<exists>rest. mvs = List.map_filter id (output_move s) @ rest"
    unfolding mvs by (auto simp: map_filter_append)
  moreover from online_completes [OF assms(1) es(1)]
  have "\<exists>s'. seq_steps read_move s s' \<and> List.map_filter id (output_move s') = mvs" unfolding mvs by metis
  ultimately show ?thesis by blast
qed

lemma ex_run: "\<exists>s. seq_run read_move [[CanonicalEnvelopeHash 7], [CanonicalEnvelopeHash 8, CanonicalEnvelopeHash 5]] ex_cache s"
proof -
  have "\<exists>s. seq_run read_move [[CanonicalEnvelopeHash 7], [CanonicalEnvelopeHash 8, CanonicalEnvelopeHash 5]] [] s"
    using seq_run.batch [OF seq_run.batch [OF seq_run.init], of read_move "[CanonicalEnvelopeHash 7]"
        "[CanonicalEnvelopeHash 8, CanonicalEnvelopeHash 5]"] by auto
  then show ?thesis unfolding ex_cache_def by (elim exE) (rule exI, (rule seq_run.arrival)+, auto)
qed

lemma ex_extracted:
  "extracted_move_envelopes \<lparr>batches_to_sequence =
      [[CanonicalEnvelopeHash 7], [CanonicalEnvelopeHash 8, CanonicalEnvelopeHash 5]], msg_cache = ex_cache\<rparr> =
    Inr [(ex_move 1, ''alice''), (ex_move 2, ''alice'')]"
  by (simp add: extracted_move_envelopes_def directly_sequence_map_def ex_cache_def ex_action_def ex_header_def
      read_move_def hm_remove_def)

theorem online_follows_offline_witness:
  "\<exists>s s'. seq_run read_move [[CanonicalEnvelopeHash 7], [CanonicalEnvelopeHash 8, CanonicalEnvelopeHash 5]] ex_cache s \<and>
    seq_steps read_move s s' \<and>
    List.map_filter id (output_move s') = [(ex_move 1, ''alice''), (ex_move 2, ''alice'')]"
proof -
  from ex_run obtain s where s: "seq_run read_move
    [[CanonicalEnvelopeHash 7], [CanonicalEnvelopeHash 8, CanonicalEnvelopeHash 5]] ex_cache s" by blast
  with online_follows_offline [OF s ex_extracted] show ?thesis by blast
qed

definition poll_run :: "(int \<Rightarrow> 'err + HostEnvelope Authenticated option) list \<Rightarrow> Poll \<Rightarrow> Poll" where
  "poll_run dbs p = fold (\<lambda>db p. poll_sequencer (db (poll_count p)) p) dbs p"

text \<open>C17: Polling a database that at each time holds some of a connected chain sends exactly the
  batches of the envelopes seen, in chain order, whatever failures and delays there are: the batches
  that the offline sequencer takes from that part of the chain.\<close>

theorem polling_follows_the_chain:
  fixes es :: "HostEnvelope Authenticated list"
  assumes "\<forall>db \<in> set dbs. \<forall>i e. db i = Inr (Some e) \<longrightarrow> 0 \<le> i \<and> nat i < length es \<and> e = es ! nat i"
  defines "p \<equiv> poll_run dbs new_poll"
  shows "0 \<le> poll_count p \<and> poll_count p \<le> int (length es) \<and>
    sent_batches p = List.map_filter batch_of (take (nat (poll_count p)) es)"
proof -
  let ?ok = "\<lambda>p. 0 \<le> poll_count p \<and> poll_count p \<le> int (length es) \<and>
    sent_batches p = List.map_filter batch_of (take (nat (poll_count p)) es)"
  have "?ok p0 \<Longrightarrow> ?ok (poll_run dbs p0)" for p0
    using assms(1)
  proof (induction dbs arbitrary: p0)
    case (Cons db dbs)
    from polled [OF Cons.prems(1)] Cons.prems(2) have "?ok (poll_sequencer (db (poll_count p0)) p0)" by auto
    from Cons.IH [OF this] Cons.prems(2) show ?case by (simp add: poll_run_def)
  qed (simp add: poll_run_def)
  moreover have "?ok new_poll" by (simp add: new_poll_def List.map_filter_simps)
  ultimately show ?thesis unfolding p_def by blast
qed

text \<open>Nothing, a failure, the first envelope, nothing, the second.\<close>

definition ex_polls :: "(int \<Rightarrow> string + HostEnvelope Authenticated option) list" where
  "ex_polls =
    [\<lambda>i. Inr None, \<lambda>i. Inl ''busy'', \<lambda>i. Inr (if i = 0 then Some (ex_chain ! 0) else None),
     \<lambda>i. Inr (if i = 0 then Some (ex_chain ! 0) else None),
     \<lambda>i. Inr (if i = 0 then Some (ex_chain ! 0) else if i = 1 then Some (ex_chain ! 1) else None)]"

theorem polling_follows_the_chain_witness:
  "sent_batches (poll_run ex_polls new_poll) = [[CanonicalEnvelopeHash 7]]"
proof -
  have "\<forall>db \<in> set ex_polls. \<forall>i e. db i = Inr (Some e) \<longrightarrow> 0 \<le> i \<and> nat i < length ex_chain \<and> e = ex_chain ! nat i"
    by (auto simp: ex_polls_def ex_chain_heights)
  note p = polling_follows_the_chain [OF this]
  have n: "poll_count (poll_run ex_polls new_poll) = 2"
    by (simp add: poll_run_def ex_polls_def new_poll_def poll_sequencer_def ex_chain_def ex_host_def)
  show ?thesis using p unfolding n
    by (simp add: ex_chain_def ex_host_def batch_of_def List.map_filter_simps eval_nat_numeral)
qed

section \<open>Demultiplexing\<close>

text \<open>While all receivers exist, every envelope goes to exactly the receiver of its kind, and each
  receiver gets its messages in the order of the sequencer.\<close>

theorem demux_splits:
  "fold (demux (True, True, True)) es new_demuxed =
    \<lparr>listening_moves = True, listening_custom = True, listening_psbt = True,
     sent_moves = List.map_filter (\<lambda>e. case msg (inner e) of
        MoveAction m \<Rightarrow> Some (m, hdr_key (header (inner e))) | _ \<Rightarrow> None) es,
     sent_psbt = List.map_filter (\<lambda>e. case msg (inner e) of
        PsbtSigningCoordination c \<Rightarrow> Some (channel_data c, channel c) | _ \<Rightarrow> None) es,
     sent_custom = List.map_filter (\<lambda>e. case msg (inner e) of Custom c \<Rightarrow> Some c | _ \<Rightarrow> None) es\<rparr>"
proof -
  have "fold (demux (True, True, True)) es d = d\<lparr>
     sent_moves := sent_moves d @ List.map_filter (\<lambda>e. case msg (inner e) of
        MoveAction m \<Rightarrow> Some (m, hdr_key (header (inner e))) | _ \<Rightarrow> None) es,
     sent_psbt := sent_psbt d @ List.map_filter (\<lambda>e. case msg (inner e) of
        PsbtSigningCoordination c \<Rightarrow> Some (channel_data c, channel c) | _ \<Rightarrow> None) es,
     sent_custom := sent_custom d @ List.map_filter (\<lambda>e. case msg (inner e) of Custom c \<Rightarrow> Some c | _ \<Rightarrow> None) es\<rparr>"
    if "listening_moves d" "listening_custom d" "listening_psbt d" for d
    using that
  proof (induction es arbitrary: d)
    case (Cons e es)
    then show ?case by (cases "msg (inner e)") (simp_all add: demux_def List.map_filter_simps)
  qed (simp add: List.map_filter_simps)
  from this [of new_demuxed] show ?thesis by (simp add: new_demuxed_def)
qed

end
