(* ===== verification/Game_Host.thy ===== *)
theory Game_Host
  imports Sequencer "HOL-Library.AList"
begin

text \<open>
  The host's sequencing task (\<open>game\<close> in \<open>common/game-host/src/main.rs\<close>): it collects the players'
  envelopes by chain and height, takes the part of each chain that continues what was sequenced
  before, shuffles these envelopes fairly, and commits to their hashes in a Sequence message.

  Hash maps are association lists with distinct keys in any order; a \<open>BTreeMap\<close> is an association
  list sorted by key (\<open>Prelude\<close>). A panic (\<open>panic!\<close>, \<open>expect\<close>, overflow) is \<open>None\<close>.
\<close>

section \<open>State\<close>

type_synonym 'm heights = "(int, 'm GenericEnvelope) btree_map"

record 'm HostState =
  unprocessed :: "'m GenericEnvelope Authenticated hash_map"
  message_by_genesis :: "'m heights hash_map"
  next_height_to_sequence :: "int hash_map"

definition new_host :: "'m HostState" where
  "new_host = \<lparr>unprocessed = [], message_by_genesis = [], next_height_to_sequence = []\<rparr>"

definition hm_insert :: "CanonicalEnvelopeHash \<Rightarrow> 'v \<Rightarrow> 'v hash_map \<Rightarrow> 'v hash_map" where
  "hm_insert h v m = AList.update h v m"

definition i64_max :: int where
  "i64_max = 2 ^ 63 - 1"

section \<open>Collecting envelopes\<close>

text \<open>The answer of the database: the envelopes of the chains in the host's groups that are new.\<close>

definition new_envelopes ::
  "'m Crypto \<Rightarrow> 'm GenericEnvelope Authenticated list \<Rightarrow> 'm HostState \<Rightarrow> 'm HostState" where
  "new_envelopes c vs s =
     s\<lparr>unprocessed := fold (\<lambda>v m. hm_insert (canonicalized_hash_ref c (inner v)) v m) vs (unprocessed s)\<rparr>"

text \<open>What was sequenced before the task started is removed, and the next height recorded.\<close>

fun skip_sequenced ::
  "'m Crypto \<Rightarrow> CanonicalEnvelopeHash list \<Rightarrow> 'm HostState \<Rightarrow> 'm HostState option" where
  "skip_sequenced c [] s = Some s"
| "skip_sequenced c (h # hs) s =
     (case map_of (unprocessed s) h of
        None \<Rightarrow> None
      | Some m \<Rightarrow> do {
          n \<leftarrow> add_i64 (height (header (inner m))) 1;
          let g = get_genesis_hash c (inner m) in
          skip_sequenced c hs (s\<lparr>unprocessed := hm_remove h (unprocessed s),
            next_height_to_sequence :=
              hm_insert g (max n (bt_or 0 (next_height_to_sequence s) g)) (next_height_to_sequence s)\<rparr>)
        })"

text \<open>The hashes the host has committed to already, from its own chain.\<close>

definition already_sequenced ::
  "HostEnvelope Authenticated list \<Rightarrow> (SequencerError + CanonicalEnvelopeHash list) option" where
  "already_sequenced v =
     map_option (map_sum id (\<lambda>s :: string OfflineSequencer. concat (batches_to_sequence s)))
       (offline_from_raw \<lparr>sequencer_envelopes = v, raw_cache = []\<rparr>)"

text \<open>Each unprocessed envelope goes to its chain; two at the same height are not expected.\<close>

fun by_genesis ::
  "'m Crypto \<Rightarrow> XOnlyPublicKey \<Rightarrow> 'm GenericEnvelope Authenticated list \<Rightarrow> 'm heights hash_map \<Rightarrow>
   'm heights hash_map option" where
  "by_genesis c oracle [] m = Some m"
| "by_genesis c oracle (e # es) m =
     (if hdr_key (header (inner e)) = oracle then None
      else
        let g = get_genesis_hash c (inner e); ms = bt_or [] m g; k = height (header (inner e)) in
        if bt_get ms k \<noteq> None then None
        else by_genesis c oracle es (hm_insert g (bt_put k (inner e) ms) m))"

definition sort_by_genesis :: "'m Crypto \<Rightarrow> XOnlyPublicKey \<Rightarrow> 'm HostState \<Rightarrow> 'm HostState option" where
  "sort_by_genesis c oracle s = do {
     m \<leftarrow> by_genesis c oracle (map snd (unprocessed s)) (message_by_genesis s);
     Some (s\<lparr>unprocessed := [], message_by_genesis := m\<rparr>)
   }"

section \<open>What can be sequenced\<close>

text \<open>
  \<open>'scan_keys\<close>: the keys in pairs with their successors, \<open>i64::MAX\<close> after the last; at the first
  pair that is not contiguous the next height is one after its first key.
\<close>

fun scan_keys :: "(int \<times> int) list \<Rightarrow> int \<Rightarrow> int option" where
  "scan_keys [] n = Some n"
| "scan_keys ((k1, k2) # r) n = do {
     d \<leftarrow> add_i64 k2 (- k1);
     if d = 1 then scan_keys r n else add_i64 k1 1
   }"

text \<open>\<open>for k in first..next { ms.remove(&k).expect(..) }\<close>\<close>

fun remove_range :: "nat \<Rightarrow> int \<Rightarrow> 'm heights \<Rightarrow> ('m GenericEnvelope list \<times> 'm heights) option" where
  "remove_range 0 k ms = Some ([], ms)"
| "remove_range (Suc n) k ms =
     (case bt_get ms k of
        None \<Rightarrow> None
      | Some e \<Rightarrow> do {
          (es, ms') \<leftarrow> remove_range n (k + 1) (bt_del k ms);
          Some (e # es, ms')
        })"

text \<open>An entry of \<open>to_sequence\<close>: the height, the hash, and the chain.\<close>

type_synonym entry = "int \<times> CanonicalEnvelopeHash \<times> CanonicalEnvelopeHash"

definition entry_of :: "'m Crypto \<Rightarrow> 'm GenericEnvelope \<Rightarrow> entry" where
  "entry_of c e = (height (header e), canonicalized_hash_ref c e, get_genesis_hash c e)"

text \<open>One chain: what it contributes, what stays, and its next height.\<close>

definition take_chain :: "'m heights \<Rightarrow> int \<Rightarrow> ('m GenericEnvelope list \<times> 'm heights \<times> int) option" where
  "take_chain ms start =
     (if (case ms of [] \<Rightarrow> True | (k, _) # _ \<Rightarrow> k \<noteq> start) then Some ([], ms, start)
      else do {
        let ks = map fst ms;
        next \<leftarrow> scan_keys (zip ks (tl ks @ [i64_max])) start;
        (es, ms') \<leftarrow> remove_range (nat (next - start)) start ms;
        Some (es, ms', next)
      })"

fun take_chains ::
  "'m Crypto \<Rightarrow> 'm heights hash_map \<Rightarrow> int hash_map \<Rightarrow>
   (entry list \<times> 'm heights hash_map \<times> int hash_map) option" where
  "take_chains c [] nh = Some ([], [], nh)"
| "take_chains c ((g, ms) # rest) nh = do {
     (es, ms', next) \<leftarrow> take_chain ms (bt_or 0 nh g);
     (entries, rest', nh') \<leftarrow> take_chains c rest (hm_insert g next nh);
     Some (map (entry_of c) es @ entries, (g, ms') # rest', nh')
   }"

section \<open>A fair order\<close>

text \<open>Heights relative to the first of each chain; the entries are grouped by chain.\<close>

fun normalize_heights :: "int \<Rightarrow> CanonicalEnvelopeHash \<Rightarrow> entry list \<Rightarrow> entry list option" where
  "normalize_heights group_min g [] = Some []"
| "normalize_heights group_min g ((k, h, gen) # r) =
     (if gen = g
      then do {
        k' \<leftarrow> add_i64 k (- group_min);
        r' \<leftarrow> normalize_heights group_min g r;
        Some ((k', h, gen) # r')
      }
      else do {
        k' \<leftarrow> add_i64 k (- k);
        r' \<leftarrow> normalize_heights k gen r;
        Some ((k', h, gen) # r')
      })"

text \<open>
  The shuffle is random: it is an argument, and what is known of it is that it permutes. The sort
  after it is stable.
\<close>

definition order_batch :: "(entry list \<Rightarrow> entry list) \<Rightarrow> entry list \<Rightarrow> entry list option" where
  "order_batch shuffle to_sequence =
     (case to_sequence of
        [] \<Rightarrow> Some []
      | (k, _, g) # _ \<Rightarrow> do {
          ns \<leftarrow> normalize_heights k g to_sequence;
          Some (sort_key fst (shuffle ns))
        })"

text \<open>The message of a batch.\<close>

definition batch_message :: "entry list \<Rightarrow> BroadcastByHost Channelized" where
  "batch_message out = \<lparr>channel_data = Sequence (map (\<lambda>e. fst (snd e)) out), channel = ''default''\<rparr>"

text \<open>One round of the loop: the state after it and the message, if there is anything to sequence.\<close>

definition host_round ::
  "'m Crypto \<Rightarrow> XOnlyPublicKey \<Rightarrow> (entry list \<Rightarrow> entry list) \<Rightarrow> 'm GenericEnvelope Authenticated list \<Rightarrow>
   'm HostState \<Rightarrow> ('m HostState \<times> BroadcastByHost Channelized option) option" where
  "host_round c oracle shuffle vs s = do {
     s1 \<leftarrow> sort_by_genesis c oracle (new_envelopes c vs s);
     (to_sequence, m, nh) \<leftarrow> take_chains c (message_by_genesis s1) (next_height_to_sequence s1);
     ordered \<leftarrow> order_batch shuffle to_sequence;
     Some (s1\<lparr>message_by_genesis := m, next_height_to_sequence := nh\<rparr>,
       if to_sequence = [] then None else Some (batch_message ordered))
   }"

text \<open>The start of the task: the host's chain and the first answer of the database.\<close>

definition host_start ::
  "'m Crypto \<Rightarrow> HostEnvelope Authenticated list \<Rightarrow> 'm GenericEnvelope Authenticated list \<Rightarrow>
   (SequencerError + 'm HostState) option" where
  "host_start c own vs = do {
     r \<leftarrow> already_sequenced own;
     case r of
       Inl e \<Rightarrow> Some (Inl e)
     | Inr hs \<Rightarrow> map_option Inr (skip_sequenced c hs (new_envelopes c vs new_host))
   }"

text \<open>Rounds one after the other, each with its shuffle and what the database has new: the batches.\<close>

fun host_run ::
  "'m Crypto \<Rightarrow> XOnlyPublicKey \<Rightarrow> ((entry list \<Rightarrow> entry list) \<times> 'm GenericEnvelope Authenticated list) list \<Rightarrow>
   'm HostState \<Rightarrow> ('m HostState \<times> BroadcastByHost Channelized list) option" where
  "host_run c oracle [] s = Some (s, [])"
| "host_run c oracle ((shuffle, vs) # rounds) s = do {
     (s1, b) \<leftarrow> host_round c oracle shuffle vs s;
     (s2, bs) \<leftarrow> host_run c oracle rounds s1;
     Some (s2, case b of None \<Rightarrow> bs | Some m \<Rightarrow> m # bs)
   }"

end
