(* ===== verification/Game_Host_Laws.thy ===== *)
theory Game_Host_Laws
  imports Game_Host "HOL-Library.Multiset"
begin

text \<open>
  The host's sequencing: for every chain the sequenced envelopes are consecutive from the next
  height, in order, whatever the shuffle does; a chain that is complete is sequenced to its end;
  and two envelopes of a chain at one height, or one below the next height, stop it.
\<close>

section \<open>Maps\<close>

lemma bt_or_insert [simp]: "bt_or d (hm_insert g v m) g' = (if g' = g then v else bt_or d m g')"
  by (simp add: bt_or_def bt_get_def hm_insert_def update_conv')

lemma map_of_hm_insert [simp]: "map_of (hm_insert g v m) = (map_of m)(g \<mapsto> v)"
  by (simp add: hm_insert_def update_conv')

lemma distinct_hm_insert [simp]: "distinct (map fst m) \<Longrightarrow> distinct (map fst (hm_insert g v m))"
  by (simp add: hm_insert_def distinct_update)

lemma bt_or_none: "k \<notin> fst ` set m \<Longrightarrow> bt_or d m k = d"
  by (simp add: bt_or_def bt_get_None [THEN iffD2])

section \<open>One chain\<close>

lemma remove_range_eq:
  "remove_range n k ms =
    (if \<forall>i < n. bt_get ms (k + int i) \<noteq> None
     then Some (map (\<lambda>i. the (bt_get ms (k + int i))) [0..<n], filter (\<lambda>p. \<not> (k \<le> fst p \<and> fst p < k + int n)) ms)
     else None)"
proof (induction n k ms rule: remove_range.induct)
  case (2 n k ms)
  show ?case
  proof (cases "bt_get ms k")
    case None
    then show ?thesis by (auto intro!: exI [of _ 0])
  next
    case (Some e)
    have up: "P 0 \<and> (\<forall>i < n. P (Suc i)) \<longleftrightarrow> (\<forall>i < Suc n. P i)" for P
      using less_Suc_eq_0_disj by auto
    have all: "(\<forall>i < Suc n. bt_get ms (k + int i) \<noteq> None) = (\<forall>i < n. bt_get (bt_del k ms) (k + 1 + int i) \<noteq> None)"
      using Some by (simp add: up [symmetric] algebra_simps)
    have l: "map (\<lambda>i. the (bt_get ms (k + int i))) [0..<Suc n] =
        e # map (\<lambda>i. the (bt_get (bt_del k ms) (k + 1 + int i))) [0..<n]"
      using Some by (simp add: upt_conv_Cons map_Suc_upt [symmetric] algebra_simps del: upt_Suc)
    have r: "filter (\<lambda>p. \<not> (k + 1 \<le> fst p \<and> fst p < k + 1 + int n)) (bt_del k ms) =
        filter (\<lambda>p. \<not> (k \<le> fst p \<and> fst p < k + int (Suc n))) ms"
      by (auto simp: bt_del_def intro!: filter_cong)
    show ?thesis
      unfolding all l r [symmetric] using 2 [OF Some] Some
      by (simp del: upt_Suc)
  qed
qed simp

lemma scan_keys_result: "scan_keys zs n = Some m \<Longrightarrow> m = n \<or> (\<exists>k \<in> fst ` set zs. m = k + 1)"
  by (induction zs n rule: scan_keys.induct) (auto simp: add_i64_def split: if_splits Option.bind_splits)

text \<open>The scan of contiguous keys ends at the first height that is missing.\<close>

lemma scan_keys_gap:
  assumes "ks \<noteq> []" and "sorted_wrt (<) ks" and "\<forall>k \<in> set ks. 0 \<le> k \<and> k < i64_max - 1"
  shows "\<exists>m. scan_keys (zip ks (tl ks @ [i64_max])) n = Some m \<and> hd ks < m \<and> m \<notin> set ks \<and> {hd ks..<m} \<subseteq> set ks"
  using assms
proof (induction ks rule: induct_list012)
  case (2 k)
  then show ?case by (intro exI [of _ "k + 1"]) (auto simp: add_i64_def i64_max_def)
next
  case (3 k1 k2 r)
  have d: "add_i64 k2 (- k1) = Some (k2 - k1)" using 3 by (auto simp: add_i64_def i64_max_def)
  show ?case
  proof (cases "k2 - k1 = 1")
    case True
    from 3 obtain m where m: "scan_keys (zip (k2 # r) (r @ [i64_max])) n = Some m" "k2 < m"
      "m \<notin> set (k2 # r)" "{k2..<m} \<subseteq> set (k2 # r)" by auto
    have "{k1..<m} = insert k1 {k2..<m}" using True m(2) by auto
    with m True d show ?thesis by (intro exI [of _ m]) auto
  next
    case False
    have "k1 + 1 \<notin> set (k1 # k2 # r)" using False 3 by auto
    moreover have "{k1..<k1 + 1} \<subseteq> set (k1 # k2 # r)" by auto
    ultimately show ?thesis using False 3 d
      by (intro exI [of _ "k1 + 1"]) (auto simp: add_i64_def i64_max_def)
  qed
qed simp

text \<open>The envelopes of a chain from one height up to another.\<close>

definition run_of :: "'m heights \<Rightarrow> int \<Rightarrow> int \<Rightarrow> 'm GenericEnvelope list" where
  "run_of ms a b = map (\<lambda>i. the (bt_get ms (a + int i))) [0..<nat (b - a)]"

definition without_run :: "'m heights \<Rightarrow> int \<Rightarrow> int \<Rightarrow> 'm heights" where
  "without_run ms a b = filter (\<lambda>p. \<not> (a \<le> fst p \<and> fst p < b)) ms"

lemma take_chain_result:
  assumes "bt_ok ms" and "take_chain ms start = Some (es, ms', next)"
  shows "start \<le> next" "{start..<next} \<subseteq> fst ` set ms" "es = run_of ms start next" "ms' = without_run ms start next"
proof -
  have "start \<le> next \<and> {start..<next} \<subseteq> fst ` set ms \<and> es = run_of ms start next \<and> ms' = without_run ms start next"
  proof (cases "case ms of [] \<Rightarrow> True | (k, _) # _ \<Rightarrow> k \<noteq> start")
    case True
    with assms(2) show ?thesis by (auto simp: take_chain_def run_of_def without_run_def)
  next
    case False
    then obtain v r where ms: "ms = (start, v) # r" by (auto split: list.splits prod.splits)
    from assms(2) False obtain scan: "scan_keys (zip (map fst ms) (tl (map fst ms) @ [i64_max])) start = Some next"
      and rr: "remove_range (nat (next - start)) start ms = Some (es, ms')"
      by (auto simp: take_chain_def Let_def split: Option.bind_splits)
    have le: "start \<le> next"
    proof (rule ccontr)
      assume "\<not> start \<le> next"
      with scan_keys_result [OF scan] obtain k where k: "k \<in> fst ` set ms" "next = k + 1"
        by (auto dest!: set_zip_leftD)
      then have "start \<le> k" using assms(1) ms by (auto simp: bt_ok_Cons)
      with k \<open>\<not> start \<le> next\<close> show False by simp
    qed
    from rr have ex: "\<forall>i < nat (next - start). bt_get ms (start + int i) \<noteq> None"
      and es: "es = map (\<lambda>i. the (bt_get ms (start + int i))) [0..<nat (next - start)]"
        "ms' = filter (\<lambda>p. \<not> (start \<le> fst p \<and> fst p < start + int (nat (next - start)))) ms"
      by (auto simp: remove_range_eq split: if_splits)
    have "k \<in> fst ` set ms" if "start \<le> k" "k < next" for k
      using ex [rule_format, of "nat (k - start)"] that by (auto simp: bt_get_None)
    then show ?thesis using le es by (auto simp: run_of_def without_run_def)
  qed
  then show "start \<le> next" "{start..<next} \<subseteq> fst ` set ms" "es = run_of ms start next"
    "ms' = without_run ms start next" by auto
qed

text \<open>A chain whose first envelope is at its next height is taken up to the first missing height.\<close>

lemma take_chain_gap:
  assumes "bt_ok ms" and "\<forall>k \<in> fst ` set ms. 0 \<le> k \<and> k < i64_max - 1" and "\<forall>k \<in> fst ` set ms. start \<le> k"
  shows "\<exists>es ms' next. take_chain ms start = Some (es, ms', next) \<and> next \<notin> fst ` set ms"
proof (cases "case ms of [] \<Rightarrow> True | (k, _) # _ \<Rightarrow> k \<noteq> start")
  case True
  with assms(1,3) have "start \<notin> fst ` set ms" by (cases ms) (force simp: bt_ok_Cons)+
  with True show ?thesis by (simp add: take_chain_def)
next
  case False
  then obtain v r where ms: "ms = (start, v) # r" by (auto split: list.splits prod.splits)
  have ks: "map fst ms \<noteq> []" "sorted_wrt (<) (map fst ms)" "\<forall>k \<in> set (map fst ms). 0 \<le> k \<and> k < i64_max - 1"
    using assms ms by (auto simp: bt_ok_def)
  from scan_keys_gap [OF this] obtain m where
    m: "scan_keys (zip (map fst ms) (tl (map fst ms) @ [i64_max])) start = Some m" "start < m"
      "m \<notin> fst ` set ms" "{start..<m} \<subseteq> fst ` set ms" using ms by fastforce
  have "\<forall>i < nat (m - start). bt_get ms (start + int i) \<noteq> None"
  proof (intro allI impI)
    fix i assume "i < nat (m - start)"
    then have "start + int i \<in> {start..<m}" by auto
    with m(4) show "bt_get ms (start + int i) \<noteq> None" by (auto simp: bt_get_None)
  qed
  with False m(1,3) show ?thesis by (simp add: take_chain_def Let_def remove_range_eq)
qed

text \<open>A chain with an envelope below its next height contributes nothing.\<close>

lemma take_chain_stale:
  assumes "bt_ok ms" and "k \<in> fst ` set ms" and "k < start"
  shows "take_chain ms start = Some ([], ms, start)"
proof -
  obtain k0 v r where ms: "ms = (k0, v) # r" using assms(2) by (cases ms) auto
  have "k0 \<le> k" using assms(1,2) ms by (auto simp: bt_ok_Cons)
  with assms(3) ms show ?thesis by (simp add: take_chain_def)
qed

section \<open>All chains\<close>

abbreviation chain_result :: "int hash_map \<Rightarrow> CanonicalEnvelopeHash \<Rightarrow> 'm heights \<Rightarrow> 'm GenericEnvelope list \<times> 'm heights \<times> int" where
  "chain_result nh g ms \<equiv> the (take_chain ms (bt_or 0 nh g))"

lemma take_chains_result:
  assumes "distinct (map fst m)"
  shows "take_chains c m nh = Some (entries, m', nh') \<Longrightarrow>
    (\<forall>(g, ms) \<in> set m. take_chain ms (bt_or 0 nh g) \<noteq> None) \<and>
    entries = concat (map (\<lambda>(g, ms). map (entry_of c) (fst (chain_result nh g ms))) m) \<and>
    m' = map (\<lambda>(g, ms). (g, fst (snd (chain_result nh g ms)))) m \<and>
    (\<forall>g. bt_or 0 nh' g = (case map_of m g of None \<Rightarrow> bt_or 0 nh g | Some ms \<Rightarrow> snd (snd (chain_result nh g ms))))"
  using assms
proof (induction c m nh arbitrary: entries m' nh' rule: take_chains.induct)
  case (2 c g ms rest nh)
  from "2.prems"(1) obtain es ms' nx en rest' where
    t: "take_chain ms (bt_or 0 nh g) = Some (es, ms', nx)"
      "take_chains c rest (hm_insert g nx nh) = Some (en, rest', nh')"
      "entries = map (entry_of c) es @ en" "m' = (g, ms') # rest'"
    by (auto split: Option.bind_splits prod.splits)
  have d: "distinct (map fst rest)" "\<forall>g' \<in> fst ` set rest. g' \<noteq> g" using "2.prems"(2) by auto
  have same: "bt_or 0 (hm_insert g nx nh) (fst p) = bt_or 0 nh (fst p)" if "p \<in> set rest" for p
    using d(2) that by auto
  note ih = "2.IH" [OF t(1) refl refl t(2) d(1)]
  have "take_chain ms' (bt_or 0 nh g') \<noteq> None" if p: "(g', ms') \<in> set rest" for g' ms'
    using bspec [OF ih [THEN conjunct1] p] same [OF p] by (simp only: split_conv fst_conv not_False_eq_True)
  then have "\<forall>(g', ms') \<in> set rest. take_chain ms' (bt_or 0 nh g') \<noteq> None" by blast
  moreover have "en = concat (map (\<lambda>(g, ms). map (entry_of c) (fst (chain_result nh g ms))) rest)"
    using ih [THEN conjunct2, THEN conjunct1] by (simp only: split_beta same cong: map_cong)
  moreover have "rest' = map (\<lambda>(g, ms). (g, fst (snd (chain_result nh g ms)))) rest"
    using ih [THEN conjunct2, THEN conjunct2, THEN conjunct1] by (simp only: split_beta same cong: map_cong)
  moreover have "bt_or 0 nh' g' = (case map_of ((g, ms) # rest) g' of None \<Rightarrow> bt_or 0 nh g'
      | Some ms \<Rightarrow> snd (snd (chain_result nh g' ms)))" for g'
  proof -
    have "map_of rest g = None" using d(2) by (auto simp: map_of_eq_None_iff)
    with ih [THEN conjunct2, THEN conjunct2, THEN conjunct2] t(1) show ?thesis
      by (cases "g' = g") (auto split: option.split)
  qed
  ultimately show ?case using t by simp
qed simp

lemma take_chains_defined:
  assumes "distinct (map fst m)" and "\<forall>(g, ms) \<in> set m. take_chain ms (bt_or 0 nh g) \<noteq> None"
  shows "take_chains c m nh \<noteq> None"
  using assms
proof (induction c m nh rule: take_chains.induct)
  case (2 c g ms rest nh)
  from "2.prems"(2) obtain es ms' nx where t: "take_chain ms (bt_or 0 nh g) = Some (es, ms', nx)" by fastforce
  have "take_chain ms' (bt_or 0 (hm_insert g nx nh) g') \<noteq> None" if p: "(g', ms') \<in> set rest" for g' ms'
  proof -
    have "g' \<noteq> g" using p "2.prems"(1) by (auto simp: rev_image_eqI)
    with p "2.prems"(2) show ?thesis by auto
  qed
  then have "\<forall>(g', ms') \<in> set rest. take_chain ms' (bt_or 0 (hm_insert g nx nh) g') \<noteq> None" by blast
  with 2 t show ?case by (auto split: Option.bind_splits)
qed simp

section \<open>The fair order\<close>

text \<open>The entries of one chain: heights from \<open>k\<close> on, and the chain's hashes.\<close>

definition segment :: "nat \<Rightarrow> CanonicalEnvelopeHash \<Rightarrow> int \<Rightarrow> CanonicalEnvelopeHash list \<Rightarrow> entry list" where
  "segment j g k hs = map (\<lambda>(i, h). (k + int i, h, g)) (enumerate j hs)"

lemma segment_simps [simp]:
  "segment j g k [] = []" "segment j g k (h # hs) = (k + int j, h, g) # segment (Suc j) g k hs"
  by (simp_all add: segment_def)

lemma segment_props:
  "map (\<lambda>e. fst (snd e)) (segment j g k hs) = hs" "\<forall>e \<in> set (segment j g k hs). snd (snd e) = g"
  "map fst (segment j g k hs) = map (\<lambda>i. k + int i) [j..<j + length hs]"
  by (induction hs arbitrary: j) (auto simp: upt_rec)

lemma segment_nth: "i < length hs \<Longrightarrow> segment j g k hs ! i = (k + int (j + i), hs ! i, g)"
  by (simp add: segment_def nth_enumerate_eq)

lemma segment_sorted: "sorted (map fst (segment j g k hs))" "distinct (map fst (segment j g k hs))"
proof -
  have "sorted (map (\<lambda>i. k + int i) [j..<n])" for n
    by (induction n) (auto simp: sorted_append)
  then show "sorted (map fst (segment j g k hs))" by (simp only: segment_props(3))
  show "distinct (map fst (segment j g k hs))"
    by (simp only: segment_props(3)) (simp add: distinct_map inj_on_def)
qed

lemma filter_segment: "filter (\<lambda>e. snd (snd e) = g') (segment j g k hs) = (if g' = g then segment j g k hs else [])"
  using segment_props(2) [of j g k hs] by (auto simp: filter_id_conv filter_empty_conv)

lemma normalize_segment:
  assumes "0 \<le> k" and "k + int j + int (length hs) \<le> 2 ^ 63"
  shows "normalize_heights k g (segment j g k hs @ rest) =
    map_option (\<lambda>r. segment j g 0 hs @ r) (normalize_heights k g rest)"
  using assms
proof (induction hs arbitrary: j)
  case (Cons h hs)
  then have "add_i64 (k + int j) (- k) = Some (int j)" by (simp add: add_i64_def)
  with Cons show ?case by (cases "normalize_heights k g rest") (simp_all add: option.map_comp comp_def)
qed (cases "normalize_heights k g rest", simp_all)

text \<open>Groups of different chains one after the other.\<close>

lemma normalize_groups:
  assumes "distinct (map fst L)" and "\<forall>(g, k, hs) \<in> set L. 0 \<le> k \<and> k + int (length hs) \<le> 2 ^ 63"
    and "g0 \<notin> fst ` set L"
  shows "normalize_heights k0 g0 (concat (map (\<lambda>(g, k, hs). segment 0 g k hs) L)) =
    Some (concat (map (\<lambda>(g, k, hs). segment 0 g 0 hs) L))"
  using assms
proof (induction L arbitrary: k0 g0)
  case (Cons x L)
  obtain g k hs where x: "x = (g, k, hs)" by (cases x)
  let ?rest = "concat (map (\<lambda>(g, k, hs). segment 0 g k hs) L)"
  show ?case
  proof (cases hs)
    case Nil
    with Cons x show ?thesis by simp
  next
    case (Cons h hs')
    have k: "0 \<le> k" "k + 1 + int (length hs') \<le> 2 ^ 63" using Cons.prems(2) x Cons by auto
    have g: "g \<noteq> g0" "g \<notin> fst ` set L" using Cons.prems x by auto
    have "normalize_heights k g ?rest = Some (concat (map (\<lambda>(g, k, hs). segment 0 g 0 hs) L))"
      using Cons.prems g by (intro Cons.IH) auto
    then show ?thesis
      using g k normalize_segment [of k 1 hs' g ?rest] Cons x by (simp add: add_i64_def)
  qed
qed simp

lemma normalize_first: "g' \<noteq> g \<Longrightarrow> normalize_heights k g ((k, h, g) # r) = normalize_heights k' g' ((k, h, g) # r)"
  by simp

lemma fresh_hash: "\<exists>g :: CanonicalEnvelopeHash. g \<notin> set gs"
proof
  let ?g = "CanonicalEnvelopeHash (Suc (sum_list (map digest gs)))"
  have "digest g \<le> sum_list (map digest gs)" if "g \<in> set gs" for g
    using that by (simp add: member_le_sum_list)
  from this [of ?g] show "?g \<notin> set gs" by auto
qed

lemma strictly_sorted_unique:
  assumes "set xs = set ys" and "sorted (map fst xs)" and "distinct (map fst xs)" and "sorted (map fst ys)"
    and "distinct (map fst ys)"
  shows "xs = (ys :: (int \<times> 'a) list)"
  using assms by (intro map_sorted_distinct_set_unique [where f = fst]) (simp_all add: distinct_map)

text \<open>The order that goes out: by relative height, and each chain's hashes in their order.\<close>

lemma order_batch_result:
  assumes d: "distinct (map fst L)" and b: "\<forall>(g, k, hs) \<in> set L. 0 \<le> k \<and> k + int (length hs) \<le> 2 ^ 63"
    and sh: "\<And>xs. mset (shuffle xs) = mset xs"
  shows "\<exists>out. order_batch shuffle (concat (map (\<lambda>(g, k, hs). segment 0 g k hs) L)) = Some out \<and>
    (out = []) = (concat (map (\<lambda>(g, k, hs). segment 0 g k hs) L) = []) \<and> sorted (map fst out) \<and>
    (\<forall>g. filter (\<lambda>e. snd (snd e) = g) out = (case map_of L g of None \<Rightarrow> [] | Some (k, hs) \<Rightarrow> segment 0 g 0 hs))"
proof -
  let ?in = "concat (map (\<lambda>(g, k, hs). segment 0 g k hs) L)"
  let ?ns = "concat (map (\<lambda>(g, k, hs). segment 0 g 0 hs) L)"
  have out: "order_batch shuffle ?in = Some (sort_key fst (shuffle ?ns))"
  proof (cases ?in)
    case Nil
    have "?ns = []" using Nil by (auto simp: segment_def)
    moreover have "shuffle [] = []" using sh [of "[]"] by simp
    ultimately show ?thesis unfolding order_batch_def Nil by (simp del: concat_eq_Nil_conv)
  next
    case (Cons e r)
    obtain k h g where e: "e = (k, h, g)" by (cases e)
    obtain g0 where g0: "g0 \<notin> set (g # map fst L)" using fresh_hash by blast
    then have "normalize_heights k g0 ?in = Some ?ns" using normalize_groups [OF d b, of g0 k] by simp
    moreover have "normalize_heights k g ?in = normalize_heights k g0 ?in"
      unfolding Cons e by (rule normalize_first) (use g0 in auto)
    ultimately have "normalize_heights k g ?in = Some ?ns" by simp
    with Cons e show ?thesis by (simp add: order_batch_def)
  qed
  have seg: "filter (\<lambda>e. snd (snd e) = g) (concat (map (\<lambda>(g, k, hs). segment 0 g 0 hs) L)) =
      (case map_of L g of None \<Rightarrow> [] | Some (k, hs) \<Rightarrow> segment 0 g 0 hs)" if "distinct (map fst L)" for g L
    using that
  proof (induction L)
    case (Cons x L)
    then have "map_of L (fst x) = None" by (simp add: map_of_eq_None_iff)
    with Cons show ?case by (cases x) (auto simp: filter_segment)
  qed simp
  have "filter (\<lambda>e. snd (snd e) = g) (sort_key fst (shuffle ?ns)) =
      (case map_of L g of None \<Rightarrow> [] | Some (k, hs) \<Rightarrow> segment 0 g 0 hs)" for g
    unfolding filter_sort
  proof (rule strictly_sorted_unique)
    let ?f = "filter (\<lambda>e. snd (snd e) = g)" and ?t = "case map_of L g of None \<Rightarrow> [] | Some (k, hs) \<Rightarrow> segment 0 g 0 hs"
    have m: "mset (?f (shuffle ?ns)) = mset ?t" by (simp only: seg [OF d, symmetric] mset_filter sh)
    have t: "sorted (map fst ?t)" "distinct (map fst ?t)"
      using segment_sorted [of 0 g 0] by (cases "map_of L g", simp, simp only: option.case split_beta)+
    show "set (sort_key fst (?f (shuffle ?ns))) = set ?t"
      using mset_eq_setD [OF m] by (simp only: set_sort)
    show "sorted (map fst ?t)" "distinct (map fst ?t)" by (rule t)+
    show "sorted (map fst (sort_key fst (?f (shuffle ?ns))))" by simp
    have "mset (map fst (sort_key fst (?f (shuffle ?ns)))) = mset (map fst ?t)" using m by simp
    then show "distinct (map fst (sort_key fst (?f (shuffle ?ns))))" 
      by (rule mset_eq_imp_distinct_iff [THEN iffD2, OF _ t(2)])
  qed
  moreover have "(sort_key fst (shuffle ?ns) = []) = (?in = [])"
  proof -
    have "(sort_key fst (shuffle ?ns) = []) = (set (sort_key fst (shuffle ?ns)) = {})" by (simp only: set_empty)
    also have "\<dots> = (?ns = [])" by (simp only: set_sort mset_eq_setD [OF sh] set_empty)
    also have "\<dots> = (?in = [])" by (auto simp: segment_def)
    finally show ?thesis .
  qed
  ultimately show ?thesis using out by simp
qed

section \<open>Batches of envelopes\<close>

text \<open>How many envelopes of its own chain come before an envelope in its batch. A batch is fair
  when this never falls: the first envelope of every chain comes before the second of any.\<close>

definition turn :: "'m Crypto \<Rightarrow> 'm GenericEnvelope list \<Rightarrow> nat \<Rightarrow> nat" where
  "turn c es i = length (filter (\<lambda>e. get_genesis_hash c e = get_genesis_hash c (es ! i)) (take i es))"

definition fair_turns :: "'m Crypto \<Rightarrow> 'm GenericEnvelope list \<Rightarrow> bool" where
  "fair_turns c es = sorted (map (turn c es) [0..<length es])"

lemma segment_position:
  assumes "filter (\<lambda>e. snd (snd e) = g) out = segment 0 g 0 hs" and "i < length out" and "snd (snd (out ! i)) = g"
  shows "fst (out ! i) = int (length (filter (\<lambda>e. snd (snd e) = g) (take i out)))"
    and "nat (fst (out ! i)) < length hs" and "fst (snd (out ! i)) = hs ! nat (fst (out ! i))"
proof -
  let ?f = "filter (\<lambda>e. snd (snd e) = g)"
  let ?n = "length (?f (take i out))"
  have "out = take i out @ out ! i # drop (Suc i) out" using assms(2) by (simp add: id_take_nth_drop)
  from arg_cong [OF this, of ?f] have "?f out = ?f (take i out) @ out ! i # ?f (drop (Suc i) out)"
    using assms(3) by (simp only: filter_append filter.simps simp_thms if_True)
  then have s: "segment 0 g 0 hs = ?f (take i out) @ out ! i # ?f (drop (Suc i) out)" using assms(1) by simp
  have "length (segment 0 g 0 hs) = length hs" by (simp add: segment_def)
  then have n: "?n < length hs" using s by simp
  moreover have "segment 0 g 0 hs ! ?n = out ! i" using s by simp
  ultimately have "out ! i = (int ?n, hs ! ?n, g)" using segment_nth [of ?n hs 0 g 0] by simp
  then show "fst (out ! i) = int ?n" "nat (fst (out ! i)) < length hs" "fst (snd (out ! i)) = hs ! nat (fst (out ! i))"
    using n by simp_all
qed

text \<open>The envelopes behind the entries of a batch, when every chain \<open>g\<close> gives the envelopes \<open>E g\<close>.\<close>

lemma batch_envelopes:
  assumes chain: "\<And>g. filter (\<lambda>x. snd (snd x) = g) out = segment 0 g 0 (map (canonicalized_hash_ref c) (E g))"
    and gen: "\<And>g. \<forall>e \<in> set (E g). get_genesis_hash c e = g" and srt: "sorted (map fst out)"
  defines "es \<equiv> map (\<lambda>x. E (snd (snd x)) ! nat (fst x)) out"
  shows "map (\<lambda>x. fst (snd x)) out = map (canonicalized_hash_ref c) es"
    and "fair_turns c es" and "\<And>g. filter (\<lambda>e. get_genesis_hash c e = g) es = E g"
proof -
  note pos = segment_position [OF chain _ refl]
  have at: "canonicalized_hash_ref c (es ! i) = fst (snd (out ! i))" "get_genesis_hash c (es ! i) = snd (snd (out ! i))"
    if "i < length out" for i
    using pos(2,3) [OF that] gen that by (simp_all add: es_def)
  have [simp]: "length es = length out" by (simp add: es_def)
  show "map (\<lambda>x. fst (snd x)) out = map (canonicalized_hash_ref c) es"
    by (rule nth_equalityI) (simp_all add: at)
  have gs: "map (get_genesis_hash c) es = map (\<lambda>x. snd (snd x)) out"
    by (rule nth_equalityI) (simp_all add: at)
  have count: "length (filter (\<lambda>e. get_genesis_hash c e = g) (take i es)) =
      length (filter (\<lambda>x. snd (snd x) = g) (take i out))" for g i
  proof -
    have "length (filter (\<lambda>e. get_genesis_hash c e = g) (take i es)) =
        length (filter (\<lambda>h. h = g) (take i (map (get_genesis_hash c) es)))"
      by (simp add: take_map filter_map comp_def)
    then show ?thesis by (simp add: gs take_map filter_map comp_def)
  qed
  have "map int (map (turn c es) [0..<length es]) = map fst out"
    by (rule nth_equalityI) (simp_all add: turn_def at count pos(1))
  then have "sorted (map int (map (turn c es) [0..<length es]))" using srt by simp
  then show "fair_turns c es" unfolding fair_turns_def by (simp add: sorted_iff_nth_mono)
  fix g
  have "filter (\<lambda>e. get_genesis_hash c e = g) es =
      map (\<lambda>x. E (snd (snd x)) ! nat (fst x)) (filter (\<lambda>x. snd (snd x) = g) out)"
  proof -
    have "get_genesis_hash c (E (snd (snd x)) ! nat (fst x)) = snd (snd x)" if "x \<in> set out" for x
      using that at(2) by (auto simp: in_set_conv_nth es_def)
    then show ?thesis unfolding es_def filter_map comp_def by (intro arg_cong [where f = "map _"] filter_cong) auto
  qed
  also have "\<dots> = E g"
    unfolding chain by (rule nth_equalityI) (simp_all add: segment_def nth_enumerate_eq)
  finally show "filter (\<lambda>e. get_genesis_hash c e = g) es = E g" .
qed

section \<open>The state\<close>

text \<open>Every message is stored under its chain and its height, and no next height is negative.\<close>

definition stored_ok :: "'m Crypto \<Rightarrow> CanonicalEnvelopeHash \<Rightarrow> 'm heights \<Rightarrow> bool" where
  "stored_ok c g ms = (bt_ok ms \<and>
     (\<forall>(k, e) \<in> set ms. height (header e) = k \<and> get_genesis_hash c e = g \<and> k < 2 ^ 63))"

definition chains_ok :: "'m Crypto \<Rightarrow> 'm heights hash_map \<Rightarrow> bool" where
  "chains_ok c m = (distinct (map fst m) \<and> (\<forall>(g, ms) \<in> set m. stored_ok c g ms))"

definition pending_ok :: "'m GenericEnvelope Authenticated hash_map \<Rightarrow> bool" where
  "pending_ok m = (\<forall>(h, v) \<in> set m. height (header (inner v)) < 2 ^ 63)"

definition host_ok :: "'m Crypto \<Rightarrow> 'm HostState \<Rightarrow> bool" where
  "host_ok c s = (chains_ok c (message_by_genesis s) \<and>
     pending_ok (unprocessed s) \<and>
     (\<forall>g. 0 \<le> bt_or 0 (next_height_to_sequence s) g \<and> bt_or 0 (next_height_to_sequence s) g \<le> 2 ^ 63))"

lemma new_host_ok: "host_ok c new_host"
  by (simp add: host_ok_def chains_ok_def pending_ok_def new_host_def bt_or_def)

lemma chains_ok_iff:
  "chains_ok c m = (distinct (map fst m) \<and> (\<forall>g ms. map_of m g = Some ms \<longrightarrow> stored_ok c g ms))"
  unfolding chains_ok_def by (auto simp: map_of_eq_Some_iff)

lemma chains_ok_get: "chains_ok c m \<Longrightarrow> stored_ok c g (bt_or [] m g)"
  by (cases "map_of m g") (auto simp: chains_ok_iff bt_or_def bt_get_def, simp add: stored_ok_def)

lemma stored_ok_get:
  "stored_ok c g ms \<Longrightarrow> bt_get ms k = Some e \<Longrightarrow> height (header e) = k \<and> get_genesis_hash c e = g \<and> k < 2 ^ 63"
  by (auto simp: stored_ok_def dest!: bt_get_SomeD)

lemma stored_ok_put:
  assumes "stored_ok c (get_genesis_hash c e) ms" and "height (header e) < 2 ^ 63"
  shows "stored_ok c (get_genesis_hash c e) (bt_put (height (header e)) e ms)"
proof -
  have ok: "bt_ok (bt_put (height (header e)) e ms)" using assms(1) by (auto simp: stored_ok_def)
  have "height (header e') = k \<and> get_genesis_hash c e' = get_genesis_hash c e \<and> k < 2 ^ 63"
    if "(k, e') \<in> set (bt_put (height (header e)) e ms)" for k e'
  proof -
    have e': "bt_get (bt_put (height (header e)) e ms) k = Some e'" by (rule iffD2 [OF bt_get_iff [OF ok] that])
    show ?thesis
    proof (cases "k = height (header e)")
      case True
      with e' assms(2) show ?thesis by simp
    next
      case False
      with e' show ?thesis by (intro stored_ok_get [OF assms(1)]) simp
    qed
  qed
  with ok show ?thesis by (auto simp: stored_ok_def)
qed

lemma stored_ok_filter: "stored_ok c g ms \<Longrightarrow> stored_ok c g (filter P ms)"
  by (auto simp: stored_ok_def bt_ok_def sorted_wrt_map sorted_wrt_filter)

lemma chains_ok_insert: "chains_ok c m \<Longrightarrow> stored_ok c g ms \<Longrightarrow> chains_ok c (hm_insert g ms m)"
  by (simp add: chains_ok_iff)

text \<open>The heights of the database are 64-bit numbers.\<close>

abbreviation heights_ok :: "'m GenericEnvelope Authenticated list \<Rightarrow> bool" where
  "heights_ok vs \<equiv> \<forall>v \<in> set vs. height (header (inner v)) < 2 ^ 63"

lemma by_genesis_ok:
  "by_genesis c oracle es m = Some m' \<Longrightarrow> chains_ok c m \<Longrightarrow> heights_ok es \<Longrightarrow> chains_ok c m'"
proof (induction c "oracle" es m rule: by_genesis.induct)
  case (2 c ora e es m)
  then show ?case
    by (auto simp: Let_def chains_ok_insert stored_ok_put chains_ok_get split: if_splits)
qed simp

lemma pending_ok_insert:
  "pending_ok m \<Longrightarrow> height (header (inner v)) < 2 ^ 63 \<Longrightarrow> pending_ok (hm_insert h v m)"
  unfolding pending_ok_def hm_insert_def by (induction m) auto

lemma new_envelopes_ok: "host_ok c s \<Longrightarrow> heights_ok vs \<Longrightarrow> host_ok c (new_envelopes c vs s)"
proof -
  have "pending_ok m \<Longrightarrow> heights_ok vs \<Longrightarrow>
    pending_ok (fold (\<lambda>v m. hm_insert (canonicalized_hash_ref c (inner v)) v m) vs m)" for m
  proof (induction vs arbitrary: m)
    case (Cons v vs)
    from Cons.IH [OF pending_ok_insert [OF Cons.prems(1)]] Cons.prems(2) show ?case by simp
  qed simp
  then show "host_ok c s \<Longrightarrow> heights_ok vs \<Longrightarrow> host_ok c (new_envelopes c vs s)"
    by (simp add: host_ok_def new_envelopes_def)
qed

text \<open>The envelopes that the chains hold, and those that the host holds.\<close>

definition chained :: "'m heights hash_map \<Rightarrow> 'm GenericEnvelope set" where
  "chained m = (\<Union>(g, ms) \<in> set m. snd ` set ms)"

definition held :: "'m HostState \<Rightarrow> 'm GenericEnvelope set" where
  "held s = chained (message_by_genesis s) \<union> inner ` snd ` set (unprocessed s)"

lemma set_hm_insert: "set (hm_insert g v m) \<subseteq> insert (g, v) (set m)"
  unfolding hm_insert_def by (induction m) auto

lemma chained_iff: "x \<in> chained m \<longleftrightarrow> (\<exists>g ms. (g, ms) \<in> set m \<and> x \<in> snd ` set ms)"
  by (auto simp: chained_def)

lemma chainedI: "(g, ms) \<in> set m \<Longrightarrow> x \<in> snd ` set ms \<Longrightarrow> x \<in> chained m"
  unfolding chained_iff by blast

lemma chained_bt_or: "snd ` set (bt_or [] m g) \<subseteq> chained m"
proof (cases "map_of m g")
  case (Some ms)
  then have "bt_or [] m g = ms" by (simp add: bt_or_def bt_get_def)
  with chainedI [OF map_of_SomeD [OF Some]] show ?thesis by blast
qed (simp add: bt_or_def bt_get_def)

lemma chained_insert: "chained (hm_insert g (bt_put k e (bt_or [] m g)) m) \<subseteq> insert e (chained m)"
proof
  fix x assume "x \<in> chained (hm_insert g (bt_put k e (bt_or [] m g)) m)"
  then obtain g' ms where p: "(g', ms) \<in> set (hm_insert g (bt_put k e (bt_or [] m g)) m)" "x \<in> snd ` set ms"
    by (auto simp only: chained_iff)
  from set_hm_insert [of g "bt_put k e (bt_or [] m g)" m] p(1)
  consider "ms = bt_put k e (bt_or [] m g)" | "(g', ms) \<in> set m" by blast
  then show "x \<in> insert e (chained m)"
  proof cases
    case 1
    with p(2) obtain q where "q \<in> set (bt_put k e (bt_or [] m g))" "x = snd q" by blast
    with set_bt_put [of k e "bt_or [] m g"] chained_bt_or [of m g] show ?thesis by fastforce
  next
    case 2
    from chainedI [OF this p(2)] show ?thesis by blast
  qed
qed

lemma chained_shrink:
  assumes "\<And>g ms. (g, ms) \<in> set m \<Longrightarrow> set (f g ms) \<subseteq> set ms"
  shows "chained (map (\<lambda>(g, ms). (g, f g ms)) m) \<subseteq> chained m"
proof
  fix x assume "x \<in> chained (map (\<lambda>(g, ms). (g, f g ms)) m)"
  then obtain g ms where "(g, ms) \<in> set m" "x \<in> snd ` set (f g ms)" by (auto simp: chained_iff)
  with assms [of g ms] show "x \<in> chained m" by (blast intro: chainedI)
qed

lemma by_genesis_chained:
  "by_genesis c ora es m = Some m' \<Longrightarrow> chained m' \<subseteq> chained m \<union> inner ` set es"
proof (induction c "ora" es m rule: by_genesis.induct)
  case (2 c ora e es m)
  let ?m = "hm_insert (get_genesis_hash c (inner e))
      (bt_put (height (header (inner e))) (inner e) (bt_or [] m (get_genesis_hash c (inner e)))) m"
  from 2 have "chained m' \<subseteq> chained ?m \<union> inner ` set es"
    by (auto simp: Let_def split: if_splits)
  with chained_insert show ?case by fastforce
qed simp

lemma snd_hm_insert: "snd ` set (hm_insert g v m) \<subseteq> insert v (snd ` set m)"
  using image_mono [OF set_hm_insert [of g v m], of snd] by simp

lemma new_envelopes_held:
  "inner ` snd ` set (unprocessed (new_envelopes c vs s)) \<subseteq> inner ` snd ` set (unprocessed s) \<union> inner ` set vs"
proof -
  let ?ins = "\<lambda>v. hm_insert (canonicalized_hash_ref c (inner v)) v"
  have "snd ` set (fold ?ins vs m) \<subseteq> snd ` set m \<union> set vs" for m
  proof (induction vs arbitrary: m)
    case (Cons v vs)
    have "snd ` set (fold ?ins (v # vs) m) \<subseteq> snd ` set (?ins v m) \<union> set vs" using Cons [of "?ins v m"] by simp
    also have "\<dots> \<subseteq> insert v (snd ` set m) \<union> set vs" by (intro Un_mono snd_hm_insert subset_refl)
    finally show ?case by simp
  qed simp
  from image_mono [OF this [of "unprocessed s"], of inner] show ?thesis by (simp add: new_envelopes_def image_Un)
qed

section \<open>One round\<close>

lemma length_run_of [simp]: "length (run_of ms a b) = nat (b - a)"
  by (simp add: run_of_def)

lemma run_of_nth:
  assumes "chains_ok c m" and "(g, ms) \<in> set m" and "{a..<b} \<subseteq> fst ` set ms" and "i < nat (b - a)"
  shows "height (header (run_of ms a b ! i)) = a + int i" "get_genesis_hash c (run_of ms a b ! i) = g"
    "a + int i < 2 ^ 63"
proof -
  have "a + int i \<in> fst ` set ms" using assms(3,4) by auto
  then obtain e where e: "bt_get ms (a + int i) = Some e" using bt_get_None [of ms "a + int i"] by blast
  have "stored_ok c g ms" using assms(1,2) by (auto simp: chains_ok_def)
  from stored_ok_get [OF this e] e assms(4)
  show "height (header (run_of ms a b ! i)) = a + int i" "get_genesis_hash c (run_of ms a b ! i) = g"
    "a + int i < 2 ^ 63" by (simp_all add: run_of_def)
qed

lemma run_of_heights:
  assumes "chains_ok c m" and "(g, ms) \<in> set m" and "{a..<b} \<subseteq> fst ` set ms"
  shows "map (\<lambda>e. height (header e)) (run_of ms a b) = [a..b - 1]"
    "\<forall>e \<in> set (run_of ms a b). get_genesis_hash c e = g"
    "map (entry_of c) (run_of ms a b) = segment 0 g a (map (canonicalized_hash_ref c) (run_of ms a b))"
proof -
  note n = run_of_nth [OF assms]
  show "map (\<lambda>e. height (header e)) (run_of ms a b) = [a..b - 1]"
    by (rule nth_equalityI) (auto simp: n)
  show "\<forall>e \<in> set (run_of ms a b). get_genesis_hash c e = g"
    by (auto simp: in_set_conv_nth n)
  show "map (entry_of c) (run_of ms a b) = segment 0 g a (map (canonicalized_hash_ref c) (run_of ms a b))"
    by (rule nth_equalityI) (auto simp: n segment_nth entry_of_def, simp add: segment_def)
qed

text \<open>What stays in the chains is still stored properly.\<close>

lemma chains_ok_shrink:
  assumes "chains_ok c m" and "\<And>g ms. (g, ms) \<in> set m \<Longrightarrow> \<exists>P. f g ms = filter P ms"
  shows "chains_ok c (map (\<lambda>(g, ms). (g, f g ms)) m)"
proof -
  have "map fst (map (\<lambda>(g, ms). (g, f g ms)) m) = map fst m" by auto
  moreover have "stored_ok c g (f g ms)" if p: "(g, ms) \<in> set m" for g ms
    using assms(2) [OF p] assms(1) p by (fastforce simp: chains_ok_def intro: stored_ok_filter)
  ultimately show ?thesis using assms(1) unfolding chains_ok_def by (auto simp del: map_map)
qed

text \<open>The next height of a chain.\<close>

abbreviation next_of :: "'m HostState \<Rightarrow> CanonicalEnvelopeHash \<Rightarrow> int" where
  "next_of s g \<equiv> bt_or 0 (next_height_to_sequence s) g"

lemma next_of_bounds: "host_ok c s \<Longrightarrow> 0 \<le> next_of s g \<and> next_of s g \<le> 2 ^ 63"
  by (simp add: host_ok_def)

text \<open>The chains before anything is taken from them.\<close>

lemma host_round_parts:
  assumes "host_round c ora sh vs s = Some (s', b)"
  obtains m entries m' nh' out where
    "by_genesis c ora (map snd (unprocessed (new_envelopes c vs s))) (message_by_genesis s) = Some m"
    "take_chains c m (next_height_to_sequence s) = Some (entries, m', nh')"
    "order_batch sh entries = Some out"
    "s' = \<lparr>unprocessed = [], message_by_genesis = m', next_height_to_sequence = nh'\<rparr>"
    "b = (if entries = [] then None else Some (batch_message out))"
proof -
  from assms obtain m entries m' nh' out where
    "by_genesis c ora (map snd (unprocessed (new_envelopes c vs s))) (message_by_genesis (new_envelopes c vs s)) = Some m"
    "take_chains c m (next_height_to_sequence (new_envelopes c vs s)) = Some (entries, m', nh')"
    "order_batch sh entries = Some out"
    "s' = \<lparr>unprocessed = [], message_by_genesis = m', next_height_to_sequence = nh'\<rparr>"
    "b = (if entries = [] then None else Some (batch_message out))"
    by (auto simp: host_round_def sort_by_genesis_def split: Option.bind_splits)
  then show ?thesis by (intro that) (simp_all add: new_envelopes_def)
qed

text \<open>What one round does to each chain.\<close>

definition continues :: "'m Crypto \<Rightarrow> CanonicalEnvelopeHash \<Rightarrow> int \<Rightarrow> int \<Rightarrow> 'm GenericEnvelope list \<Rightarrow> bool" where
  "continues c g a b es =
     (a \<le> b \<and> map (\<lambda>e. height (header e)) (filter (\<lambda>e. get_genesis_hash c e = g) es) = [a..b - 1])"

lemma take_chains_ordered:
  assumes m: "chains_ok c m" and bound: "\<And>g. 0 \<le> bt_or 0 nh g \<and> bt_or 0 nh g \<le> 2 ^ 63"
    and tc: "take_chains c m nh = Some (entries, m', nh')" and sh: "\<And>xs. mset (sh xs) = mset xs"
  shows "\<exists>out es. order_batch sh entries = Some out \<and> (es = []) = (entries = []) \<and>
    map (\<lambda>x. fst (snd x)) out = map (canonicalized_hash_ref c) es \<and> fair_turns c es \<and>
    (\<forall>g. continues c g (bt_or 0 nh g) (bt_or 0 nh' g) es) \<and> set es \<union> chained m' \<subseteq> chained m \<and> chains_ok c m' \<and>
    (\<forall>g. 0 \<le> bt_or 0 nh' g \<and> bt_or 0 nh' g \<le> 2 ^ 63)"
proof -
  let ?R = "chain_result nh" and ?hash = "canonicalized_hash_ref c"
  have d: "distinct (map fst m)" using m by (simp add: chains_ok_def)
  note t = take_chains_result [OF d tc]
  have one: "bt_or 0 nh g \<le> snd (snd (?R g ms)) \<and> {bt_or 0 nh g..<snd (snd (?R g ms))} \<subseteq> fst ` set ms \<and>
      fst (?R g ms) = run_of ms (bt_or 0 nh g) (snd (snd (?R g ms))) \<and>
      fst (snd (?R g ms)) = without_run ms (bt_or 0 nh g) (snd (snd (?R g ms)))" if "(g, ms) \<in> set m" for g ms
  proof -
    have "take_chain ms (bt_or 0 nh g) \<noteq> None" using bspec [OF t [THEN conjunct1] that] by simp
    then obtain es ms' nx where r: "take_chain ms (bt_or 0 nh g) = Some (es, ms', nx)" by auto
    have "bt_ok ms" using m that by (auto simp: chains_ok_def stored_ok_def)
    from take_chain_result [OF this r] r show ?thesis by simp
  qed
  let ?L = "map (\<lambda>(g, ms). (g, bt_or 0 nh g, map ?hash (fst (?R g ms)))) m"
  have seg: "map (entry_of c) (fst (?R g ms)) = segment 0 g (bt_or 0 nh g) (map ?hash (fst (?R g ms)))"
    and hts: "map (\<lambda>e. height (header e)) (fst (?R g ms)) = [bt_or 0 nh g..snd (snd (?R g ms)) - 1]"
    and gen: "\<forall>e \<in> set (fst (?R g ms)). get_genesis_hash c e = g"
    if "(g, ms) \<in> set m" for g ms
    using one [OF that] run_of_heights [OF m that, of "bt_or 0 nh g" "snd (snd (?R g ms))"] by simp_all
  have "entries = concat (map (\<lambda>(g, ms). map (entry_of c) (fst (?R g ms))) m)" using t by blast
  also have "map (\<lambda>(g, ms). map (entry_of c) (fst (?R g ms))) m =
      map (\<lambda>(g, k, hs). segment 0 g k hs) ?L" by (auto simp: seg)
  finally have en: "entries = concat (map (\<lambda>(g, k, hs). segment 0 g k hs) ?L)" .
  have top: "snd (snd (?R g ms)) \<le> 2 ^ 63" if p: "(g, ms) \<in> set m" for g ms
  proof (cases "bt_or 0 nh g = snd (snd (?R g ms))")
    case True
    with bound [of g] show ?thesis by simp
  next
    case False
    with one [OF p] have "snd (snd (?R g ms)) - 1 \<in> fst ` set ms" by force
    moreover have "stored_ok c g ms" using m p by (auto simp: chains_ok_def)
    ultimately show ?thesis by (force simp: stored_ok_def)
  qed
  have L1: "distinct (map fst ?L)" using d by (simp add: comp_def split_beta)
  have L2: "\<forall>(g, k, hs) \<in> set ?L. 0 \<le> k \<and> k + int (length hs) \<le> 2 ^ 63"
  proof -
    have "0 \<le> bt_or 0 nh g \<and> bt_or 0 nh g + int (length (fst (?R g ms))) \<le> 2 ^ 63" if p: "(g, ms) \<in> set m" for g ms
      using one [OF p] top [OF p] bound [of g] by (simp add: length_run_of)
    then show ?thesis by auto
  qed
  from order_batch_result [of ?L sh, OF L1 L2 sh] obtain out where ob: "order_batch sh entries = Some out"
    and out: "(out = []) = (entries = [])" "sorted (map fst out)"
    "\<And>g. filter (\<lambda>e. snd (snd e) = g) out = (case map_of ?L g of None \<Rightarrow> [] | Some (k, hs) \<Rightarrow> segment 0 g 0 hs)"
    unfolding en by blast
  have mL: "map_of ?L g = map_option (\<lambda>ms. (bt_or 0 nh g, map ?hash (fst (?R g ms)))) (map_of m g)" for g
    by (induction m) auto
  have nx: "bt_or 0 nh' g = (case map_of m g of None \<Rightarrow> bt_or 0 nh g | Some ms \<Rightarrow> snd (snd (?R g ms)))" for g
    using t by simp
  define E where "E g = (case map_of m g of None \<Rightarrow> [] | Some ms \<Rightarrow> fst (?R g ms))" for g
  have chain: "filter (\<lambda>x. snd (snd x) = g) out = segment 0 g 0 (map ?hash (E g))" for g
    using out(3) [of g] mL [of g] by (cases "map_of m g") (simp_all add: E_def)
  have genE: "\<forall>e \<in> set (E g). get_genesis_hash c e = g" for g
  proof (cases "map_of m g")
    case (Some ms)
    with gen [OF map_of_SomeD [OF Some]] show ?thesis by (simp add: E_def)
  qed (simp add: E_def)
  define es where "es = map (\<lambda>x. E (snd (snd x)) ! nat (fst x)) out"
  note be = batch_envelopes [OF chain genE out(2), folded es_def]
  have cont: "continues c g (bt_or 0 nh g) (bt_or 0 nh' g) es" for g
  proof (cases "map_of m g")
    case None
    with nx [of g] be(3) [of g] show ?thesis by (simp add: continues_def E_def)
  next
    case (Some ms)
    then have p: "(g, ms) \<in> set m" by (rule map_of_SomeD)
    with one [OF p] hts [OF p] nx [of g] be(3) [of g] Some show ?thesis by (simp add: continues_def E_def)
  qed
  have E_in: "set (E g) \<subseteq> chained m" for g
  proof (cases "map_of m g")
    case (Some ms)
    then have p: "(g, ms) \<in> set m" by (rule map_of_SomeD)
    have "set (run_of ms a b) \<subseteq> snd ` set ms" if "{a..<b} \<subseteq> fst ` set ms" for a b
    proof
      fix e assume "e \<in> set (run_of ms a b)"
      then obtain i where i: "i < nat (b - a)" "e = the (bt_get ms (a + int i))" by (auto simp: run_of_def)
      then have "a + int i \<in> fst ` set ms" using that by auto
      then obtain x where "bt_get ms (a + int i) = Some x" using bt_get_None [of ms "a + int i"] by blast
      with i(2) bt_get_SomeD show "e \<in> snd ` set ms" by force
    qed
    with one [OF p] have "set (fst (?R g ms)) \<subseteq> snd ` set ms" by presburger
    with p Some show ?thesis by (auto simp: E_def chained_def)
  qed (simp add: E_def)
  have "set es \<subseteq> chained m"
  proof
    fix e assume "e \<in> set es"
    then have "e \<in> set (filter (\<lambda>x. get_genesis_hash c x = get_genesis_hash c e) es)" by simp
    with be(3) E_in show "e \<in> chained m" by auto
  qed
  moreover have "chained m' \<subseteq> chained m"
  proof -
    have "m' = map (\<lambda>(g, ms). (g, fst (snd (?R g ms)))) m" using t by blast
    moreover have "set (fst (snd (?R g ms))) \<subseteq> set ms" if "(g, ms) \<in> set m" for g ms
      using one [OF that] by (auto simp: without_run_def)
    ultimately show ?thesis using chained_shrink [of m "\<lambda>g ms. fst (snd (?R g ms))"] by simp
  qed
  ultimately have ch: "set es \<union> chained m' \<subseteq> chained m" by blast
  have e0: "(es = []) = (entries = [])" using out(1) by (simp add: es_def)
  have "chains_ok c m'"
  proof -
    have "m' = map (\<lambda>(g, ms). (g, fst (snd (?R g ms)))) m" using t by blast
    moreover have "\<exists>P. fst (snd (?R g ms)) = filter P ms" if "(g, ms) \<in> set m" for g ms
      using one [OF that] by (auto simp: without_run_def)
    ultimately show ?thesis using chains_ok_shrink [OF m, of "\<lambda>g ms. fst (snd (?R g ms))"] by simp
  qed
  moreover have "0 \<le> bt_or 0 nh' g \<and> bt_or 0 nh' g \<le> 2 ^ 63" for g
  proof (cases "map_of m g")
    case None
    with nx [of g] bound [of g] show ?thesis by simp
  next
    case (Some ms)
    from one [OF map_of_SomeD [OF Some]] top [OF map_of_SomeD [OF Some]] bound [of g] nx [of g] Some
    show ?thesis by simp
  qed
  ultimately show ?thesis using ob e0 be(1,2) cont ch by (intro exI [of _ out] exI [of _ es]) blast
qed

lemma collected_ok:
  assumes "host_ok c s" and "heights_ok vs"
    and "by_genesis c ora (map snd (unprocessed (new_envelopes c vs s))) (message_by_genesis s) = Some m"
  shows "chains_ok c m"
proof (rule by_genesis_ok [OF assms(3)])
  show "heights_ok (map snd (unprocessed (new_envelopes c vs s)))"
    using new_envelopes_ok [OF assms(1,2)] by (auto simp: host_ok_def pending_ok_def)
  show "chains_ok c (message_by_genesis s)" using assms(1) by (simp add: host_ok_def)
qed

text \<open>The message for a batch of envelopes.\<close>

definition batch_for :: "'m Crypto \<Rightarrow> 'm GenericEnvelope list \<Rightarrow> BroadcastByHost Channelized" where
  "batch_for c es = \<lparr>channel_data = Sequence (map (canonicalized_hash_ref c) es), channel = ''default''\<rparr>"

lemma batch_message_for:
  "map (\<lambda>x. fst (snd x)) out = map (canonicalized_hash_ref c) es \<Longrightarrow> batch_message out = batch_for c es"
  by (simp add: batch_message_def batch_for_def)

lemma host_round_result:
  assumes ok: "host_ok c s" and hv: "heights_ok vs" and sh: "\<And>xs. mset (sh xs) = mset xs"
    and r: "host_round c ora sh vs s = Some (s', b)"
  shows "\<exists>es. b = (if es = [] then None else Some (batch_for c es)) \<and> fair_turns c es \<and>
      (\<forall>g. continues c g (next_of s g) (next_of s' g) es) \<and> set es \<union> held s' \<subseteq> held s \<union> inner ` set vs \<and> host_ok c s'"
proof -
  from host_round_parts [OF r] obtain m entries m' nh' out where
    bg: "by_genesis c ora (map snd (unprocessed (new_envelopes c vs s))) (message_by_genesis s) = Some m"
    and tc: "take_chains c m (next_height_to_sequence s) = Some (entries, m', nh')"
    and ob: "order_batch sh entries = Some out"
    and s': "s' = \<lparr>unprocessed = [], message_by_genesis = m', next_height_to_sequence = nh'\<rparr>"
    and b: "b = (if entries = [] then None else Some (batch_message out))" .
  from take_chains_ordered [OF collected_ok [OF ok hv bg] next_of_bounds [OF ok] tc sh] ob
  obtain es where es: "(es = []) = (entries = [])" "map (\<lambda>x. fst (snd x)) out = map (canonicalized_hash_ref c) es"
    "fair_turns c es" "\<forall>g. continues c g (next_of s g) (bt_or 0 nh' g) es" "set es \<union> chained m' \<subseteq> chained m"
    "chains_ok c m'" "\<forall>g. 0 \<le> bt_or 0 nh' g \<and> bt_or 0 nh' g \<le> 2 ^ 63" by auto
  have "chained m \<subseteq> held s \<union> inner ` set vs"
  proof -
    have "chained m \<subseteq> chained (message_by_genesis s) \<union> inner ` snd ` set (unprocessed (new_envelopes c vs s))"
      using by_genesis_chained [OF bg] by (simp only: set_map)
    also have "\<dots> \<subseteq> chained (message_by_genesis s) \<union> (inner ` snd ` set (unprocessed s) \<union> inner ` set vs)"
      by (intro Un_mono new_envelopes_held subset_refl)
    finally show ?thesis unfolding held_def by (simp only: Un_assoc)
  qed
  moreover have "held s' = chained m'" by (simp add: held_def s')
  ultimately have "set es \<union> held s' \<subseteq> held s \<union> inner ` set vs" using es(5) by blast
  moreover have "host_ok c s'" using es(6,7) by (simp add: s' host_ok_def pending_ok_def)
  moreover have "b = (if es = [] then None else Some (batch_for c es))"
    using es(1) batch_message_for [OF es(2)] by (simp add: b)
  ultimately show ?thesis using es(3,4) by (intro exI [of _ es]) (simp add: s')
qed

section \<open>Many rounds\<close>

lemma continues_trans:
  assumes "continues c g a b o1" and "continues c g b d o2"
  shows "continues c g a d (o1 @ o2)"
  using assms upto_split1 [of a b "d - 1"] by (cases "b = d") (auto simp: continues_def)

lemma host_run_result:
  assumes "\<forall>(sh, vs) \<in> set rounds. (\<forall>xs. mset (sh xs) = mset xs) \<and> heights_ok vs"
    and "host_ok c s" and "host_run c ora rounds s = Some (s', bs)"
  shows "\<exists>outs. bs = map (batch_for c) outs \<and> (\<forall>es \<in> set outs. es \<noteq> [] \<and> fair_turns c es) \<and>
    (\<forall>g. continues c g (next_of s g) (next_of s' g) (concat outs)) \<and>
    set (concat outs) \<subseteq> held s \<union> (\<Union>(sh, vs) \<in> set rounds. inner ` set vs) \<and> host_ok c s'"
  using assms
proof (induction rounds arbitrary: s bs)
  case Nil
  then show ?case by (intro exI [of _ "[]"]) (simp add: continues_def)
next
  case (Cons x rounds)
  obtain sh vs where x: "x = (sh, vs)" by (cases x)
  from Cons.prems(3) x obtain s1 b bs1 where
    r: "host_round c ora sh vs s = Some (s1, b)" "host_run c ora rounds s1 = Some (s', bs1)"
      "bs = (case b of None \<Rightarrow> bs1 | Some m \<Rightarrow> m # bs1)"
    by (auto split: Option.bind_splits)
  from host_round_result [OF Cons.prems(2) _ _ r(1)] Cons.prems(1) x obtain es where
    o: "b = (if es = [] then None else Some (batch_for c es))" "fair_turns c es"
      "\<And>g. continues c g (next_of s g) (next_of s1 g) es"
      "set es \<union> held s1 \<subseteq> held s \<union> inner ` set vs" "host_ok c s1"
    by auto
  from Cons.IH [OF _ o(5) r(2)] Cons.prems(1) obtain outs where
    os: "bs1 = map (batch_for c) outs" "\<forall>es \<in> set outs. es \<noteq> [] \<and> fair_turns c es"
      "\<And>g. continues c g (next_of s1 g) (next_of s' g) (concat outs)"
      "set (concat outs) \<subseteq> held s1 \<union> (\<Union>(sh, vs) \<in> set rounds. inner ` set vs)" "host_ok c s'" by auto
  let ?outs = "if es = [] then outs else es # outs"
  have c: "concat ?outs = es @ concat outs" by simp
  have "continues c g (next_of s g) (next_of s' g) (concat ?outs)" for g
    unfolding c by (rule continues_trans [OF o(3) os(3)])
  moreover have "set (concat ?outs) \<subseteq> held s \<union> (\<Union>(sh, vs) \<in> set (x # rounds). inner ` set vs)"
    unfolding c using o(4) os(4) x by auto
  ultimately show ?case using o os r(3) by (intro exI [of _ ?outs]) auto
qed

section \<open>When the host panics\<close>

lemma by_genesis_get:
  "by_genesis c ora es m = Some m' \<Longrightarrow>
    (bt_get (bt_or [] m' g) k \<noteq> None) =
      (bt_get (bt_or [] m g) k \<noteq> None \<or> (\<exists>e \<in> set es. get_genesis_hash c (inner e) = g \<and> height (header (inner e)) = k))"
proof (induction c "ora" es m rule: by_genesis.induct)
  case (2 c ora e es m)
  from "2.prems" have "by_genesis c ora es (hm_insert (get_genesis_hash c (inner e))
      (bt_put (height (header (inner e))) (inner e) (bt_or [] m (get_genesis_hash c (inner e)))) m) = Some m'"
    by (auto simp: Let_def split: if_splits)
  with "2.IH" [OF _ refl refl refl] "2.prems" show ?case
    by (auto simp: Let_def split: if_splits)
qed simp

lemma by_genesis_None:
  "(by_genesis c ora es m = None) =
    ((\<exists>e \<in> set es. hdr_key (header (inner e)) = ora) \<or>
     \<not> distinct (map (\<lambda>e. (get_genesis_hash c (inner e), height (header (inner e)))) es) \<or>
     (\<exists>e \<in> set es. bt_get (bt_or [] m (get_genesis_hash c (inner e))) (height (header (inner e))) \<noteq> None))"
proof (induction c "ora" es m rule: by_genesis.induct)
  case (2 c ora e es m)
  let ?g = "get_genesis_hash c (inner e)" and ?k = "height (header (inner e))"
  let ?m = "hm_insert ?g (bt_put ?k (inner e) (bt_or [] m ?g)) m"
  show ?case
  proof (cases "hdr_key (header (inner e)) = ora \<or> bt_get (bt_or [] m ?g) ?k \<noteq> None")
    case True
    then show ?thesis by (auto simp: Let_def)
  next
    case False
    have get: "(bt_get (bt_or [] ?m g) k \<noteq> None) = ((g = ?g \<and> k = ?k) \<or> bt_get (bt_or [] m g) k \<noteq> None)" for g k
      by auto
    have step: "by_genesis c ora (e # es) m = by_genesis c ora es ?m" using False by (simp add: Let_def)
    have "(by_genesis c ora es ?m = None) =
      ((\<exists>e \<in> set es. hdr_key (header (inner e)) = ora) \<or>
       \<not> distinct (map (\<lambda>e. (get_genesis_hash c (inner e), height (header (inner e)))) es) \<or>
       (\<exists>e \<in> set es. bt_get (bt_or [] ?m (get_genesis_hash c (inner e))) (height (header (inner e))) \<noteq> None))"
      by (rule "2.IH") (use False in auto)
    then show ?thesis
      unfolding step get using False
      by (simp only: list.set distinct.simps list.map) (auto simp: image_iff, metis+)
  qed
qed simp

text \<open>The envelopes that are to be sorted into their chains in a round.\<close>

abbreviation arrived :: "'m Crypto \<Rightarrow> 'm GenericEnvelope Authenticated list \<Rightarrow> 'm HostState \<Rightarrow> 'm GenericEnvelope Authenticated list" where
  "arrived c vs s \<equiv> map snd (unprocessed (new_envelopes c vs s))"

lemma host_round_None:
  "by_genesis c ora (arrived c vs s) (message_by_genesis s) = None \<Longrightarrow> host_round c ora sh vs s = None"
  by (simp add: host_round_def sort_by_genesis_def new_envelopes_def)

lemma arrived_all:
  assumes "distinct (map (\<lambda>v. canonicalized_hash_ref c (inner v)) vs)" and "v \<in> set vs"
  shows "v \<in> set (arrived c vs s)"
proof -
  let ?h = "\<lambda>v. canonicalized_hash_ref c (inner v)"
  have "v \<in> set vs \<or> (map_of m (?h v) = Some v \<and> ?h v \<notin> ?h ` set vs) \<Longrightarrow> distinct (map ?h vs) \<Longrightarrow>
    map_of (fold (\<lambda>v m. hm_insert (?h v) v m) vs m) (?h v) = Some v" for m
    using assms(1)
  proof (induction vs arbitrary: m)
    case (Cons w vs)
    show ?case
      by (simp, rule Cons.IH) (use Cons.prems in auto)
  qed simp
  from this [of "unprocessed s"] assms have "map_of (unprocessed (new_envelopes c vs s)) (?h v) = Some v"
    by (simp add: new_envelopes_def)
  then show ?thesis by (force dest: map_of_SomeD)
qed

section \<open>Progress\<close>

text \<open>An envelope of the chain \<open>g\<close> at the height \<open>k\<close> is there in this round.\<close>

definition waiting ::
  "'m Crypto \<Rightarrow> 'm GenericEnvelope Authenticated list \<Rightarrow> 'm HostState \<Rightarrow> CanonicalEnvelopeHash \<Rightarrow> int \<Rightarrow> bool" where
  "waiting c vs s g k = (bt_get (bt_or [] (message_by_genesis s) g) k \<noteq> None \<or>
     (\<exists>e \<in> set (arrived c vs s). get_genesis_hash c (inner e) = g \<and> height (header (inner e)) = k))"

lemma host_round_progress:
  assumes ok: "host_ok c s" and hv: "heights_ok vs" and sh: "\<And>xs. mset (sh xs) = mset xs"
    and bg: "by_genesis c ora (arrived c vs s) (message_by_genesis s) = Some m"
    and w: "\<And>g k. waiting c vs s g k \<Longrightarrow> next_of s g \<le> k \<and> k < i64_max - 1"
  shows "\<exists>s' b. host_round c ora sh vs s = Some (s', b) \<and>
    (\<forall>g. \<not> waiting c vs s g (next_of s' g) \<and> (\<forall>k. next_of s g \<le> k \<and> k < next_of s' g \<longrightarrow> waiting c vs s g k))"
proof -
  let ?nh = "next_height_to_sequence s"
  have m: "chains_ok c m" by (rule collected_ok [OF ok hv bg])
  then have d: "distinct (map fst m)" by (simp add: chains_ok_def)
  have keys: "waiting c vs s g k = (k \<in> fst ` set (bt_or [] m g))" for g k
    using by_genesis_get [OF bg, of g k] bt_get_None [of "bt_or [] m g" k] unfolding waiting_def by simp
  have get: "bt_or [] m g = ms" if "(g, ms) \<in> set m" for g ms
    using that d by (simp add: bt_or_def bt_get_def)
  have gap: "\<exists>es ms' nx. take_chain ms (next_of s g) = Some (es, ms', nx) \<and> nx \<notin> fst ` set ms"
    if p: "(g, ms) \<in> set m" for g ms
  proof (rule take_chain_gap)
    show "bt_ok ms" using m p by (auto simp: chains_ok_def stored_ok_def)
    have "next_of s g \<le> k \<and> k < i64_max - 1" if "k \<in> fst ` set ms" for k
      using w [of g k] that unfolding keys get [OF p] by blast
    then show "\<forall>k \<in> fst ` set ms. 0 \<le> k \<and> k < i64_max - 1" "\<forall>k \<in> fst ` set ms. next_of s g \<le> k"
      using next_of_bounds [OF ok, of g] by fastforce+
  qed
  then have "\<forall>(g, ms) \<in> set m. take_chain ms (next_of s g) \<noteq> None" by force
  from take_chains_defined [OF d this, of c] obtain en m' nh' where tc: "take_chains c m ?nh = Some (en, m', nh')" by auto
  note t = take_chains_result [OF d tc]
  from take_chains_ordered [OF m next_of_bounds [OF ok] tc sh] obtain out where ob: "order_batch sh en = Some out" by auto
  have r: "host_round c ora sh vs s =
    Some (\<lparr>unprocessed = [], message_by_genesis = m', next_height_to_sequence = nh'\<rparr>,
      if en = [] then None else Some (batch_message out))"
    using bg tc ob by (simp add: host_round_def sort_by_genesis_def new_envelopes_def)
  have "\<not> waiting c vs s g (bt_or 0 nh' g) \<and> (\<forall>k. next_of s g \<le> k \<and> k < bt_or 0 nh' g \<longrightarrow> waiting c vs s g k)" for g
  proof (cases "map_of m g")
    case None
    then have "bt_or [] m g = []" by (simp add: bt_or_def bt_get_def)
    with None t show ?thesis by (simp add: keys)
  next
    case (Some ms)
    then have p: "(g, ms) \<in> set m" by (rule map_of_SomeD)
    from gap [OF p] obtain es ms' nx where tk: "take_chain ms (next_of s g) = Some (es, ms', nx)" "nx \<notin> fst ` set ms" by blast
    have "bt_ok ms" using m p by (auto simp: chains_ok_def stored_ok_def)
    from take_chain_result(2) [OF this tk(1)] have "{next_of s g..<nx} \<subseteq> fst ` set ms" .
    moreover have "bt_or 0 nh' g = nx" using t Some tk by simp
    ultimately show ?thesis using tk(2) by (auto simp: keys get [OF p])
  qed
  with r show ?thesis by (intro exI conjI) (rule r, simp)
qed

section \<open>Stuck chains\<close>

lemma bt_get_without_run: "k < a \<Longrightarrow> bt_get (without_run ms a b) k = bt_get ms k"
  unfolding without_run_def bt_get_def by (induction ms) auto

lemma by_genesis_keeps:
  "by_genesis c ora es m = Some m' \<Longrightarrow> bt_get (bt_or [] m g) k = Some e \<Longrightarrow> bt_get (bt_or [] m' g) k = Some e"
proof (induction c "ora" es m rule: by_genesis.induct)
  case (2 c ora x es m)
  let ?g = "get_genesis_hash c (inner x)" and ?k = "height (header (inner x))"
  from "2.prems" have r: "by_genesis c ora es (hm_insert ?g (bt_put ?k (inner x) (bt_or [] m ?g)) m) = Some m'"
    and n: "hdr_key (header (inner x)) \<noteq> ora" "bt_get (bt_or [] m ?g) ?k = None"
    by (auto simp: Let_def split: if_splits)
  from "2.prems"(2) n(2) have "bt_get (bt_or [] (hm_insert ?g (bt_put ?k (inner x) (bt_or [] m ?g)) m) g) k = Some e"
    by (cases "g = ?g \<and> k = ?k") auto
  then show ?case by (intro "2.IH" [OF n(1) refl refl refl _ r]) (use n in auto)
qed simp

lemma map_of_keyed: "map_of (map (\<lambda>(g, v). (g, f g v)) m) g = map_option (f g) (map_of m g)"
  by (induction m) auto

lemma host_round_stuck:
  assumes ok: "host_ok c s" and hv: "heights_ok vs" and r: "host_round c ora sh vs s = Some (s', b)"
    and st: "bt_get (bt_or [] (message_by_genesis s) g) k = Some e" "k < next_of s g"
  shows "next_of s' g = next_of s g \<and> bt_get (bt_or [] (message_by_genesis s') g) k = Some e"
proof -
  from host_round_parts [OF r] obtain m entries m' nh' out where
    bg: "by_genesis c ora (map snd (unprocessed (new_envelopes c vs s))) (message_by_genesis s) = Some m"
    and tc: "take_chains c m (next_height_to_sequence s) = Some (entries, m', nh')"
    and s': "s' = \<lparr>unprocessed = [], message_by_genesis = m', next_height_to_sequence = nh'\<rparr>" .
  have m: "chains_ok c m" by (rule collected_ok [OF ok hv bg])
  then have d: "distinct (map fst m)" by (simp add: chains_ok_def)
  note t = take_chains_result [OF d tc]
  have get: "bt_get (bt_or [] m g) k = Some e" by (rule by_genesis_keeps [OF bg st(1)])
  then obtain ms where ms: "map_of m g = Some ms" "bt_get ms k = Some e"
    by (cases "map_of m g") (auto simp: bt_or_def bt_get_def [of m])
  then have "stored_ok c g ms" using m by (simp add: chains_ok_iff)
  then have "bt_ok ms" by (simp add: stored_ok_def)
  moreover have "k \<in> fst ` set ms" using ms(2) by (force dest: bt_get_SomeD)
  ultimately have tk: "take_chain ms (next_of s g) = Some ([], ms, next_of s g)"
    using st(2) by (rule take_chain_stale)
  have "m' = map (\<lambda>(g, ms). (g, fst (snd (chain_result (next_height_to_sequence s) g ms)))) m" using t by blast
  then have "map_of m' g = Some ms" using ms(1) tk
    by (simp add: map_of_keyed [where f = "\<lambda>g ms. fst (snd (chain_result (next_height_to_sequence s) g ms))"])
  moreover have "bt_or 0 nh' g = next_of s g" using t ms(1) tk by simp
  ultimately show ?thesis using ms(2) by (simp add: s' bt_or_def bt_get_def [of m'])
qed

lemma host_run_stuck:
  assumes "\<forall>(sh, vs) \<in> set rounds. (\<forall>xs. mset (sh xs) = mset xs) \<and> heights_ok vs"
    and "host_ok c s" and "host_run c ora rounds s = Some (s', bs)"
    and "bt_get (bt_or [] (message_by_genesis s) g) k = Some e" and "k < next_of s g"
  shows "next_of s' g = next_of s g"
  using assms
proof (induction rounds arbitrary: s bs)
  case (Cons x rounds)
  obtain sh vs where x: "x = (sh, vs)" by (cases x)
  from Cons.prems(3) x obtain s1 b bs1 where
    r: "host_round c ora sh vs s = Some (s1, b)" "host_run c ora rounds s1 = Some (s', bs1)"
    by (auto split: Option.bind_splits)
  have hv: "heights_ok vs" and sh: "\<And>xs. mset (sh xs) = mset xs" using Cons.prems(1) x by auto
  from host_round_result [OF Cons.prems(2) hv sh r(1)] have ok: "host_ok c s1" by blast
  from host_round_stuck [OF Cons.prems(2) hv r(1) Cons.prems(4,5)]
  have st: "next_of s1 g = next_of s g" "bt_get (bt_or [] (message_by_genesis s1) g) k = Some e" by auto
  with Cons.IH [OF _ ok r(2) st(2)] Cons.prems(1,5) show ?case by simp
qed simp

end
