(* ===== verification/Game_Host_Props.thy ===== *)
theory Game_Host_Props
  imports Game_Host_Laws Message_Laws
begin

text \<open>
  The properties of the host's sequencing task, and a host with two players on which they are
  evaluated.
\<close>

section \<open>Two players\<close>

definition ex_env :: "string \<Rightarrow> int \<Rightarrow> nat \<Rightarrow> nat \<Rightarrow> string GenericEnvelope Authenticated" where
  "ex_env key k g h = Authenticated \<lparr>header = toy_header\<lparr>hdr_key := key, height := k,
       ancestors := (if k = 0 then None else Some \<lparr>prev_msg = genesis_hash, anc_genesis = CanonicalEnvelopeHash g\<rparr>)\<rparr>,
     msg = '''', cache = Some (CanonicalEnvelopeHash h)\<rparr>"

definition ex_arrivals :: "string GenericEnvelope Authenticated list" where
  "ex_arrivals = [ex_env ''alice'' 1 7 8, ex_env ''bob'' 0 9 9, ex_env ''alice'' 0 7 7, ex_env ''alice'' 3 7 5]"

definition ex_late :: "string GenericEnvelope Authenticated list" where
  "ex_late = [ex_env ''alice'' 2 7 6]"

abbreviation host0 :: "string HostState" where
  "host0 \<equiv> new_host"

definition ex_rounds where
  "ex_rounds = [(rev :: entry list \<Rightarrow> entry list, ex_arrivals), (rev, ex_late)]"

lemma ex_host_run:
  "map_option (\<lambda>(s, bs). (map (next_of s) [CanonicalEnvelopeHash 7, CanonicalEnvelopeHash 9], bs))
      (host_run toy_crypto ''host'' ex_rounds host0) =
    Some ([4, 1], map batch_message [[(0, CanonicalEnvelopeHash 9, CanonicalEnvelopeHash 9),
        (0, CanonicalEnvelopeHash 7, CanonicalEnvelopeHash 7), (1, CanonicalEnvelopeHash 8, CanonicalEnvelopeHash 7)],
      [(0, CanonicalEnvelopeHash 6, CanonicalEnvelopeHash 7), (1, CanonicalEnvelopeHash 5, CanonicalEnvelopeHash 7)]])"
  by code_simp

section \<open>Every chain in order\<close>

text \<open>C18: From a well-formed state, such as that of a new host, over any rounds that do not panic, however the envelopes arrive (with
  heights of 64 bits) and however the shuffles permute, the host's
  batches are the hashes of envelopes that it was given, and of every chain the envelopes in them are, from the first batch to
  the last, those at the consecutive heights from the chain's next height on: nothing is skipped,
  repeated or reordered. Each batch is not empty and fair: in the order in which their hashes go out, the
  number of envelopes of its own chain that come before an envelope never falls, so the first
  envelope of every chain in the batch comes before the second of any.\<close>

theorem host_keeps_chain_order:
  assumes "\<forall>(sh, vs) \<in> set rounds. (\<forall>xs. mset (sh xs) = mset xs) \<and> heights_ok vs"
    and "host_ok c s" and "host_run c ora rounds s = Some (s', bs)"
  shows "\<exists>outs. bs = map (batch_for c) outs \<and> (\<forall>es \<in> set outs. es \<noteq> [] \<and> fair_turns c es) \<and>
    set (concat outs) \<subseteq> held s \<union> (\<Union>(sh, vs) \<in> set rounds. inner ` set vs) \<and>
    (\<forall>g. next_of s g \<le> next_of s' g \<and>
      map (\<lambda>e. height (header e)) (filter (\<lambda>e. get_genesis_hash c e = g) (concat outs)) = [next_of s g..next_of s' g - 1])"
  using host_run_result [OF assms] unfolding continues_def by blast

text \<open>What a shuffle and the database may do in the example.\<close>

lemma ex_rounds_ok: "\<forall>(sh, vs) \<in> set ex_rounds. (\<forall>xs. mset (sh xs) = mset xs) \<and> heights_ok vs"
  by (simp add: ex_rounds_def ex_arrivals_def ex_late_def ex_env_def)

theorem host_keeps_chain_order_witness:
  "\<exists>s' bs outs. host_run toy_crypto ''host'' ex_rounds host0 = Some (s', bs) \<and> bs = map (batch_for toy_crypto) outs \<and>
    (\<forall>es \<in> set outs. fair_turns toy_crypto es) \<and>
    map (\<lambda>e. height (header e)) (filter (\<lambda>e. get_genesis_hash toy_crypto e = CanonicalEnvelopeHash 7) (concat outs)) = [0, 1, 2, 3]"
proof -
  from ex_host_run obtain s' bs where r: "host_run toy_crypto ''host'' ex_rounds host0 = Some (s', bs)"
    and n: "next_of s' (CanonicalEnvelopeHash 7) = 4" by auto
  have z: "next_of host0 (CanonicalEnvelopeHash 7) = 0" by (simp add: new_host_def bt_or_def)
  have u: "[0..4 - 1] = [0, 1, 2, 3 :: int]" by code_simp
  from host_keeps_chain_order [OF ex_rounds_ok new_host_ok r] obtain outs where
    o: "bs = map (batch_for toy_crypto) outs" "\<forall>es \<in> set outs. es \<noteq> [] \<and> fair_turns toy_crypto es"
    and g: "\<forall>g. next_of host0 g \<le> next_of s' g \<and>
      map (\<lambda>e. height (header e)) (filter (\<lambda>e. get_genesis_hash toy_crypto e = g) (concat outs)) =
        [next_of host0 g..next_of s' g - 1]" by (elim exE conjE)
  from g [THEN spec, of "CanonicalEnvelopeHash 7"] have
    "map (\<lambda>e. height (header e)) (filter (\<lambda>e. get_genesis_hash toy_crypto e = CanonicalEnvelopeHash 7) (concat outs)) =
      [0, 1, 2, 3]" unfolding n z u by (rule conjunct2)
  with r o show ?thesis by (intro exI conjI) simp_all
qed

section \<open>Progress\<close>

text \<open>C19: Let the host be in a well-formed state, heights have 64 bits and the shuffle only permute. Suppose that, of the envelopes that arrive in a round, none is signed with the host's own
  key, no two are at one height of one chain, and none is at a height of its chain for which an
  envelope is stored already, and that every envelope that waits is at or above the next height of
  its chain, and below the largest 64-bit number but one. Then the round does not panic, and it
  takes every chain up to the first height for which no envelope is there. Without the first
  conditions the round panics.\<close>

theorem host_catches_up:
  assumes "host_ok c s" and "heights_ok vs" and "\<And>xs. mset (sh xs) = mset xs"
    and "\<forall>e \<in> set (arrived c vs s). hdr_key (header (inner e)) \<noteq> ora"
    and "distinct (map (\<lambda>e. (get_genesis_hash c (inner e), height (header (inner e)))) (arrived c vs s))"
    and "\<forall>e \<in> set (arrived c vs s).
      bt_get (bt_or [] (message_by_genesis s) (get_genesis_hash c (inner e))) (height (header (inner e))) = None"
    and "\<And>g k. waiting c vs s g k \<Longrightarrow> next_of s g \<le> k \<and> k < i64_max - 1"
  shows "\<exists>s' b. host_round c ora sh vs s = Some (s', b) \<and>
    (\<forall>g. \<not> waiting c vs s g (next_of s' g) \<and> (\<forall>k. next_of s g \<le> k \<and> k < next_of s' g \<longrightarrow> waiting c vs s g k))"
proof -
  from assms(4,5,6) have "by_genesis c ora (arrived c vs s) (message_by_genesis s) \<noteq> None"
    unfolding by_genesis_None by (simp only: de_Morgan_disj bex_simps not_not)
  then obtain m where m: "by_genesis c ora (arrived c vs s) (message_by_genesis s) = Some m" by blast
  show ?thesis by (rule host_round_progress [OF assms(1,2) _ m assms(7)]) (rule assms(3))
qed

lemma ex_waiting:
  "waiting toy_crypto ex_arrivals host0 g k =
    ((g = CanonicalEnvelopeHash 7 \<and> k \<in> {0, 1, 3}) \<or> (g = CanonicalEnvelopeHash 9 \<and> k = 0))"
proof -
  have "map (\<lambda>e. (get_genesis_hash toy_crypto (inner e), height (header (inner e)))) (arrived toy_crypto ex_arrivals host0) =
    [(CanonicalEnvelopeHash 7, 1), (CanonicalEnvelopeHash 9, 0), (CanonicalEnvelopeHash 7, 0), (CanonicalEnvelopeHash 7, 3)]"
    by code_simp
  note img = arg_cong [OF this, of set, unfolded set_map list.set]
  have "(\<exists>e \<in> set A. get_genesis_hash toy_crypto (inner e) = g \<and> height (header (inner e)) = k) =
    ((g, k) \<in> (\<lambda>e. (get_genesis_hash toy_crypto (inner e), height (header (inner e)))) ` set A)"
    for A :: "string GenericEnvelope Authenticated list" by auto
  note mem = this [of "arrived toy_crypto ex_arrivals host0", unfolded set_map img]
  show ?thesis unfolding waiting_def set_map mem by (auto simp: new_host_def bt_or_def)
qed

theorem host_catches_up_witness:
  "\<exists>s' b. host_round toy_crypto ''host'' rev ex_arrivals host0 = Some (s', b) \<and>
    next_of s' (CanonicalEnvelopeHash 7) = 2"
proof -
  have ok: "list_all (\<lambda>e. hdr_key (header (inner e)) \<noteq> ''host'') (arrived toy_crypto ex_arrivals host0)"
    "distinct (map (\<lambda>e. (get_genesis_hash toy_crypto (inner e), height (header (inner e)))) (arrived toy_crypto ex_arrivals host0))"
    by code_simp+
  have hv: "heights_ok ex_arrivals" using ex_rounds_ok by (simp add: ex_rounds_def)
  have z: "next_of host0 g = 0" for g by (simp add: new_host_def bt_or_def)
  have w: "next_of host0 g \<le> k \<and> k < i64_max - 1" if "waiting toy_crypto ex_arrivals host0 g k" for g k
    using that unfolding ex_waiting z i64_max_def by auto
  have "\<exists>s' b. host_round toy_crypto ''host'' rev ex_arrivals host0 = Some (s', b) \<and>
    (\<forall>g. \<not> waiting toy_crypto ex_arrivals host0 g (next_of s' g) \<and>
      (\<forall>k. next_of host0 g \<le> k \<and> k < next_of s' g \<longrightarrow> waiting toy_crypto ex_arrivals host0 g k))"
    by (rule host_catches_up [OF new_host_ok hv _ ok(1) [unfolded list_all_iff] ok(2)])
      (simp, simp add: new_host_def bt_or_def, rule w)
  then obtain s' b where
    r: "host_round toy_crypto ''host'' rev ex_arrivals host0 = Some (s', b)" and
    n: "\<not> waiting toy_crypto ex_arrivals host0 (CanonicalEnvelopeHash 7) (next_of s' (CanonicalEnvelopeHash 7))"
      "\<forall>k. 0 \<le> k \<and> k < next_of s' (CanonicalEnvelopeHash 7) \<longrightarrow>
        waiting toy_crypto ex_arrivals host0 (CanonicalEnvelopeHash 7) k"
    unfolding z by blast
  from host_round_result [OF new_host_ok hv _ r] have "0 \<le> next_of s' (CanonicalEnvelopeHash 7)"
    by (auto simp: host_ok_def)
  with n have "next_of s' (CanonicalEnvelopeHash 7) = 2"
    using n(2) [rule_format, of 2] n(2) [rule_format, of 3] unfolding ex_waiting by auto
  with r show ?thesis by blast
qed

section \<open>Panics and stuck chains\<close>

lemma same_image: "x \<in> set xs \<Longrightarrow> y \<in> set xs \<Longrightarrow> x \<noteq> y \<Longrightarrow> f x = f y \<Longrightarrow> \<not> distinct (map f xs)"
  by (auto simp: distinct_map inj_on_def)

text \<open>C20: When a player has signed two envelopes for one height of his chain, a round in which both
  arrive panics, whatever the state of the host and whatever else arrives.\<close>

theorem equivocation_stops_the_host:
  assumes "e1 \<in> set vs" and "e2 \<in> set vs" and "e1 \<noteq> e2"
    and "distinct (map (\<lambda>v. canonicalized_hash_ref c (inner v)) vs)"
    and "get_genesis_hash c (inner e1) = get_genesis_hash c (inner e2)"
    and "height (header (inner e1)) = height (header (inner e2))"
  shows "host_round c ora sh vs s = None"
proof (rule host_round_None)
  let ?f = "\<lambda>e. (get_genesis_hash c (inner e), height (header (inner e)))"
  have "e1 \<in> set (arrived c vs s)" "e2 \<in> set (arrived c vs s)"
    using arrived_all [OF assms(4)] assms(1,2) by auto
  moreover have "?f e1 = ?f e2" using assms(5,6) by simp
  ultimately have "\<not> distinct (map ?f (arrived c vs s))"
    using assms(3) by (intro same_image) auto
  then show "by_genesis c ora (arrived c vs s) (message_by_genesis s) = None"
    unfolding by_genesis_None by blast
qed

theorem equivocation_stops_the_host_witness:
  "host_round toy_crypto ''host'' rev (ex_arrivals @ [ex_env ''alice'' 1 7 4]) host0 = None"
proof (rule equivocation_stops_the_host)
  show "ex_env ''alice'' 1 7 8 \<in> set (ex_arrivals @ [ex_env ''alice'' 1 7 4])"
    "ex_env ''alice'' 1 7 4 \<in> set (ex_arrivals @ [ex_env ''alice'' 1 7 4])" by (simp_all add: ex_arrivals_def)
  show "ex_env ''alice'' 1 7 8 \<noteq> ex_env ''alice'' 1 7 4" by (simp add: ex_env_def)
  show "distinct (map (\<lambda>v. canonicalized_hash_ref toy_crypto (inner v)) (ex_arrivals @ [ex_env ''alice'' 1 7 4]))"
    by code_simp
  show "get_genesis_hash toy_crypto (inner (ex_env ''alice'' 1 7 8)) = get_genesis_hash toy_crypto (inner (ex_env ''alice'' 1 7 4))"
    by code_simp
  show "height (header (inner (ex_env ''alice'' 1 7 8))) = height (header (inner (ex_env ''alice'' 1 7 4)))"
    by code_simp
qed

text \<open>Once an envelope below the next height of its chain is stored, that chain is never sequenced
  again, whatever arrives later: its first stored height is not the next one, so it is passed over
  in every round.\<close>

theorem stale_envelope_blocks_chain:
  assumes "\<forall>(sh, vs) \<in> set rounds. (\<forall>xs. mset (sh xs) = mset xs) \<and> heights_ok vs"
    and "host_ok c s" and "host_run c ora rounds s = Some (s', bs)"
    and "bt_get (bt_or [] (message_by_genesis s) g) k = Some e" and "k < next_of s g"
  shows "next_of s' g = next_of s g"
  by (rule host_run_stuck [OF assms])

text \<open>A second envelope at height 1 arrives after height 1 was sequenced; then the next one comes.\<close>

definition ex_stuck where
  "ex_stuck = [(rev :: entry list \<Rightarrow> entry list, [ex_env ''alice'' 0 7 7, ex_env ''alice'' 1 7 8]),
     (rev, [ex_env ''alice'' 1 7 4])]"

definition ex_more where
  "ex_more = [(rev :: entry list \<Rightarrow> entry list, [ex_env ''alice'' 2 7 6, ex_env ''alice'' 3 7 5])]"

lemma ex_stuck_run:
  "map_option (\<lambda>(s, bs). (bt_get (bt_or [] (message_by_genesis s) (CanonicalEnvelopeHash 7)) 1,
      next_of s (CanonicalEnvelopeHash 7), bs = bs))
    (host_run toy_crypto ''host'' ex_stuck host0) = Some (Some (inner (ex_env ''alice'' 1 7 4)), 2, True)"
  "map_option (\<lambda>(s, bs). bs = bs) (host_run toy_crypto ''host'' (ex_stuck @ ex_more) host0) = Some True"
  by code_simp+

lemma host_run_append:
  "host_run c ora (r1 @ r2) s = do { (s1, b1) \<leftarrow> host_run c ora r1 s; (s2, b2) \<leftarrow> host_run c ora r2 s1; Some (s2, b1 @ b2) }"
proof (induction r1 arbitrary: s)
  case Nil
  show ?case by (cases "host_run c ora r2 s") auto
next
  case (Cons x r1)
  obtain sh vs where x: "x = (sh, vs)" by (cases x)
  show ?case
    by (auto simp: x Cons split: Option.bind_split option.splits)
qed

theorem stale_envelope_blocks_chain_witness:
  "\<exists>s s' bs. host_run toy_crypto ''host'' ex_more s = Some (s', bs) \<and>
    next_of s (CanonicalEnvelopeHash 7) = 2 \<and> next_of s' (CanonicalEnvelopeHash 7) = 2"
proof -
  have ok: "\<forall>(sh, vs) \<in> set ex_stuck. (\<forall>xs. mset (sh xs) = mset xs) \<and> heights_ok vs"
    "\<forall>(sh, vs) \<in> set ex_more. (\<forall>xs. mset (sh xs) = mset xs) \<and> heights_ok vs"
    by (simp_all add: ex_stuck_def ex_more_def ex_env_def)
  from ex_stuck_run(1) obtain s b1 where s: "host_run toy_crypto ''host'' ex_stuck host0 = Some (s, b1)"
    and st: "bt_get (bt_or [] (message_by_genesis s) (CanonicalEnvelopeHash 7)) 1 = Some (inner (ex_env ''alice'' 1 7 4))"
      "next_of s (CanonicalEnvelopeHash 7) = 2" by auto
  from ex_stuck_run(2) s obtain s' b2 where s': "host_run toy_crypto ''host'' ex_more s = Some (s', b2)"
    by (auto simp: host_run_append split: Option.bind_splits)
  have "host_ok toy_crypto s" using host_run_result [OF ok(1) new_host_ok s] by blast
  from stale_envelope_blocks_chain [OF ok(2) this s' st(1)] st(2)
  have "next_of s' (CanonicalEnvelopeHash 7) = 2" by simp
  with s' st(2) show ?thesis by (intro exI conjI)
qed

end
