(* ===== verification/Equivocation.thy ===== *)
theory Equivocation
  imports Message_Laws "HOL-Library.AList"
begin

text \<open>
  Nonce reuse (\<open>common/attest-database/src/db_handle/get/nonces.rs\<close>) and what the litigator does
  with it (\<open>common/sapio-litigator/src/universe/extractors/dlog.rs\<close>): two envelopes signed with the
  same precommitted nonce give away the secret key of the signer.

  Big integers are integers; the functions of the number libraries, SHA-256 and the encoding of keys
  are the fields of \<open>NonceLib\<close>, and \<open>nonce_lib_ok\<close> is what is documented of them. A failed
  assertion is \<open>None\<close>.
\<close>

section \<open>The libraries\<close>

datatype Sign = Minus | NoSign | Plus

record NonceLib =
  from_bytes_be :: "u8s \<Rightarrow> int"
  to_bytes_le :: "int \<Rightarrow> Sign \<times> u8s"
  mod_floor :: "int \<Rightarrow> int \<Rightarrow> int"
  extended_gcd :: "int \<Rightarrow> int \<Rightarrow> int \<times> int \<times> int"
  sha256_bytes :: "u8s \<Rightarrow> u8s"
  serialize_key :: "XOnlyPublicKey \<Rightarrow> u8s"
  message_bytes :: "nat \<Rightarrow> u8s"
  secret_from_slice :: "u8s \<Rightarrow> nat option"

text \<open>The value of bytes, most and least significant first.\<close>

definition be_val :: "u8s \<Rightarrow> nat" where
  "be_val bs = fold (\<lambda>b v. 256 * v + b) bs 0"

definition le_val :: "u8s \<Rightarrow> nat" where
  "le_val bs = foldr (\<lambda>b v. 256 * v + b) bs 0"

section \<open>Extracting the key\<close>

text \<open>The order of the group of secp256k1, as its bytes are written in the code.\<close>

definition field_bytes :: u8s where
  "field_bytes =
    [255, 255, 255, 255, 255, 255, 255, 255, 255, 255, 255, 255, 255, 255, 255, 254, 186,
     174, 220, 230, 175, 72, 160, 59, 191, 210, 94, 140, 208, 54, 65, 65]"

definition field :: int where
  "field = int (be_val field_bytes)"

text \<open>The bytes of \<open>"BIP0340/challenge"\<close>.\<close>

definition bip340_challenge :: u8s where
  "bip340_challenge = [66, 73, 80, 48, 51, 52, 48, 47, 99, 104, 97, 108, 108, 101, 110, 103, 101]"

definition get_signature_tagged_hash :: "NonceLib \<Rightarrow> u8s" where
  "get_signature_tagged_hash l = (let tag = sha256_bytes l bip340_challenge in tag @ tag)"

text \<open>The input of the challenge hash of a nonce, a key and a message, and the hash as a number.\<close>

definition challenge_bytes :: "NonceLib \<Rightarrow> u8s \<Rightarrow> XOnlyPublicKey \<Rightarrow> nat \<Rightarrow> u8s" where
  "challenge_bytes l nonce key m =
     sha256_bytes l (get_signature_tagged_hash l @ nonce @ serialize_key l key @ message_bytes l m)"

definition extract_sk ::
  "NonceLib \<Rightarrow> XOnlyPublicKey \<Rightarrow> nat \<Rightarrow> nat \<Rightarrow> u8s \<Rightarrow> u8s \<Rightarrow> u8s \<Rightarrow> nat option option" where
  "extract_sk l key m1 m2 nonce sig1 sig2 =
     (let s1 = from_bytes_be l sig1; s2 = from_bytes_be l sig2;
          d1 = from_bytes_be l (challenge_bytes l nonce key m1);
          d2 = from_bytes_be l (challenge_bytes l nonce key m2);
          divisor = d1 - d2;
          order = from_bytes_be l field_bytes
      in case extended_gcd l divisor order of (g, x, y) \<Rightarrow>
        let inv = mod_floor l x order;
            result = mod_floor l (inv * (s1 - s2)) order
        in case to_bytes_le l result of (s, bytes) \<Rightarrow>
          if s \<noteq> Plus then None
          else Some (secret_from_slice l (rev (bytes @ replicate (32 - length bytes) 0))))"

definition extract_sk_from_envelopes ::
  "'m Crypto \<Rightarrow> NonceLib \<Rightarrow> 'm GenericEnvelope Authenticated \<Rightarrow> 'm GenericEnvelope Authenticated \<Rightarrow> nat option option" where
  "extract_sk_from_envelopes c l a1 a2 =
     (let e1 = inner a1; e2 = inner a2 in
      case extract_used_nonce c e1 of
        None \<Rightarrow> Some None
      | Some nonce \<Rightarrow>
          (if hdr_key (header e1) \<noteq> hdr_key (header e2) then Some None
           else
             case extract_used_nonce c e2 of
               None \<Rightarrow> Some None
             | Some nonce2 \<Rightarrow>
                 (if nonce \<noteq> nonce2 then Some None
                  else
                    case (extract_sig_s e1, extract_sig_s e2) of
                      (Some s1, Some s2) \<Rightarrow>
                        extract_sk l (hdr_key (header e1)) (signature_digest_mut c e1) (signature_digest_mut c e2)
                          (serialize_key l (nonce_key nonce)) s1 s2
                    | _ \<Rightarrow> Some None)))"

section \<open>Looking for reused nonces\<close>

text \<open>The rows of the query, grouped by key.\<close>

definition get_reused_nonces ::
  "'m GenericEnvelope Authenticated list \<Rightarrow> (XOnlyPublicKey \<times> 'm GenericEnvelope Authenticated list) list" where
  "get_reused_nonces rows =
     fold (\<lambda>v acc. let k = hdr_key (header (inner v)) in
             AList.update k (case map_of acc k of None \<Rightarrow> [v] | Some vs \<Rightarrow> vs @ [v]) acc) rows []"

text \<open>
  One round of \<open>dlog_extractor_inner\<close>: keys known already are dropped, and of each other key the last
  two envelopes are tried; an entry with fewer than two ends the extractor with an error.
\<close>

fun dlog_keys ::
  "'m Crypto \<Rightarrow> NonceLib \<Rightarrow> (XOnlyPublicKey \<times> 'm GenericEnvelope Authenticated list) list \<Rightarrow>
   (XOnlyPublicKey \<times> nat) list \<Rightarrow> (string + (XOnlyPublicKey \<times> nat) list) option" where
  "dlog_keys c l [] found = Some (Inr found)"
| "dlog_keys c l ((k, v) # rest) found =
     (if length v < 2 then Some (Inl ''Invariant Broken in Database, reused nonce returned fewer than two'')
      else
        case extract_sk_from_envelopes c l (last v) (last (butlast v)) of
          None \<Rightarrow> None
        | Some None \<Rightarrow> dlog_keys c l rest found
        | Some (Some sk) \<Rightarrow> dlog_keys c l rest (found @ [(k, sk)]))"

definition dlog_round ::
  "'m Crypto \<Rightarrow> NonceLib \<Rightarrow> XOnlyPublicKey list \<Rightarrow> 'm GenericEnvelope Authenticated list \<Rightarrow>
   (string + XOnlyPublicKey list \<times> (XOnlyPublicKey \<times> nat) list) option" where
  "dlog_round c l known rows =
     (let reused = filter (\<lambda>(k, _). k \<notin> set known) (get_reused_nonces rows) in
      map_option (map_sum id (\<lambda>found. (known @ map fst found, found))) (dlog_keys c l reused []))"

end
