(* ===== verification/Equivocation_Laws.thy ===== *)
theory Equivocation_Laws
  imports Equivocation
begin

text \<open>
  A reused nonce gives away the signer's key: the algebra of the extraction, and the extraction from
  two envelopes that were signed with one nonce.
\<close>

section \<open>What is documented of the libraries\<close>

definition nonce_lib_ok :: "NonceLib \<Rightarrow> bool" where
  "nonce_lib_ok l =
    ((\<forall>bs. from_bytes_be l bs = int (be_val bs)) \<and>
     (\<forall>z > 0. \<exists>bs. to_bytes_le l z = (Plus, bs) \<and> int (le_val bs) = z \<and> (\<forall>n. z < 256 ^ n \<longrightarrow> length bs \<le> n)) \<and>
     (\<forall>z m. 0 < m \<longrightarrow> mod_floor l z m = z mod m) \<and>
     (\<forall>a b. case extended_gcd l a b of (g, x, y) \<Rightarrow> g = gcd a b \<and> a * x + b * y = g) \<and>
     (\<forall>bs. length bs = 32 \<and> 0 < be_val bs \<and> int (be_val bs) < field \<longrightarrow> secret_from_slice l bs = Some (be_val bs)))"

lemma nonce_lib_okD:
  assumes "nonce_lib_ok l"
  shows "from_bytes_be l bs = int (be_val bs)" "0 < m \<Longrightarrow> mod_floor l z m = z mod m"
    and "0 < z \<Longrightarrow> \<exists>bs. to_bytes_le l z = (Plus, bs) \<and> int (le_val bs) = z \<and> (\<forall>n. z < 256 ^ n \<longrightarrow> length bs \<le> n)"
    and "case extended_gcd l a b of (g, x, y) \<Rightarrow> g = gcd a b \<and> a * x + b * y = g"
    and "length bs = 32 \<Longrightarrow> 0 < be_val bs \<Longrightarrow> int (be_val bs) < field \<Longrightarrow> secret_from_slice l bs = Some (be_val bs)"
  by (rule assms [unfolded nonce_lib_ok_def, THEN conjunct1, rule_format]
      assms [unfolded nonce_lib_ok_def, THEN conjunct2, THEN conjunct1, rule_format]
      assms [unfolded nonce_lib_ok_def, THEN conjunct2, THEN conjunct2, THEN conjunct1, rule_format]
      assms [unfolded nonce_lib_ok_def, THEN conjunct2, THEN conjunct2, THEN conjunct2, THEN conjunct1, rule_format]
      assms [unfolded nonce_lib_ok_def, THEN conjunct2, THEN conjunct2, THEN conjunct2, THEN conjunct2, rule_format];
      blast)+

text \<open>The challenge of a nonce, a key and a message.\<close>

definition challenge :: "NonceLib \<Rightarrow> u8s \<Rightarrow> XOnlyPublicKey \<Rightarrow> nat \<Rightarrow> int" where
  "challenge l nonce key m = int (be_val (challenge_bytes l nonce key m))"

text \<open>
  BIP 340: a signature is the public nonce and \<open>k + e * d\<close> modulo the order, where \<open>k\<close> and \<open>d\<close> are the
  secret nonce and key, negated if need be so that their points have an even coordinate
  (\<open>evn\<close>), and \<open>e\<close> is the challenge.
\<close>

definition schnorr_ok :: "'m Crypto \<Rightarrow> NonceLib \<Rightarrow> (nat \<Rightarrow> nat) \<Rightarrow> bool" where
  "schnorr_ok c l evn =
    ((\<forall>sk. public_key c (evn sk) = public_key c sk \<and> 0 < evn sk \<and> int (evn sk) < field) \<and>
     (\<forall>n. length (serialize_key l (public_key c n)) = 32) \<and>
     (\<forall>n m sk. \<exists>s. sign_schnorr c n m sk = serialize_key l (public_key c n) @ s \<and> length s = 32 \<and>
        int (be_val s) =
          (int (evn n) + challenge l (serialize_key l (public_key c n)) (public_key c sk) m * int (evn sk)) mod field))"

section \<open>Bytes\<close>

lemma be_val_simps [simp]: "be_val [] = 0" "be_val (bs @ [b]) = 256 * be_val bs + b"
  by (simp_all add: be_val_def)

lemma le_val_simps [simp]: "le_val [] = 0" "le_val (b # bs) = 256 * le_val bs + b"
  by (simp_all add: le_val_def)

lemma be_val_rev: "be_val (rev bs) = le_val bs"
  by (induction bs) simp_all

lemma le_val_pad [simp]: "le_val (bs @ replicate n 0) = le_val bs"
proof (induction bs)
  case Nil
  show ?case by (induction n) simp_all
qed simp

lemma field_value: "field = 2 ^ 256 - 432420386565659656852420866394968145599"
  by (simp add: field_def field_bytes_def be_val_def)

lemma field_bounds: "0 < field" "field < 256 ^ 32"
  by (simp_all add: field_value)

section \<open>The algebra\<close>

lemma recover:
  fixes q :: int
  assumes "q > 0" and "(d1 - d2) * v + q * y = 1" and "0 < x" and "x < q"
  shows "((v mod q) * ((k + d1 * x) mod q - (k + d2 * x) mod q)) mod q = x"
proof -
  have "((v mod q) * ((k + d1 * x) mod q - (k + d2 * x) mod q)) mod q = (v * ((k + d1 * x) - (k + d2 * x))) mod q"
  proof -
    have m: "((v mod q) * z) mod q = (v * (z mod q)) mod q" for z
      by (simp add: mod_mult_left_eq mod_mult_right_eq)
    show ?thesis unfolding m mod_diff_eq by (rule mod_mult_right_eq)
  qed
  also have "v * ((k + d1 * x) - (k + d2 * x)) = x + q * (- (y * x))"
  proof -
    have "v * ((k + d1 * x) - (k + d2 * x)) = ((d1 - d2) * v) * x" by (simp add: algebra_simps)
    also have "(d1 - d2) * v = 1 - q * y" using assms(2) by simp
    finally show ?thesis by (simp add: algebra_simps)
  qed
  also have "(x + q * (- (y * x))) mod q = x mod q" by (rule mod_mult_self2)
  finally show ?thesis using assms by simp
qed

lemma extract_sk_recovers:
  assumes l: "nonce_lib_ok l"
    and s1: "int (be_val sig1) = (k + challenge l nonce key m1 * x) mod field"
    and s2: "int (be_val sig2) = (k + challenge l nonce key m2 * x) mod field"
    and g: "gcd (challenge l nonce key m1 - challenge l nonce key m2) field = 1"
    and x: "0 < x" "x < field"
  shows "extract_sk l key m1 m2 nonce sig1 sig2 = Some (Some (nat x))"
proof -
  let ?d1 = "challenge l nonce key m1" and ?d2 = "challenge l nonce key m2"
  have be: "\<And>bs. from_bytes_be l bs = int (be_val bs)" and
    mf: "\<And>z. mod_floor l z field = z mod field"
    using l field_bounds(1) by (simp_all add: nonce_lib_ok_def)
  obtain g v y where e: "extended_gcd l (?d1 - ?d2) field = (g, v, y)" by (metis prod_cases3)
  have "case extended_gcd l (?d1 - ?d2) field of (g, x, y) \<Rightarrow> g = gcd (?d1 - ?d2) field \<and> (?d1 - ?d2) * x + field * y = g"
    by (rule nonce_lib_okD(4) [OF l])
  with e g have one: "(?d1 - ?d2) * v + field * y = 1" by simp
  have res: "mod_floor l (mod_floor l v field * (int (be_val sig1) - int (be_val sig2))) field = x"
    unfolding mf s1 s2 by (rule recover [OF field_bounds(1) one x])
  obtain bs where bs: "to_bytes_le l x = (Plus, bs)" "int (le_val bs) = x" "\<And>n. x < 256 ^ n \<Longrightarrow> length bs \<le> n"
    using nonce_lib_okD(3) [OF l x(1)] by blast
  have len: "length bs \<le> 32" using bs(3) [of 32] x(2) field_bounds(2) by simp
  let ?out = "rev (bs @ replicate (32 - length bs) 0)"
  have "be_val ?out = nat x" unfolding be_val_rev le_val_pad using bs(2) by simp
  moreover have "length ?out = 32" using len by simp
  ultimately have "secret_from_slice l ?out = Some (nat x)"
    using nonce_lib_okD(5) [OF l, of ?out] x by simp
  with res bs(1) e show ?thesis
    unfolding extract_sk_def Let_def be field_def [symmetric] challenge_def [symmetric] by simp
qed

section \<open>Envelopes\<close>

lemma signature_digest_mut_bare: "signature_digest_mut c e = bare_digest c e"
  by (simp add: signature_digest_mut_def bare_digest_def canonicalized_hash_ref_def)

lemma extract_sk_signed:
  assumes c: "crypto_ok c" and l: "nonce_lib_ok l" and s: "schnorr_ok c l evn"
    and k: "hdr_key (header e1) = public_key c sk" "hdr_key (header e2) = public_key c sk"
    and g: "gcd (challenge l (serialize_key l (public_key c (secret n))) (public_key c sk) (signature_digest_mut c e1) -
        challenge l (serialize_key l (public_key c (secret n))) (public_key c sk) (signature_digest_mut c e2)) field = 1"
  shows "extract_sk_from_envelopes c l (Authenticated (snd (sign_with c sk n e1))) (Authenticated (snd (sign_with c sk n e2)))
    = Some (Some (evn sk))"
proof -
  let ?R = "serialize_key l (public_key c (secret n))"
  have ss: "\<exists>t. sign_schnorr c (secret n) m sk = ?R @ t \<and> length t = 32 \<and> length ?R = 32 \<and>
      int (be_val t) = (int (evn (secret n)) + challenge l ?R (public_key c sk) m * int (evn sk)) mod field" for m
    using s unfolding schnorr_ok_def by blast
  have sig: "\<exists>t. extract_sig_s (snd (sign_with c sk n e)) = Some t \<and>
      int (be_val t) = (int (evn (secret n)) + challenge l ?R (public_key c sk) (bare_digest c e) * int (evn sk)) mod field" for e
    using ss [of "bare_digest c e"] by (auto simp: extract_sig_s_def sign_with_result Let_def)
  obtain t1 t2 where
    t1: "extract_sig_s (snd (sign_with c sk n e1)) = Some t1"
      "int (be_val t1) = (int (evn (secret n)) + challenge l ?R (public_key c sk) (bare_digest c e1) * int (evn sk)) mod field" and
    t2: "extract_sig_s (snd (sign_with c sk n e2)) = Some t2"
      "int (be_val t2) = (int (evn (secret n)) + challenge l ?R (public_key c sk) (bare_digest c e2) * int (evn sk)) mod field"
    using sig [of e1] sig [of e2] by blast
  have x: "0 < int (evn sk)" "int (evn sk) < field" using s by (simp_all add: schnorr_ok_def)
  have key: "hdr_key (header (snd (sign_with c sk n e))) = hdr_key (header e)"
    and dig: "signature_digest_mut c (snd (sign_with c sk n e)) = bare_digest c e" for e
    by (simp_all add: sign_with_result Let_def signature_digest_mut_bare)
  have "extract_sk l (public_key c sk) (bare_digest c e1) (bare_digest c e2) ?R t1 t2 = Some (Some (nat (int (evn sk))))"
    using g by (intro extract_sk_recovers [OF l t1(2) t2(2) _ x]) (simp add: signature_digest_mut_bare)
  then show ?thesis
    by (simp add: extract_sk_from_envelopes_def Let_def used_nonce_signed [OF c] key dig k t1(1) t2(1))
qed

section \<open>An instance\<close>

text \<open>
  Numbers as the libraries compute them; the hash of bytes is their last byte, a message is its
  number, and a key is written as its length.
\<close>

fun le_digits :: "nat \<Rightarrow> u8s" where
  "le_digits v = (if v = 0 then [] else v mod 256 # le_digits (v div 256))"

fun be_digits :: "nat \<Rightarrow> nat \<Rightarrow> u8s" where
  "be_digits 0 v = []"
| "be_digits (Suc n) v = be_digits n (v div 256) @ [v mod 256]"

declare le_digits.simps [simp del]

lemma le_digits_val: "le_val (le_digits v) = v"
  by (induction v rule: le_digits.induct) (subst le_digits.simps, simp)

lemma le_digits_length: "v < 256 ^ n \<Longrightarrow> length (le_digits v) \<le> n"
proof (induction v arbitrary: n rule: le_digits.induct)
  case (1 v)
  show ?case
  proof (cases "v = 0")
    case True
    then show ?thesis by (subst le_digits.simps) simp
  next
    case False
    with 1(2) obtain k where n: "n = Suc k" by (cases n) auto
    with 1(2) have "v div 256 < 256 ^ k" by (simp add: div_less_iff_less_mult mult.commute)
    with 1(1) [OF False] n False show ?thesis by (subst le_digits.simps) simp
  qed
qed

lemma be_digits_val: "be_val (be_digits n v) = v mod 256 ^ n" and be_digits_length: "length (be_digits n v) = n"
  by (induction n v rule: be_digits.induct) (simp_all add: mod_mult2_eq)

definition toy_egcd :: "int \<Rightarrow> int \<Rightarrow> int \<times> int \<times> int" where
  "toy_egcd a b = (gcd a b, sgn a * fst (bezw (nat \<bar>a\<bar>) (nat \<bar>b\<bar>)), sgn b * snd (bezw (nat \<bar>a\<bar>) (nat \<bar>b\<bar>)))"

lemma toy_egcd_law: "case toy_egcd a b of (g, x, y) \<Rightarrow> g = gcd a b \<and> a * x + b * y = g"
proof -
  let ?w = "bezw (nat \<bar>a\<bar>) (nat \<bar>b\<bar>)"
  have abs: "c * (sgn c * z) = z * \<bar>c\<bar>" for c z :: int
    by (simp only: abs_sgn ac_simps)
  have "a * (sgn a * fst ?w) + b * (sgn b * snd ?w) = fst ?w * \<bar>a\<bar> + snd ?w * \<bar>b\<bar>"
    by (simp only: abs)
  also have "\<dots> = gcd a b" 
    by (simp only: gcd_int_def bezw_aux nat_0_le abs_ge_zero)
  finally show ?thesis by (simp only: toy_egcd_def split_conv)
qed

definition toy_nonce_lib :: NonceLib where
  "toy_nonce_lib = \<lparr>from_bytes_be = (\<lambda>bs. int (be_val bs)),
     to_bytes_le = (\<lambda>z. (if z = 0 then NoSign else if z < 0 then Minus else Plus, le_digits (nat \<bar>z\<bar>))),
     mod_floor = (mod), extended_gcd = toy_egcd, sha256_bytes = (\<lambda>bs. [last bs]),
     serialize_key = (\<lambda>k. replicate 31 0 @ [length k]), message_bytes = (\<lambda>m. [m]),
     secret_from_slice = (\<lambda>bs. if 0 < be_val bs \<and> int (be_val bs) < field then Some (be_val bs) else None)\<rparr>"

lemma toy_nonce_lib_ok: "nonce_lib_ok toy_nonce_lib"
proof -
  have "int (le_val (le_digits (nat z))) = z \<and> (\<forall>n. z < 256 ^ n \<longrightarrow> length (le_digits (nat z)) \<le> n)" if "0 < z" for z
    using that le_digits_length [of "nat z"] by (auto simp: le_digits_val nat_less_iff)
  then show ?thesis using toy_egcd_law by (simp add: nonce_lib_ok_def toy_nonce_lib_def)
qed

lemma toy_challenge: "challenge toy_nonce_lib nonce key m = int m"
  by (simp add: challenge_def challenge_bytes_def toy_nonce_lib_def be_val_def)

text \<open>Keys from 1 to the order are themselves; a signature is as BIP 340 says.\<close>

definition toy_even :: "nat \<Rightarrow> nat" where
  "toy_even n = (if 0 < n \<and> int n < field then n else 1)"

definition schnorr_crypto :: "string Crypto" where
  "schnorr_crypto = toy_crypto\<lparr>
     public_key := \<lambda>n. toy_public_key (toy_even n),
     from_slice := \<lambda>s. Some (toy_public_key (last s)),
     verify_schnorr := \<lambda>s m k. if length s = 64 then Inr () else Inl ''bad'',
     sign_schnorr := \<lambda>n m sk. (replicate 31 0 @ [toy_even n]) @
       be_digits 32 (nat ((int (toy_even n) + int m * int (toy_even sk)) mod field))\<rparr>"

lemma toy_even_simps: "0 < toy_even n" "int (toy_even n) < field" "toy_even (toy_even n) = toy_even n"
  using field_bounds by (simp_all add: toy_even_def field_value)

lemma schnorr_crypto_ok: "crypto_ok schnorr_crypto"
  by (simp add: crypto_ok_def schnorr_crypto_def be_digits_length)

lemma schnorr_crypto_law: "schnorr_ok schnorr_crypto toy_nonce_lib toy_even"
proof -
  have "int (be_val (be_digits 32 (nat (z mod field)))) = z mod field" for z
  proof -
    have "0 \<le> z mod field" "z mod field < 256 ^ 32"
      using field_bounds pos_mod_bound [OF field_bounds(1), of z] pos_mod_sign [OF field_bounds(1), of z] by auto
    then have "nat (z mod field) < 256 ^ 32" by (simp add: nat_less_iff)
    with \<open>0 \<le> z mod field\<close> show ?thesis by (simp add: be_digits_val)
  qed
  then show ?thesis
    by (simp add: schnorr_ok_def schnorr_crypto_def toy_challenge toy_even_simps be_digits_length)
      (simp add: toy_nonce_lib_def toy_public_key_def be_digits_length)
qed

section \<open>The property\<close>

text \<open>C21: Two envelopes of one signer that were signed with the same nonce give his secret key to
  anyone who sees them, whenever their challenges differ by a unit of the field: the extraction does
  not panic and returns the secret (up to the sign that BIP 340 fixes), whose public key is the key
  in the envelopes.\<close>

theorem equivocation_reveals_the_key:
  assumes "crypto_ok c" and "nonce_lib_ok l" and "schnorr_ok c l evn"
    and "hdr_key (header e1) = public_key c sk" and "hdr_key (header e2) = public_key c sk"
    and "gcd (challenge l (serialize_key l (public_key c (secret n))) (public_key c sk) (signature_digest_mut c e1) -
        challenge l (serialize_key l (public_key c (secret n))) (public_key c sk) (signature_digest_mut c e2)) field = 1"
  shows "extract_sk_from_envelopes c l (Authenticated (snd (sign_with c sk n e1)))
      (Authenticated (snd (sign_with c sk n e2))) = Some (Some (evn sk)) \<and>
    public_key c (evn sk) = hdr_key (header e1)"
  using extract_sk_signed [OF assms] assms(3,4) by (simp add: schnorr_ok_def)

text \<open>Two messages of different lengths, by the key 3.\<close>

definition ex_sent :: "string \<Rightarrow> string GenericEnvelope" where
  "ex_sent m = new_envelope schnorr_crypto toy_header m"

theorem equivocation_reveals_the_key_witness:
  "extract_sk_from_envelopes schnorr_crypto toy_nonce_lib
      (Authenticated (snd (sign_with schnorr_crypto 3 (PrecomittedNonce 7) (ex_sent ''hi''))))
      (Authenticated (snd (sign_with schnorr_crypto 3 (PrecomittedNonce 7) (ex_sent ''bye'')))) = Some (Some 3)"
proof -
  have e3: "toy_even 3 = 3" by (simp add: toy_even_def field_value)
  have k: "hdr_key (header (ex_sent m)) = public_key schnorr_crypto 3" for m
    by (simp add: ex_sent_def new_envelope_def toy_header_def schnorr_crypto_def e3)
  have d: "signature_digest_mut schnorr_crypto (ex_sent m) = length m" for m
    by (simp add: signature_digest_mut_def ex_sent_def new_envelope_def canonicalized_hash_ref_def compute_hash_def
        schnorr_crypto_def toy_crypto_def set_signature_def)
  show ?thesis
    using equivocation_reveals_the_key [OF schnorr_crypto_ok toy_nonce_lib_ok schnorr_crypto_law k k,
        of "PrecomittedNonce 7" "''hi''" "''bye''"]
    by (simp add: toy_challenge d e3)
qed

end
