(* ===== verification/Contract.thy ===== *)
theory Contract
  imports Play Sequencer
begin

text \<open>
  The contract that holds the players' bitcoin (\<open>contracts/modules/mining_game/src/mining_game.rs\<close>,
  with \<open>GameKernel\<close> of \<open>common/simps\<close> and the contract's arguments from
  \<open>common/sapio-litigator-events\<close>): who may spend when, how a finished game is replayed, and what
  it pays. Transaction templates and spending clauses are of the Sapio library: they are the fields
  of \<open>TemplateLib\<close> and \<open>ClauseLib\<close>. Amounts are satoshis, keys are their texts.
\<close>

section \<open>Data\<close>

record GameKernel =
  game_host :: XOnlyPublicKey
  kernel_players :: "(XOnlyPublicKey, u64) btree_map"
  kernel_timeout :: u64

record ListenBlockHeader =
  current_block_header :: string
  parent_in :: string

type_synonym ExtractedMoveEnvelopes = "(MoveEnvelope \<times> XOnlyPublicKey) list"

datatype GameEnd =
  HostCheatEquivocate nat | HostCheatCensor | PlayersWin ExtractedMoveEnvelopes
| PlayersLose ExtractedMoveEnvelopes | Degrade ListenBlockHeader

text \<open>The text of a termination is a literal, or the debug output of a replay.\<close>

datatype Termination = Text string | DebugOf "GameBoard + FinishReason \<times> GameBoard"

datatype CompilationError =
  TerminateWith Termination | ContinuationCoercion string | LibraryError string

section \<open>The libraries\<close>

record 'tmpl TemplateLib =
  new_template :: "u64 \<Rightarrow> 'tmpl"
  add_output :: "'tmpl \<Rightarrow> u64 \<Rightarrow> XOnlyPublicKey \<Rightarrow> string + 'tmpl"
  outputs :: "'tmpl \<Rightarrow> (u64 \<times> XOnlyPublicKey) list"
  key_from_str :: "string \<Rightarrow> XOnlyPublicKey option"

record 'c ClauseLib =
  key_clause :: "XOnlyPublicKey \<Rightarrow> 'c"
  threshold :: "nat \<Rightarrow> 'c list \<Rightarrow> 'c"
  and_clause :: "'c list \<Rightarrow> 'c"
  rel_height :: "nat \<Rightarrow> 'c"

section \<open>Who may spend\<close>

definition all_players_signed :: "'c ClauseLib \<Rightarrow> GameKernel \<Rightarrow> 'c" where
  "all_players_signed l k =
     (let sub = map (key_clause l) (bt_keys (kernel_players k)) in threshold l (length sub) sub)"

definition degrade_every_n_blocks :: nat where
  "degrade_every_n_blocks = 6"

abbreviation "add16 \<equiv> add_w 16"

text \<open>\<open>for parties in (1..=total).rev()\<close>, with the 16-bit height of the next trigger.\<close>

fun quorum_clauses :: "'c ClauseLib \<Rightarrow> XOnlyPublicKey \<Rightarrow> 'c list \<Rightarrow> nat \<Rightarrow> nat \<Rightarrow> 'c list option" where
  "quorum_clauses l host keys 0 next_trigger_at = Some []"
| "quorum_clauses l host keys (Suc n) next_trigger_at = do {
     let v = [rel_height l (max next_trigger_at 1), threshold l (Suc n) keys, key_clause l host];
     t1 \<leftarrow> add16 next_trigger_at degrade_every_n_blocks;
     let w = and_clause l [threshold l (Suc n) keys, rel_height l t1];
     t2 \<leftarrow> add16 t1 degrade_every_n_blocks;
     rest \<leftarrow> quorum_clauses l host keys n t2;
     Some (threshold l (length v) v # w # rest)
   }"

definition degraded_quorum :: "'c ClauseLib \<Rightarrow> GameKernel \<Rightarrow> 'c option" where
  "degraded_quorum l k = do {
     let total = length (kernel_players k);
     capacity \<leftarrow> sub_w total 1;
     clauses \<leftarrow> quorum_clauses l (game_host k) (map (key_clause l) (bt_keys (kernel_players k))) total 0;
     Some (threshold l 1 clauses)
   }"

section \<open>Replaying the game\<close>

text \<open>The board that did not finish is the error of the replay.\<close>

fun replay :: "ExtractedMoveEnvelopes \<Rightarrow> GameBoard \<Rightarrow> (GameBoard + FinishReason \<times> GameBoard) option" where
  "replay [] game = Some (Inl game)"
| "replay ((mv, pk) # rest) game = do {
     (r, game') \<leftarrow> play mv pk game;
     case r of
       Inl (GameIsFinished g) \<Rightarrow> Some (Inr (g, game'))
     | _ \<Rightarrow> replay rest game'
   }"

definition contract_setup :: "GameKernel \<Rightarrow> GameSetup" where
  "contract_setup k = \<lparr>players = bt_keys (kernel_players k), start_amount = 100000000,
     setup_finish_time = kernel_timeout k\<rparr>"

definition get_finished_board ::
  "GameKernel \<Rightarrow> ExtractedMoveEnvelopes \<Rightarrow> (GameBoard + FinishReason \<times> GameBoard) option" where
  "get_finished_board k trace = do { game \<leftarrow> new_board (contract_setup k); replay trace game }"

section \<open>Paying out\<close>

fun pay_distribution ::
  "'tmpl TemplateLib \<Rightarrow> (string \<times> u64) list \<Rightarrow> 'tmpl \<Rightarrow> CompilationError + 'tmpl" where
  "pay_distribution l [] tmpl = Inr tmpl"
| "pay_distribution l ((strkey, coin) # dist) tmpl =
     (case key_from_str l strkey of
        None \<Rightarrow> Inl (TerminateWith (Text (''Corrupt GameBoard, Invalid Key: '' @ strkey)))
      | Some key \<Rightarrow>
          (case add_output l tmpl coin key of
             Inl e \<Rightarrow> Inl (LibraryError e)
           | Inr tmpl' \<Rightarrow> pay_distribution l dist tmpl'))"

definition close_game ::
  "'tmpl TemplateLib \<Rightarrow> GameKernel \<Rightarrow> u64 \<Rightarrow> GameBoard \<Rightarrow> (CompilationError + 'tmpl) option" where
  "close_game l k funds game = do {
     dist \<leftarrow> get_close_distribution game funds (game_host k);
     case dist of
       Inl _ \<Rightarrow> Some (Inl (TerminateWith (Text ''Game Not Finished, Violating Invariant that was finished'')))
     | Inr d \<Rightarrow> Some (pay_distribution l d (new_template l funds))
   }"

text \<open>No argument means no transaction (\<open>empty()\<close>).\<close>

definition game_end_players_win ::
  "'tmpl TemplateLib \<Rightarrow> GameKernel \<Rightarrow> u64 \<Rightarrow> ExtractedMoveEnvelopes option \<Rightarrow>
   (CompilationError + 'tmpl option) option" where
  "game_end_players_win l k funds game_trace =
     (case game_trace of
        None \<Rightarrow> Some (Inr None)
      | Some trace \<Rightarrow> do {
          r \<leftarrow> get_finished_board k trace;
          case r of
            Inr (TimeExpired, game) \<Rightarrow> map_option (map_sum id Some) (close_game l k funds game)
          | e \<Rightarrow> Some (Inl (TerminateWith (DebugOf e)))
        })"

definition game_end_players_lose ::
  "'tmpl TemplateLib \<Rightarrow> GameKernel \<Rightarrow> u64 \<Rightarrow> ExtractedMoveEnvelopes option \<Rightarrow>
   (CompilationError + 'tmpl option) option" where
  "game_end_players_lose l k funds game_trace =
     (case game_trace of
        None \<Rightarrow> Some (Inr None)
      | Some trace \<Rightarrow> do {
          r \<leftarrow> get_finished_board k trace;
          case r of
            Inr (DominatingPlayer i, game) \<Rightarrow> map_option (map_sum id Some) (close_game l k funds game)
          | e \<Rightarrow> Some (Inl (TerminateWith (DebugOf e)))
        })"

text \<open>Everybody gets his deposit back.\<close>

fun refund :: "'tmpl TemplateLib \<Rightarrow> (XOnlyPublicKey, u64) btree_map \<Rightarrow> 'tmpl \<Rightarrow> CompilationError + 'tmpl" where
  "refund l [] tmpl = Inr tmpl"
| "refund l ((player, bal) # rest) tmpl =
     (case add_output l tmpl bal player of
        Inl e \<Rightarrow> Inl (LibraryError e)
      | Inr tmpl' \<Rightarrow> refund l rest tmpl')"

definition host_cheat_equivocate ::
  "'tmpl TemplateLib \<Rightarrow> GameKernel \<Rightarrow> u64 \<Rightarrow> nat option \<Rightarrow> CompilationError + 'tmpl option" where
  "host_cheat_equivocate l k funds proof_of =
     (case proof_of of
        None \<Rightarrow> Inr None
      | Some _ \<Rightarrow> map_sum id Some (refund l (kernel_players k) (new_template l funds)))"

definition host_cheat_censor :: "unit option \<Rightarrow> CompilationError + 'tmpl option" where
  "host_cheat_censor proof_of =
     (case proof_of of Some _ \<Rightarrow> Inl (TerminateWith (Text ''Not Yet Supported'')) | None \<Rightarrow> Inr None)"

text \<open>The refund of \<open>degrade\<close> is also signed and sent by the roles it names.\<close>

record AutBroadcastOptions =
  sign :: bool
  sign_all :: bool
  send :: bool
  finalize :: bool

definition degrade_roles :: "GameKernel \<Rightarrow> (XOnlyPublicKey \<times> AutBroadcastOptions) list" where
  "degrade_roles k = map (\<lambda>f. (f, \<lparr>sign = True, sign_all = True, send = True, finalize = True\<rparr>))
     (bt_keys (kernel_players k) @ [game_host k])"

definition degrade ::
  "'tmpl TemplateLib \<Rightarrow> GameKernel \<Rightarrow> u64 \<Rightarrow> ListenBlockHeader option \<Rightarrow>
   CompilationError + ('tmpl \<times> (XOnlyPublicKey \<times> AutBroadcastOptions) list) option" where
  "degrade l k funds unit_arg =
     (case unit_arg of
        None \<Rightarrow> Inr None
      | Some _ \<Rightarrow> map_sum id (\<lambda>t. Some (t, degrade_roles k)) (refund l (kernel_players k) (new_template l funds)))"

definition ensure_amount :: "GameKernel \<Rightarrow> u64 option" where
  "ensure_amount k = sum_w 64 0 (bt_vals (kernel_players k))"

section \<open>Coercions\<close>

definition coerce_dlog_discovered :: "GameEnd option \<Rightarrow> CompilationError + nat option" where
  "coerce_dlog_discovered k =
     (case k of
        Some (HostCheatEquivocate x) \<Rightarrow> Inr (Some x)
      | Some _ \<Rightarrow> Inl (ContinuationCoercion ''Failed to coerce GameEnd into HostKey'')
      | None \<Rightarrow> Inr None)"

definition coerce_censorship_proof :: "GameEnd option \<Rightarrow> CompilationError + unit option" where
  "coerce_censorship_proof k =
     (case k of
        Some HostCheatCensor \<Rightarrow> Inr (Some ())
      | Some _ \<Rightarrow> Inl (ContinuationCoercion ''Failed to coerce GameEnd into CensorshipProof'')
      | None \<Rightarrow> Inr None)"

definition coerce_players_win :: "GameEnd option \<Rightarrow> CompilationError + ExtractedMoveEnvelopes option" where
  "coerce_players_win k =
     (case k of
        Some (PlayersWin ms) \<Rightarrow> Inr (Some ms)
      | Some _ \<Rightarrow> Inl (ContinuationCoercion ''Failed to coerce GameEnd into PlayersWin'')
      | None \<Rightarrow> Inr None)"

definition coerce_players_lose :: "GameEnd option \<Rightarrow> CompilationError + ExtractedMoveEnvelopes option" where
  "coerce_players_lose k =
     (case k of
        Some (PlayersLose ms) \<Rightarrow> Inr (Some ms)
      | Some _ \<Rightarrow> Inl (ContinuationCoercion ''Failed to coerce GameEnd into ExtractedMoveEnvelopes'')
      | None \<Rightarrow> Inr None)"

definition coerce_degrade :: "GameEnd option \<Rightarrow> CompilationError + ListenBlockHeader option" where
  "coerce_degrade k =
     (case k of
        Some (Degrade h) \<Rightarrow> Inr (Some h)
      | Some _ \<Rightarrow> Inl (ContinuationCoercion ''Failed to coerce GameEnd into Degrade'')
      | None \<Rightarrow> Inr None)"

section \<open>The arguments of the contract\<close>

record ContractArgs =
  arg_kernel :: GameKernel
  arg_amount :: u64

definition convert_setup_to_contract_args ::
  "(string \<Rightarrow> 'err + XOnlyPublicKey) \<Rightarrow> GameSetup \<Rightarrow> XOnlyPublicKey \<Rightarrow> ('err + ContractArgs) option" where
  "convert_setup_to_contract_args from_str setup oracle_key = do {
     amt_per_player \<leftarrow> div_w 100000 (length (players setup));
     Some (map_sum id (\<lambda>ks. \<lparr>arg_kernel = \<lparr>game_host = oracle_key,
         kernel_players = fold (\<lambda>k m. bt_put k amt_per_player m) ks [],
         kernel_timeout = setup_finish_time setup\<rparr>, arg_amount = 100000\<rparr>)
       (collect_results from_str (players setup)))
   }"

end
