(* ===== verification/Setup_Laws.thy ===== *)
theory Setup_Laws
  imports Reachable
begin

text \<open>
  Setting up a game: how much room the tokens and the ids of a board leave, and that the setup of a
  game panics exactly when it has more players than there are places for their first plants.
\<close>

section \<open>Room for more tokens and more ids\<close>

definition roomy :: "GameBoard \<Rightarrow> nat \<Rightarrow> nat \<Rightarrow> bool" where
  "roomy g n i = (board_ok g \<and> (\<forall>p. supply_of g p + n < 2 ^ 128) \<and> last_id (alloc_ids g) + i < 2 ^ 64)"

lemma roomyD: "roomy g n i \<Longrightarrow> board_ok g"
  by (simp add: roomy_def)

lemma roomy_less: "roomy g n i \<Longrightarrow> m \<le> n \<Longrightarrow> j \<le> i \<Longrightarrow> roomy g m j"
  unfolding roomy_def by (meson add_left_mono le_less_trans)

lemma roomy_mint:
  assumes r: "roomy g (k + n) i" and p: "plain_token g p"
  shows "\<exists>g'. mint_tokens g p a k = Some g' \<and> roomy g' n i \<and> advances g g'"
proof -
  have "swap_ok g" using r by (simp add: roomy_def board_ok_def)
  then have ok: "tokens_ok g" by (rule swap_okD)
  from p obtain t where t: "tok_index (tokens g) p = Some t" by (auto simp: plain_token_def reg_has_def)
  have "token_ok t" "total t = supply_of g p" using tok_index_ok [OF ok t] t by (simp_all add: reg_supply_def)
  moreover have s: "supply_of g p + k < 2 ^ 128" using r by (auto simp: roomy_def dest: spec [of _ p])
  ultimately obtain t' where "mint t a k = Some t'" using mint_returns [of t k a] by auto
  then obtain g' where m: "mint_tokens g p a k = Some g'"
    using t by (auto simp: mint_tokens_def tok_index_mut_def)
  have al: "alloc_ids g' = alloc_ids g" using m by (auto simp: mint_tokens_def bind_SomeD)
  have "supply_of g' q + n < 2 ^ 128" for q
  proof -
    have "supply_of g q + (k + n) < 2 ^ 128" using r by (simp only: roomy_def)
    moreover have "supply_of g' q \<le> supply_of g q + k" unfolding mint_tokens_books(5) [OF ok m] by simp
    ultimately show ?thesis by linarith
  qed
  moreover have "board_ok g'" by (rule advancesD [OF advances_mint [OF roomyD [OF r] p m]])
  moreover have "last_id (alloc_ids g') + i < 2 ^ 64" unfolding al using r by (simp only: roomy_def)
  ultimately have "roomy g' n i" by (simp only: roomy_def simp_thms)
  with m advances_mint [OF roomyD [OF r] p m] show ?thesis by blast
qed

lemma roomy_alloc:
  assumes "roomy g n (Suc i)"
  shows "\<exists>g'. alloc g = Some (EntityID (last_id (alloc_ids g) + 1), g') \<and> roomy g' n i \<and> advances g g' \<and>
    customer g' (EntityID (last_id (alloc_ids g) + 1))"
proof -
  let ?g = "g\<lparr>alloc_ids := EntityIDAllocator (last_id (alloc_ids g) + 1)\<rparr>"
  have a: "alloc g = Some (EntityID (last_id (alloc_ids g) + 1), ?g)"
    using assms by (simp add: alloc_Some roomy_def)
  note c = conserves_alloc [OF roomyD [OF assms] a]
  have "roomy ?g n i" using assms conservesD(1) [OF c [THEN conjunct1]] by (simp add: roomy_def)
  moreover have "advances g ?g" using c advances_conserves by simp
  ultimately show ?thesis using a c by simp
qed

lemma roomy_ensure:
  assumes r: "roomy g n (i + 2)" and t: "plain_token g t"
  shows "\<exists>g'. ensure_btc_market t g = Some g' \<and> roomy g' n i \<and> advances g g'"
proof -
  have ok: "swap_ok g" using r by (simp add: roomy_def board_ok_def)
  have b: "plain_token g (bitcoin_token_id g)" using wired_tokens(1) [OF roomyD [OF r]] .
  let ?p = "TradingPairID (bitcoin_token_id g) t"
  have has: "has_token g q" if "plain_token g q" for q using that by (simp add: plain_token_def)
  have ids: "last_id (alloc_ids g) + 2 < 2 ^ 64" using r by (simp add: roomy_def)
  have "\<exists>m g'. ensure g ?p = Some (m, g')"
    by (rule ensure_returns [OF swap_okD(2) [OF ok] _ _ ids]) (simp_all only: TradingPairID.sel has [OF b] has [OF t])
  then obtain m g' where e: "ensure g ?p = Some (m, g')" by (elim exE)
  then have e': "ensure_btc_market t g = Some g'" by (simp add: ensure_btc_market_def)
  note a = ensure_btc_market_ok [OF roomyD [OF r] e']
  have s: "supply_of g' = supply_of g" using ensure_books(2) [OF ok e] by (rule tradedD)
  have "last_id (alloc_ids g') \<le> last_id (alloc_ids g) + 2"
  proof (cases "bt_get (swap g) (normalize ?p)")
    case None
    show ?thesis
    proof (rule ensure_absent [OF e None])
      fix reg
      assume "g' = g\<lparr>alloc_ids := EntityIDAllocator (last_id (alloc_ids g) + 2), tokens := reg,
        swap := bt_put (normalize ?p) m (swap g)\<rparr>"
      then show ?thesis by simp
    qed
  next
    case (Some m')
    with e ensure_present [OF Some] show ?thesis by simp
  qed
  with r s advancesD(1) [OF a] have "roomy g' n i" by (simp add: roomy_def)
  with e' a show ?thesis by blast
qed

lemma roomy_schedule:
  "roomy g n i \<Longrightarrow> cb_ok g cb \<Longrightarrow> roomy (schedule_cb g cb) n i \<and> advances g (schedule_cb g cb)"
  using schedule_ok_step [of g cb] advancesD(1) [of g "schedule_cb g cb"]
  by (simp add: roomy_def schedule_cb_def)

section \<open>Players\<close>

lemma roomy_setup_player:
  assumes r: "roomy g (2 * a + n) (Suc i)"
  shows "\<exists>g'. setup_player a k g = Some g' \<and> roomy g' n i \<and>
    last_id (alloc_ids g') = last_id (alloc_ids g) + 1 \<and>
    users_by_key g' = bt_put k (EntityID (last_id (alloc_ids g) + 1)) (users_by_key g) \<and>
    users g' = bt_put (EntityID (last_id (alloc_ids g) + 1)) \<lparr>user_key = k\<rparr> (users g)"
proof -
  let ?u = "EntityID (last_id (alloc_ids g) + 1)"
  obtain g1 where a: "alloc g = Some (?u, g1)" and r1: "roomy g1 (2 * a + n) i" and c: "customer g1 ?u"
    using roomy_alloc [OF r] by blast
  let ?g2 = "g1\<lparr>users := bt_put ?u \<lparr>user_key = k\<rparr> (users g1), users_by_key := bt_put k ?u (users_by_key g1)\<rparr>"
  have ok2: "board_ok ?g2" by (rule board_ok_players [OF roomyD [OF r1] c])
  then have r2: "roomy ?g2 (a + (a + n)) i" using r1 by (simp add: roomy_def mult_2 add.assoc)
  obtain g3 where m3: "mint_tokens ?g2 (real_sats_token_id ?g2) ?u a = Some g3" and r3: "roomy g3 (a + n) i"
    and s3: "advances ?g2 g3"
    using roomy_mint [OF r2 wired_tokens(2) [OF ok2]] by blast
  obtain g4 where m4: "mint_tokens g3 (bitcoin_token_id g3) ?u a = Some g4" and r4: "roomy g4 n i"
    and s4: "advances g3 g4"
    using roomy_mint [OF r3 wired_tokens(1) [OF roomyD [OF r3]]] by blast
  have w: "users_by_key g4 = users_by_key ?g2" "users g4 = users ?g2"
    using advancesD(5) [OF s3] advancesD(5) [OF s4] by (simp_all add: wiring_def)
  have al: "alloc_ids g4 = alloc_ids g1" using m3 m4 by (auto simp: mint_tokens_def bind_SomeD)
  have "setup_player a k g = Some g4" using a m3 m4 by (simp add: setup_player_def)
  then show ?thesis
    using a r4 w by (intro exI [of _ g4]) (auto simp: al alloc_Some)
qed


text \<open>The users of a board have exactly the keys \<open>K\<close>, and one id for every key.\<close>

definition keys_ok :: "GameBoard \<Rightarrow> string set \<Rightarrow> bool" where
  "keys_ok g K = (bt_ok (users_by_key g) \<and> fst ` set (users_by_key g) = K \<and>
     (\<forall>e \<in> set (users g). user_key (snd e) \<in> K))"

definition players_ok :: "GameBoard \<Rightarrow> string set \<Rightarrow> bool" where
  "players_ok g K = (keys_ok g K \<and> distinct (map snd (users_by_key g)) \<and>
     (\<forall>e \<in> set (users_by_key g). eid (snd e) \<le> last_id (alloc_ids g)))"

lemma keys_ok_wiring: "wiring g' = wiring g \<Longrightarrow> keys_ok g' K = keys_ok g K"
  by (simp add: keys_ok_def wiring_def)

lemma mint_keeps_hashboards: "mint_tokens g p a n = Some g' \<Longrightarrow> hashboards (tokens g') = hashboards (tokens g)"
  by (auto simp: mint_tokens_def tok_index_mut_def bind_SomeD)

lemma setup_player_hashboards: "setup_player a k g = Some g' \<Longrightarrow> hashboards (tokens g') = hashboards (tokens g)"
  by (auto simp: setup_player_def bind_SomeD alloc_Some Let_def dest!: mint_keeps_hashboards)

lemma setup_player_finish: "setup_player a k g = Some g' \<Longrightarrow> finish_time g' = finish_time g"
  by (auto simp: setup_player_def bind_SomeD alloc_Some mint_tokens_def Let_def)

lemma distinct_bt_put:
  "bt_get m k = None \<Longrightarrow> distinct (map snd m) \<Longrightarrow> v \<notin> snd ` set m \<Longrightarrow> distinct (map snd (bt_put k v m))"
proof (induction m)
  case (Cons e m)
  have "snd ` set (bt_put k v m) \<subseteq> insert v (snd ` set m)" using image_mono [OF set_bt_put, of snd k v m] by simp
  moreover have "snd e \<notin> insert v (snd ` set m)" using Cons.prems(2,3) by auto
  ultimately have "snd e \<notin> snd ` set (bt_put k v m)" by blast
  with Cons show ?case by (cases e) (auto simp: bt_get_def split: if_splits)
qed simp

lemma players_ok_length: "players_ok g K \<Longrightarrow> length (users_by_key g) = card K"
  using distinct_card [of "map fst (users_by_key g)"] bt_ok_distinct [of "users_by_key g"]
  by (simp add: players_ok_def keys_ok_def)

lemma players_ok_put:
  assumes p: "players_ok g K" and k: "k \<notin> K" and i: "last_id (alloc_ids g') = last_id (alloc_ids g) + 1"
    and u: "users_by_key g' = bt_put k (EntityID (last_id (alloc_ids g) + 1)) (users_by_key g)"
      "users g' = bt_put (EntityID (last_id (alloc_ids g) + 1)) \<lparr>user_key = k\<rparr> (users g)"
  shows "players_ok g' (insert k K)"
proof -
  let ?u = "EntityID (last_id (alloc_ids g) + 1)"
  have "?u \<notin> snd ` set (users_by_key g)" using p by (fastforce simp: players_ok_def keys_ok_def)
  moreover have "bt_get (users_by_key g) k = None" using p k by (simp add: players_ok_def keys_ok_def bt_get_None)
  ultimately have "distinct (map snd (users_by_key g'))"
    using p by (simp add: u(1) players_ok_def keys_ok_def distinct_bt_put)
  moreover have "bt_ok (users_by_key g')" using p by (simp add: u(1) players_ok_def keys_ok_def bt_ok_put)
  moreover have "fst ` set (users_by_key g') = insert k K" using p by (simp add: u(1) players_ok_def keys_ok_def fst_bt_put)
  moreover have "eid (snd e) \<le> last_id (alloc_ids g')" if "e \<in> set (users_by_key g')" for e
    using subsetD [OF set_bt_put that [unfolded u(1)]] p by (auto simp: u(1) i players_ok_def keys_ok_def)
  moreover have "user_key (snd e) \<in> insert k K" if "e \<in> set (users g')" for e
    using subsetD [OF set_bt_put that [unfolded u(2)]] p by (auto simp: u(2) players_ok_def keys_ok_def)
  ultimately show ?thesis by (simp add: players_ok_def keys_ok_def)
qed

lemma roomy_players:
  assumes "roomy g (2 * a * length ks + n) (length ks + i)" and "players_ok g K" and "distinct ks" and "set ks \<inter> K = {}"
  shows "\<exists>g'. fold_opt (setup_player a) ks g = Some g' \<and> roomy g' n i \<and> players_ok g' (set ks \<union> K)"
  using assms
proof (induction ks arbitrary: g K)
  case (Cons k ks)
  have r: "roomy g (2 * a + (2 * a * length ks + n)) (Suc (length ks + i))"
    using Cons.prems(1) by (simp add: algebra_simps)
  obtain g1 where s: "setup_player a k g = Some g1" and r1: "roomy g1 (2 * a * length ks + n) (length ks + i)"
    and u: "last_id (alloc_ids g1) = last_id (alloc_ids g) + 1"
      "users_by_key g1 = bt_put k (EntityID (last_id (alloc_ids g) + 1)) (users_by_key g)"
      "users g1 = bt_put (EntityID (last_id (alloc_ids g) + 1)) \<lparr>user_key = k\<rparr> (users g)"
    using roomy_setup_player [OF r] by blast
  have "players_ok g1 (insert k K)" by (rule players_ok_put [OF Cons.prems(2) _ u]) (use Cons.prems(4) in simp)
  from Cons.IH [OF r1 this] Cons.prems(3,4)
  obtain g' where "fold_opt (setup_player a) ks g1 = Some g'" "roomy g' n i" "players_ok g' (set ks \<union> insert k K)"
    by auto
  with s show ?case by simp
qed simp

section \<open>The producers and the first plants\<close>

lemma roomy_producer:
  assumes r: "roomy g n (Suc i)" and p: "plain_token g p" and h: "plain_token g h"
    and w: "\<And>b q. producer_ok b q \<Longrightarrow> cb_ok b (wrap q)"
  shows "\<exists>j g1. alloc g = Some (j, g1) \<and> tokens g1 = tokens g \<and> wiring g1 = wiring g \<and>
    roomy (schedule_cb g1 (wrap (new_producer j p h k))) n i \<and>
    advances g (schedule_cb g1 (wrap (new_producer j p h k)))"
proof -
  obtain j g1 where a: "alloc g = Some (j, g1)" and r1: "roomy g1 n i" using roomy_alloc [OF r] by blast
  note s = new_producer_step [where wrap = wrap and n = k, OF roomyD [OF r] a p h w]
  have "roomy (schedule_cb g1 (wrap (new_producer j p h k))) n i"
    using r1 advancesD(1) [OF s] by (simp add: roomy_def schedule_cb_def)
  with a s alloc_same [OF a] show ?thesis by blast
qed

lemma roomy_start_plants:
  "roomy g (length ps) (length ps) \<Longrightarrow> length ps \<le> length locs \<Longrightarrow>
    \<exists>g'. start_plants locs ps g = Some g' \<and> roomy g' 0 0 \<and> wiring g' = wiring g"
proof (induction locs ps g rule: start_plants.induct)
  case (3 coords ty locs player ps g)
  obtain i g1 where a: "alloc g = Some (i, g1)" and r1: "roomy g1 (length (player # ps)) (length ps)"
    and c: "customer g1 i"
    using roomy_alloc [of g "length (player # ps)" "length ps"] 3(2) by auto
  let ?n = "\<lparr>owner = player, nft_id = i, transfer_count = 0\<rparr>"
  obtain p ns where nr: "nft_add (nfts g1) ?n = (p, ns)" by fastforce
  obtain plant where pl: "new_power_plant p ty coords 1 = Some plant"
    by (simp add: new_power_plant_def mul_w_def fits_def)
  let ?g2 = "g1\<lparr>nfts := ns\<lparr>power_plants := bt_put p plant (power_plants ns)\<rparr>\<rparr>"
  have "conserves g1 ?g2" by (rule conserves_add_nft(1) [OF roomyD [OF r1] _ nr]) (use c in auto)
  then have ok2: "board_ok ?g2" by (rule conservesD)
  then have r2: "roomy ?g2 (1 + length ps) (length ps)" using r1 by (simp add: roomy_def)
  obtain g3 where m: "mint_tokens ?g2 (asic_token_id ?g2) (nft_inner p) 1 = Some g3" and r3: "roomy g3 (length ps) (length ps)"
    and s: "advances ?g2 g3"
    using roomy_mint [OF r2 wired_tokens(6) [OF ok2]] by blast
  from 3(1) [OF a refl nr [symmetric] refl pl refl m r3] 3(3)
  obtain g' where "start_plants locs ps g3 = Some g'" "roomy g' 0 0" "wiring g' = wiring g3" by auto
  moreover have "wiring g3 = wiring g" using advancesD(5) [OF s] alloc_same [OF a] by (simp add: wiring_def)
  ultimately show ?case using a nr pl m by auto
qed (auto intro: roomy_less)

lemma start_plants_panics: "length locs < length ps \<Longrightarrow> start_plants locs ps g = None"
proof (induction locs ps g rule: start_plants.induct)
  case (3 coords ty locs player ps g)
  show ?case
  proof (cases "alloc g")
    case (Some r)
    obtain i g1 where r: "r = (i, g1)" by fastforce
    obtain p ns where nr: "nft_add (nfts g1) \<lparr>owner = player, nft_id = i, transfer_count = 0\<rparr> = (p, ns)" by fastforce
    show ?thesis
    proof (cases "new_power_plant p ty coords 1")
      case (Some plant)
      let ?g2 = "g1\<lparr>nfts := ns\<lparr>power_plants := bt_put p plant (power_plants ns)\<rparr>\<rparr>"
      show ?thesis
      proof (cases "mint_tokens ?g2 (asic_token_id ?g2) (nft_inner p) 1")
        case (Some g3)
        from 3(1) [OF \<open>alloc g = Some r\<close> r [symmetric] nr [symmetric] refl \<open>new_power_plant _ _ _ _ = _\<close> refl Some] 3(2)
        have "start_plants locs ps g3 = None" by simp
        with \<open>alloc g = Some r\<close> r nr \<open>new_power_plant _ _ _ _ = _\<close> Some show ?thesis by simp
      qed (use \<open>alloc g = Some r\<close> r nr Some in simp)
    qed (use Some r nr in simp)
  qed simp
qed auto

text \<open>Everything of \<open>post_init\<close> before the first plants.\<close>

lemma post_init_plants:
  assumes r: "roomy g (10000030000 + n) (12 + i)" and hb: "hashboards (tokens g) \<noteq> []"
  shows "\<exists>g'. post_init g = start_plants start_locations (remdups_adj (sort (map snd (users_by_key g)))) g' \<and>
    roomy g' n i \<and> wiring g' = wiring g"
proof -
  have sucs: "4 + i = Suc (3 + i)" "3 + i = Suc (2 + i)" "2 + i = Suc (1 + i)" "1 + i = Suc i" by simp_all
  note ens = roomy_ensure [OF _ wired_tokens(3) [OF roomyD]] roomy_ensure [OF _ wired_tokens(4) [OF roomyD]]
    roomy_ensure [OF _ wired_tokens(5) [OF roomyD]] roomy_ensure [OF _ wired_tokens(6) [OF roomyD]]
  have r0: "roomy g (10000030000 + n) (10 + i + 2)" using r by (simp add: add.commute)
  obtain g1 where e1: "ensure_btc_market (steel_token_id g) g = Some g1" and r1: "roomy g1 (10000030000 + n) (8 + i + 2)"
    and s1: "advances g g1"
    using ens(1) [OF r0 r0] by (auto simp: add.commute)
  obtain g2 where e2: "ensure_btc_market (silicon_token_id g1) g1 = Some g2" and r2: "roomy g2 (10000030000 + n) (6 + i + 2)"
    and s2: "advances g1 g2"
    using ens(2) [OF r1 r1] by (auto simp: add.commute)
  obtain g3 where e3: "ensure_btc_market (concrete_token_id g2) g2 = Some g3" and r3: "roomy g3 (10000030000 + n) (4 + i + 2)"
    and s3: "advances g2 g3"
    using ens(3) [OF r2 r2] by (auto simp: add.commute)
  obtain g4 where e4: "ensure_btc_market (asic_token_id g3) g3 = Some g4" and r4: "roomy g4 (10000000000 + (30000 + n)) (4 + i)"
    and s4: "advances g3 g4"
    using ens(4) [OF r3 r3] by (auto simp: add.commute)
  obtain g5 where m5: "mint_tokens g4 (bitcoin_token_id g4) (root_user g4) 10000000000 = Some g5"
    and r5: "roomy g5 (30000 + n) (4 + i)" and s5: "advances g4 g5"
    using roomy_mint [OF r4 wired_tokens(1) [OF roomyD [OF r4]]] by blast
  obtain g6 where m6: "mint_tokens g5 (real_sats_token_id g5) (root_user g5) 30000 = Some g6"
    and r6: "roomy g6 n (4 + i)" and s6: "advances g5 g6"
    using roomy_mint [OF r5 wired_tokens(2) [OF roomyD [OF r5]]] by blast
  obtain j7 g7 where a7: "alloc g6 = Some (j7, g7)" and r7: "roomy g7 n (3 + i)" and s7: "advances g6 g7"
    and c7: "customer g7 j7"
    using roomy_alloc [OF r6 [unfolded sucs(1)]] by blast
  let ?g8 = "schedule_cb g7 (PowerPlantEventCb \<lparr>event_time = 0, event_period = 11003\<rparr>)"
  from roomy_schedule [OF r7] have r8: "roomy ?g8 n (3 + i)" and s8: "advances g7 ?g8" by simp_all
  have w8: "wiring ?g8 = wiring g"
    using advancesD(5) [OF s1] advancesD(5) [OF s2] advancesD(5) [OF s3] advancesD(5) [OF s4] advancesD(5) [OF s5]
      advancesD(5) [OF s6] advancesD(5) [OF s7] advancesD(5) [OF s8] by simp
  then have "hashboards (tokens ?g8) = hashboards (tokens g)"
    using reg_rest_hashboards [of "tokens ?g8" "tokens g"] by (simp add: wiring_def)
  with hb obtain h d rest where hb8: "hashboards (tokens ?g8) = (h, d) # rest"
    by (metis list.exhaust surj_pair)
  then have h: "plain_token ?g8 h" using roomyD [OF r8] by (simp add: board_ok_def wired_ok_def)
  let ?btc = "bitcoin_token_id ?g8"
  have b8: "plain_token ?g8 ?btc" by (rule wired_tokens(1) [OF roomyD [OF r8]])
  let ?g9 = "schedule_cb ?g8 (ASICProducer (new_producer j7 ?btc h 10007))"
  have "producer_ok ?g8 (new_producer j7 ?btc h 10007)"
    using h b8 advancesD(3) [OF s8 c7] by (simp add: producer_ok_def new_producer_def)
  with roomy_schedule [OF r8 producer_cb_ok(1)] have r9: "roomy ?g9 n (3 + i)" and s9: "advances ?g8 ?g9" by blast+
  have b9: "plain_token ?g9 ?btc" by (rule advancesD(4) [OF s9 b8])
  obtain j10 g10 where a10: "alloc ?g9 = Some (j10, g10)" and w10: "wiring g10 = wiring ?g9"
    and r11: "roomy (schedule_cb g10 (SteelSmelter (new_producer j10 ?btc (steel_token_id ?g9) 5003))) n (2 + i)"
    and s11: "advances ?g9 (schedule_cb g10 (SteelSmelter (new_producer j10 ?btc (steel_token_id ?g9) 5003)))"
    using roomy_producer [where wrap = SteelSmelter and k = 5003, OF r9 [unfolded sucs(2)] b9 wired_tokens(3) [OF roomyD [OF r9]] producer_cb_ok(2)]
    by blast
  let ?g11 = "schedule_cb g10 (SteelSmelter (new_producer j10 ?btc (steel_token_id g10) 5003))"
  have t10: "steel_token_id g10 = steel_token_id ?g9" using w10 by (simp add: wiring_def)
  note r11 = r11 [folded t10] and s11 = s11 [folded t10]
  have b11: "plain_token ?g11 ?btc" by (rule advancesD(4) [OF s11 b9])
  obtain j12 g12 where a12: "alloc ?g11 = Some (j12, g12)" and w12: "wiring g12 = wiring ?g11"
    and r13: "roomy (schedule_cb g12 (SiliconRefinery (new_producer j12 ?btc (silicon_token_id ?g11) 25013))) n (1 + i)"
    and s13: "advances ?g11 (schedule_cb g12 (SiliconRefinery (new_producer j12 ?btc (silicon_token_id ?g11) 25013)))"
    using roomy_producer [where wrap = SiliconRefinery and k = 25013, OF r11 [unfolded sucs(3)] b11 wired_tokens(4) [OF roomyD [OF r11]] producer_cb_ok(3)]
    by blast
  let ?g13 = "schedule_cb g12 (SiliconRefinery (new_producer j12 ?btc (silicon_token_id g12) 25013))"
  have t12: "silicon_token_id g12 = silicon_token_id ?g11" using w12 by (simp add: wiring_def)
  note r13 = r13 [folded t12] and s13 = s13 [folded t12]
  have b13: "plain_token ?g13 ?btc" by (rule advancesD(4) [OF s13 b11])
  obtain j14 g14 where a14: "alloc ?g13 = Some (j14, g14)" and w14: "wiring g14 = wiring ?g13"
    and r15: "roomy (schedule_cb g14 (ConcreteMiller (new_producer j14 ?btc (concrete_token_id ?g13) 14009))) n i"
    and s15: "advances ?g13 (schedule_cb g14 (ConcreteMiller (new_producer j14 ?btc (concrete_token_id ?g13) 14009)))"
    using roomy_producer [where wrap = ConcreteMiller and k = 14009, OF r13 [unfolded sucs(4)] b13 wired_tokens(5) [OF roomyD [OF r13]] producer_cb_ok(4)]
    by blast
  let ?g15 = "schedule_cb g14 (ConcreteMiller (new_producer j14 ?btc (concrete_token_id g14) 14009))"
  have t14: "concrete_token_id g14 = concrete_token_id ?g13" using w14 by (simp add: wiring_def)
  note r15 = r15 [folded t14] and s15 = s15 [folded t14]
  have w15: "wiring ?g15 = wiring g"
    using w8 advancesD(5) [OF s9] advancesD(5) [OF s11] advancesD(5) [OF s13] advancesD(5) [OF s15] by simp
  then have "users_by_key ?g15 = users_by_key g" by (simp add: wiring_def)
  moreover have "post_init g = start_plants start_locations (remdups_adj (sort (map snd (users_by_key ?g15)))) ?g15"
    by (simp only: post_init_def e1 e2 e3 e4 m5 m6 a7 hb8 a10 a12 a14 Option.bind.bind_lunit prod.case Let_def list.case)
  ultimately show ?thesis using r15 w15 by metis
qed

section \<open>Setup as a whole\<close>

lemma initial_board_roomy:
  "\<exists>g. initial_board = Some g \<and> roomy g (2 ^ 127) (2 ^ 63) \<and> players_ok g {} \<and> hashboards (tokens g) \<noteq> []"
proof -
  obtain g where g: "initial_board = Some g"
    by (simp add: initial_board_def new_from_alloc_def alloc_make_def add_w_def fits_def new_allocator_def
        new_token_def default_registry_def Let_def)
  have u: "users g = []" "users_by_key g = []" "last_id (alloc_ids g) = 3235774471" "hashboards (tokens g) \<noteq> []"
    and tk: "\<forall>t \<in> snd ` set (reg_tokens (tokens g)). total t = 0"
    using g by (auto simp: initial_board_def new_from_alloc_def alloc_make_def add_w_def fits_def new_allocator_def
        new_token_def default_registry_def Let_def)
  have "supply_of g p = 0" for p
  proof (cases "tok_index (tokens g) p")
    case (Some t)
    then have "(as_id p, t) \<in> set (reg_tokens (tokens g))" by (auto simp: tok_index_def dest: bt_get_SomeD)
    with tk Some show ?thesis by (force simp: reg_supply_def)
  qed (simp add: reg_supply_def)
  with u initial_board_ok [OF g] have "roomy g (2 ^ 127) (2 ^ 63)" by (simp add: roomy_def)
  with g u show ?thesis by (auto simp: players_ok_def keys_ok_def)
qed

lemma new_board_plants:
  assumes "2 * start_amount s * card (set (players s)) + card (set (players s)) < 2 ^ 126"
    and "card (set (players s)) < 2 ^ 60"
  shows "\<exists>ps g. new_board s = start_plants start_locations ps g \<and> length ps = card (set (players s)) \<and>
    roomy g (length ps) (length ps) \<and> keys_ok g (set (players s)) \<and> finish_time g = setup_finish_time s"
proof -
  let ?ks = "remdups_adj (sort (players s))"
  have ks: "distinct ?ks" "set ?ks = set (players s)" "length ?ks = card (set (players s))"
    using distinct_card [OF distinct_remdups_adj_sorted [OF sorted_sort, of "players s"]]
    by (auto intro: distinct_remdups_adj_sorted)
  let ?N = "card (set (players s))"
  obtain g where g: "initial_board = Some g" and r: "roomy g (2 ^ 127) (2 ^ 63)" and p: "players_ok g {}"
    and hb: "hashboards (tokens g) \<noteq> []"
    using initial_board_roomy by blast
  let ?g0 = "g\<lparr>finish_time := setup_finish_time s\<rparr>"
  have "roomy ?g0 (2 ^ 127) (2 ^ 63)" using r board_ok_finish [OF roomyD [OF r]] by (simp add: roomy_def)
  then have r0: "roomy ?g0 (2 * start_amount s * length ?ks + (10000030000 + ?N)) (length ?ks + (12 + ?N))"
    by (rule roomy_less) (use assms ks(3) in simp_all)
  have p0: "players_ok ?g0 {}" using p by (simp add: players_ok_def keys_ok_def)
  obtain g1 where s1: "fold_opt (setup_player (start_amount s)) ?ks ?g0 = Some g1"
    and r1: "roomy g1 (10000030000 + ?N) (12 + ?N)" and p1: "players_ok g1 (set (players s))"
    using roomy_players [OF r0 p0 ks(1)] ks(2) by auto
  have f1: "finish_time g1 = setup_finish_time s"
    by (rule fold_opt_invariant [OF s1, of "\<lambda>g. finish_time g = setup_finish_time s"]) (simp_all add: setup_player_finish)
  have hb1: "hashboards (tokens g1) \<noteq> []"
    by (rule fold_opt_invariant [OF s1, of "\<lambda>g. hashboards (tokens g) \<noteq> []"]) (simp_all add: hb setup_player_hashboards)
  obtain g2 where s2: "post_init g1 = start_plants start_locations (remdups_adj (sort (map snd (users_by_key g1)))) g2"
    and r2: "roomy g2 ?N ?N" and w2: "wiring g2 = wiring g1"
    using post_init_plants [OF r1 hb1] by blast
  let ?ps = "remdups_adj (sort (map snd (users_by_key g1)))"
  have d: "distinct (map snd (users_by_key g1))" using p1 by (simp add: players_ok_def keys_ok_def)
  have "length ?ps = card (set (map snd (users_by_key g1)))"
    using distinct_card [OF distinct_remdups_adj_sorted [OF sorted_sort, of "map snd (users_by_key g1)"]] by simp
  then have l: "length ?ps = ?N" using players_ok_length [OF p1] distinct_card [OF d] by simp
  have "keys_ok g2 (set (players s))" using p1 keys_ok_wiring [OF w2] by (simp add: players_ok_def)
  moreover have "finish_time g2 = setup_finish_time s" using w2 f1 by (simp add: wiring_def)
  moreover have "new_board s = start_plants start_locations ?ps g2"
    by (simp only: new_board_def setup_game_def g s1 s2 Option.bind.bind_lunit)
  ultimately show ?thesis using l r2 by (intro exI [of _ ?ps] exI [of _ g2]) simp
qed

lemma start_locations_length: "length start_locations = 10"
  by (simp add: start_locations_def)

lemma setup_result:
  assumes a: "start_amount s < 2 ^ 64" and l: "length (players s) < 2 ^ 60"
  shows "if card (set (players s)) \<le> 10 then \<exists>g. new_board s = Some g \<and> board_ok g \<and> keys_ok g (set (players s)) \<and>
      finish_time g = setup_finish_time s
    else new_board s = None"
proof -
  let ?N = "card (set (players s))"
  have N: "?N < 2 ^ 60" using card_length [of "players s"] l by simp
  have "start_amount s * ?N \<le> 2 ^ 64 * 2 ^ 60" using a N by (intro mult_le_mono) simp_all
  then have "2 * start_amount s * ?N + ?N < 2 ^ 126" using N by simp
  then obtain ps g where e: "new_board s = start_plants start_locations ps g" and ps: "length ps = ?N"
    and r: "roomy g (length ps) (length ps)" and k: "keys_ok g (set (players s))" and f: "finish_time g = setup_finish_time s"
    using new_board_plants N by blast
  show ?thesis
  proof (cases "?N \<le> 10")
    case True
    then obtain g' where s: "start_plants start_locations ps g = Some g'" and r': "roomy g' 0 0" and w: "wiring g' = wiring g"
      using roomy_start_plants [OF r, of start_locations] ps start_locations_length by auto
    have "keys_ok g' (set (players s))" using keys_ok_wiring [OF w] k by simp
    moreover have "finish_time g' = setup_finish_time s" using w f by (simp add: wiring_def)
    ultimately show ?thesis using True e s roomyD [OF r'] by simp
  next
    case False
    then show ?thesis using start_plants_panics [of start_locations ps g] ps e start_locations_length by simp
  qed
qed

section \<open>The property\<close>

text \<open>C23: The setup of a game panics exactly when it has more than ten different players. Otherwise it
  gives a well-formed board on which every player is registered once, and nobody else, with the finish time asked for; repeated
  players and the order of the players make no difference to that.\<close>

theorem setup_takes_ten_players:
  assumes "start_amount s < 2 ^ 64" and "length (players s) < 2 ^ 60"
  shows "if card (set (players s)) \<le> 10 then \<exists>g. new_board s = Some g \<and> board_ok g \<and> keys_ok g (set (players s)) \<and>
      finish_time g = setup_finish_time s
    else new_board s = None"
  using assms by (rule setup_result)

theorem setup_takes_ten_players_witness:
  "new_board \<lparr>players = [''a'', ''b'', ''c'', ''d'', ''e'', ''f'', ''g'', ''h'', ''i'', ''j'', ''k''],
    start_amount = 1, setup_finish_time = 1000\<rparr> = None"
  using setup_takes_ten_players [of "\<lparr>players = [''a'', ''b'', ''c'', ''d'', ''e'', ''f'', ''g'', ''h'', ''i'', ''j'', ''k''],
    start_amount = 1, setup_finish_time = 1000\<rparr>"] by simp

end
