(* ===== verification/Contract_Laws.thy ===== *)
theory Contract_Laws
  imports Contract Setup_Laws Game_Laws
begin

text \<open>
  What the contract pays and who can make it pay: the replay of a game ends at a finished board
  with the players of the contract, the outputs of a settled game are its closing distribution, and
  the quorum that can take the refund shrinks over time.
\<close>

section \<open>Replays end at finished boards\<close>

lemma trade_result_rejects: "trade_result m = Some (Inl e, g') \<Longrightarrow> \<exists>t. e = TradeRejected t"
  unfolding trade_result_def by (cases m) (auto split: sum.splits)

lemma play_inner_rejects: "play_inner mv u g = Some (Inl e, g') \<Longrightarrow> \<exists>t. e = TradeRejected t"
  by (cases mv) (auto simp: trade_move_def accepted_def bind_SomeD dest: trade_result_rejects split: if_splits)

lemma play_accepted_unfinished: "play_accepted d t u g \<noteq> Some (Inl (GameIsFinished r), g')"
  by (auto simp: play_accepted_def bind_SomeD split: sum.splits dest: play_inner_rejects)

lemma boards_at_log [simp]: "boards_at (g\<lparr>event_log_counter := c, event_log := l\<rparr>) e = boards_at g e"
  by (simp add: boards_at_def balance_def)

lemma compute_hashrate_log [simp]:
  "compute_hashrate p (g\<lparr>event_log_counter := c, event_log := l\<rparr>) = compute_hashrate p g"
  by (simp add: compute_hashrate_def)

lemma accumulate_rates_log [simp]:
  "accumulate_rates (g\<lparr>event_log_counter := c, event_log := l\<rparr>) ps tot res = accumulate_rates g ps tot res"
  by (induction g ps tot res rule: accumulate_rates.induct) (simp_all cong: Option.bind_cong)

lemma finished_log [simp]:
  "game_is_finished (g\<lparr>event_log_counter := c, event_log := l\<rparr>) = game_is_finished g"
  by (simp add: game_is_finished_def get_user_hashrate_share_def cong: if_cong)

lemma play_says_finished:
  assumes "play env k g = Some (Inl (GameIsFinished why), g')"
  shows "game_is_finished g' = Some (Some why)"
proof -
  from assms obtain u fin where u: "bt_get (users_by_key g) k = Some u" and fin: "game_is_finished g = Some fin"
    by (cases "bt_get (users_by_key g) k"; cases "game_is_finished g") (auto simp: play_def)
  show ?thesis
  proof (cases fin)
    case (Some r)
    with assms u fin show ?thesis by (auto simp: play_def bind_SomeD add_to_event_log_def)
  next
    case None
    with assms u fin show ?thesis
      by (auto simp: play_def bind_SomeD Let_def play_accepted_unfinished split: if_splits)
  qed
qed

lemma replay_finished:
  assumes "replay trace g = Some (Inr (why, g'))" and "board_ok g" and "keys_ok g K"
  shows "game_is_finished g' = Some (Some why) \<and> board_ok g' \<and> keys_ok g' K"
  using assms
proof (induction trace g rule: replay.induct)
  case (2 mv pk rest g)
  from "2.prems"(1) obtain r g1 where p: "play mv pk g = Some (r, g1)" by (cases "play mv pk g") auto
  note pr = play_proceeds [OF "2.prems"(2) p]
  have ok1: "board_ok g1" by (rule proceedsD [OF pr])
  have k1: "keys_ok g1 K" using keys_ok_wiring [OF proceedsD(4) [OF pr]] "2.prems"(3) by simp
  show ?case
  proof (cases "\<exists>why'. r = Inl (GameIsFinished why')")
    case True
    then obtain why' where r: "r = Inl (GameIsFinished why')" by blast
    with "2.prems"(1) p have "why' = why" "g1 = g'" by simp_all
    with play_says_finished [of mv pk g why g1] p r ok1 k1 show ?thesis by simp
  next
    case False
    then have "replay ((mv, pk) # rest) g = replay rest g1"
      using p by (auto split: sum.splits MoveRejectReason.splits)
    with 2 p ok1 k1 False show ?thesis by (auto split: sum.splits MoveRejectReason.splits)
  qed
qed simp


section \<open>Closing a game\<close>

text \<open>
  What is documented of a transaction template: it starts without outputs, and takes an output as
  long as the outputs stay within its funds. \<open>room t\<close> is the part of the funds that is left.
\<close>

definition template_ok :: "'tmpl TemplateLib \<Rightarrow> ('tmpl \<Rightarrow> nat) \<Rightarrow> bool" where
  "template_ok l room = ((\<forall>f. outputs l (new_template l f) = [] \<and> room (new_template l f) = f) \<and>
     (\<forall>t coin key. coin \<le> room t \<longrightarrow> (\<exists>t'. add_output l t coin key = Inr t' \<and>
        outputs l t' = outputs l t @ [(coin, key)] \<and> room t' + coin = room t)))"

lemma template_add:
  assumes "template_ok l room" and "coin \<le> room t"
  obtains t' where "add_output l t coin key = Inr t'" "outputs l t' = outputs l t @ [(coin, key)]" "room t' + coin = room t"
  using assms unfolding template_ok_def by blast

lemma pay_distribution_pays:
  assumes l: "template_ok l room"
  shows "sum_list (map snd dist) \<le> room t \<Longrightarrow> \<forall>k \<in> fst ` set dist. key_from_str l k = Some k \<Longrightarrow>
    \<exists>t'. pay_distribution l dist t = Inr t' \<and> outputs l t' = outputs l t @ map (\<lambda>(k, v). (v, k)) dist"
proof (induction dist arbitrary: t)
  case (Cons d dist)
  obtain k v where d: "d = (k, v)" by fastforce
  have "v \<le> room t" using Cons.prems(1) d by simp
  then obtain t1 where t1: "add_output l t v k = Inr t1" "outputs l t1 = outputs l t @ [(v, k)]" "room t1 + v = room t"
    using template_add [OF l] by metis
  with Cons.IH [of t1] Cons.prems d show ?case by auto
qed simp

lemma refund_pays:
  assumes l: "template_ok l room"
  shows "sum_list (map snd m) \<le> room t \<Longrightarrow>
    \<exists>t'. refund l m t = Inr t' \<and> outputs l t' = outputs l t @ map (\<lambda>(k, v). (v, k)) m"
proof (induction m arbitrary: t)
  case (Cons d m)
  obtain k v where d: "d = (k, v)" by fastforce
  have "v \<le> room t" using Cons.prems(1) d by simp
  then obtain t1 where t1: "add_output l t v k = Inr t1" "outputs l t1 = outputs l t @ [(v, k)]" "room t1 + v = room t"
    using template_add [OF l] by metis
  with Cons.IH [of t1] Cons.prems d show ?case by auto
qed simp

lemma close_distribution_keys:
  assumes e: "get_close_distribution g bounty host = Some (Inr rs)" and k: "keys_ok g K" and ne: "K \<noteq> {}"
  shows "fst ` set rs \<subseteq> insert host K"
proof -
  from e obtain why where f: "game_is_finished g = Some (Some why)"
    by (cases "game_is_finished g"; cases "the (game_is_finished g)") (simp_all add: get_close_distribution_def)
  show ?thesis
  proof (cases why)
    case TimeExpired
    with e f obtain bals where b: "map_opt (\<lambda>(k, v). do { b \<leftarrow> balance g (bitcoin_token_id g) v; Some (k, b) }) (users_by_key g) = Some bals"
      and r: "expired_rewards bounty bals = Some rs"
      by (auto simp: get_close_distribution_def bind_SomeD)
    from b have "map fst bals = map fst (users_by_key g)" by (rule map_opt_keys)
    moreover have "users_by_key g \<noteq> []" using k ne by (auto simp: keys_ok_def)
    ultimately have "map fst rs = map fst (users_by_key g)" using expired_rewards_sum(2) [OF r] by fastforce
    then have "fst ` set rs = fst ` set (users_by_key g)"
      by (metis list.set_map)
    with k show ?thesis by (auto simp: keys_ok_def)
  next
    case (DominatingPlayer i)
    with e f obtain u where u: "bt_get (users g) i = Some u" and "fst ` set rs = {user_key u, host}"
      by (auto simp: get_close_distribution_def bind_SomeD Let_def)
    moreover have "user_key u \<in> K" using k bt_get_SomeD [OF u] by (force simp: keys_ok_def)
    ultimately show ?thesis by auto
  qed
qed


text \<open>A finished board whose distribution does not panic is closed by paying that distribution.\<close>

lemma close_game_pays:
  assumes l: "template_ok l room" and f: "game_is_finished g = Some (Some why)" and k: "keys_ok g K" and ne: "K \<noteq> {}"
    and keys: "\<And>x. x \<in> insert (game_host kern) K \<Longrightarrow> key_from_str l x = Some x"
    and d: "get_close_distribution g funds (game_host kern) \<noteq> None"
  shows "\<exists>dist t. get_close_distribution g funds (game_host kern) = Some (Inr dist) \<and>
    close_game l kern funds g = Some (Inr t) \<and> outputs l t = map (\<lambda>(k, v). (v, k)) dist \<and>
    sum_list (map snd dist) = funds"
proof -
  from d obtain r where r: "get_close_distribution g funds (game_host kern) = Some r" by blast
  then obtain dist where dist: "get_close_distribution g funds (game_host kern) = Some (Inr dist)"
    using f by (cases r; cases why) (auto simp: get_close_distribution_def bind_SomeD Let_def)
  have u: "users_by_key g \<noteq> []" using k ne by (auto simp: keys_ok_def)
  have s: "sum_list (map snd dist) = funds" by (rule close_distribution_sum [OF dist u])
  have "\<forall>x \<in> fst ` set dist. key_from_str l x = Some x"
    using close_distribution_keys [OF dist k ne] keys by blast
  moreover have "room (new_template l funds) = funds" "outputs l (new_template l funds) = []"
    using l by (simp_all add: template_ok_def)
  ultimately obtain t where "pay_distribution l dist (new_template l funds) = Inr t"
    "outputs l t = map (\<lambda>(k, v). (v, k)) dist"
    using pay_distribution_pays [OF l, of dist "new_template l funds"] s by auto
  with dist s show ?thesis by (auto simp: close_game_def)
qed

lemma finished_board:
  assumes "get_finished_board k trace = Some (Inr (why, g))" and "bt_keys (kernel_players k) \<noteq> []"
    and "length (kernel_players k) < 2 ^ 60"
  shows "game_is_finished g = Some (Some why)" and "keys_ok g (set (bt_keys (kernel_players k)))"
proof -
  from assms(1) obtain g0 where n: "new_board (contract_setup k) = Some g0" and r: "replay trace g0 = Some (Inr (why, g))"
    by (auto simp: get_finished_board_def bind_SomeD)
  have s: "start_amount (contract_setup k) < 2 ^ 64" "length (players (contract_setup k)) < 2 ^ 60"
    and p: "players (contract_setup k) = bt_keys (kernel_players k)"
    using assms(3) by (simp_all add: contract_setup_def bt_keys_def)
  have "keys_ok g0 (set (bt_keys (kernel_players k)))"
    using setup_result [OF s] n p by (simp split: if_splits)
  with replay_finished [OF r new_board_ok [OF n]]
  show "game_is_finished g = Some (Some why)" "keys_ok g (set (bt_keys (kernel_players k)))" by simp_all
qed

section \<open>The settlement\<close>

text \<open>C22: A replayed game that ended is settled by exactly one of the two settlements: the end by time
  pays through the players' win and the dominating player through the players' loss, the other one
  ends with an error. The outputs paid are the closing distribution of the replayed board, to the
  players and the host only, and they add up to the funds exactly. This is for keys that can be read, fewer
  than 2 to the 60 players of whom there is at least one, and funds and balances for which the closing distribution does not overflow
  (an overflow panics).\<close>

theorem settlement_pays_the_distribution:
  assumes "template_ok l room" and "get_finished_board k trace = Some (Inr (why, g))"
    and "bt_keys (kernel_players k) \<noteq> []" and "length (kernel_players k) < 2 ^ 60"
    and "\<And>x. x \<in> insert (game_host k) (set (bt_keys (kernel_players k))) \<Longrightarrow> key_from_str l x = Some x"
    and "get_close_distribution g funds (game_host k) \<noteq> None"
  shows "\<exists>dist t. get_close_distribution g funds (game_host k) = Some (Inr dist) \<and>
    outputs l t = map (\<lambda>(k, v). (v, k)) dist \<and> sum_list (map snd dist) = funds \<and>
    fst ` set dist \<subseteq> insert (game_host k) (set (bt_keys (kernel_players k))) \<and>
    game_end_players_win l k funds (Some trace) =
      Some (if why = TimeExpired then Inr (Some t) else Inl (TerminateWith (DebugOf (Inr (why, g))))) \<and>
    game_end_players_lose l k funds (Some trace) =
      Some (if why = TimeExpired then Inl (TerminateWith (DebugOf (Inr (why, g)))) else Inr (Some t))"
proof -
  note f = finished_board [OF assms(2,3,4)]
  have ne: "set (bt_keys (kernel_players k)) \<noteq> {}" using assms(3) by simp
  obtain dist t where d: "get_close_distribution g funds (game_host k) = Some (Inr dist)"
    and t: "close_game l k funds g = Some (Inr t)" "outputs l t = map (\<lambda>(k, v). (v, k)) dist"
    and s: "sum_list (map snd dist) = funds"
    using close_game_pays [OF assms(1) f ne assms(5,6)] by blast
  have "fst ` set dist \<subseteq> insert (game_host k) (set (bt_keys (kernel_players k)))"
    by (rule close_distribution_keys [OF d f(2) ne])
  with d t s assms(2) show ?thesis
    by (intro exI [of _ dist] exI [of _ t]) (cases why; simp add: game_end_players_win_def game_end_players_lose_def)
qed

text \<open>A game of one player that is over at once, on templates that are lists of outputs.\<close>

definition toy_template :: "(nat \<times> (nat \<times> string) list) TemplateLib" where
  "toy_template = \<lparr>new_template = \<lambda>f. (f, []),
     add_output = \<lambda>t coin key. if coin \<le> fst t then Inr (fst t - coin, snd t @ [(coin, key)]) else Inl ''overspent'',
     outputs = snd, key_from_str = Some\<rparr>"

lemma toy_template_ok: "template_ok toy_template fst"
  by (simp add: template_ok_def toy_template_def)

definition ex_kernel :: "(string \<times> nat) list \<Rightarrow> GameKernel" where
  "ex_kernel m = \<lparr>game_host = ''host'', kernel_players = m, kernel_timeout = 0\<rparr>"

definition ex_trace :: ExtractedMoveEnvelopes where
  "ex_trace = [(\<lparr>move_d = Heartbeat, move_sequence = 1, time_millis = 5\<rparr>, ''alice'')]"

lemma players_one: "keys_ok g {k} \<Longrightarrow> \<exists>u. users_by_key g = [(k, u)]"
proof -
  assume k: "keys_ok g {k}"
  then have "length (users_by_key g) = 1"
    using distinct_card [of "map fst (users_by_key g)"] bt_ok_distinct [of "users_by_key g"] by (simp add: keys_ok_def)
  then obtain e where "users_by_key g = [e]" by (auto simp: length_Suc_conv)
  with k show ?thesis by (cases e) (auto simp: keys_ok_def)
qed

text \<open>Nothing is logged before the first move.\<close>

lemma mint_log: "mint_tokens g p a n = Some g' \<Longrightarrow> event_log_counter g' = event_log_counter g"
  by (auto simp: mint_tokens_def bind_SomeD)

lemma ensure_log:
  assumes "ensure_btc_market t g = Some g'"
  shows "event_log_counter g' = event_log_counter g"
proof -
  let ?p = "TradingPairID (bitcoin_token_id g) t"
  from assms obtain m where e: "ensure g ?p = Some (m, g')" by (auto simp: ensure_btc_market_def bind_SomeD)
  show ?thesis
  proof (cases "bt_get (swap g) (normalize ?p)")
    case None
    show ?thesis
    proof (rule ensure_absent [OF e None])
      fix reg
      assume "g' = g\<lparr>alloc_ids := EntityIDAllocator (last_id (alloc_ids g) + 2), tokens := reg,
        swap := bt_put (normalize ?p) m (swap g)\<rparr>"
      then show ?thesis by simp
    qed
  next
    case (Some m')
    with e ensure_present [OF Some] show ?thesis by simp
  qed
qed

lemma setup_log: "setup_player a k g = Some g' \<Longrightarrow> event_log_counter g' = event_log_counter g"
  by (auto simp: setup_player_def bind_SomeD alloc_Some Let_def dest!: mint_log)

lemma start_plants_log: "start_plants locs ps g = Some g' \<Longrightarrow> event_log_counter g' = event_log_counter g"
proof (induction locs ps g rule: start_plants.induct)
  case (3 coords ty locs player ps g)
  from 3(2) obtain i g1 where a: "alloc g = Some (i, g1)" by (cases "alloc g") auto
  obtain p ns where nr: "nft_add (nfts g1) \<lparr>owner = player, nft_id = i, transfer_count = 0\<rparr> = (p, ns)" by fastforce
  from 3(2) a nr obtain plant where pl: "new_power_plant p ty coords 1 = Some plant"
    by (cases "new_power_plant p ty coords 1") auto
  let ?g2 = "g1\<lparr>nfts := ns\<lparr>power_plants := bt_put p plant (power_plants ns)\<rparr>\<rparr>"
  from 3(2) a nr pl obtain g3 where m: "mint_tokens ?g2 (asic_token_id ?g2) (nft_inner p) 1 = Some g3"
    and r: "start_plants locs ps g3 = Some g'"
    by (cases "mint_tokens ?g2 (asic_token_id ?g2) (nft_inner p) 1") auto
  from 3(1) [OF a refl nr [symmetric] refl pl refl m r] mint_log [OF m] alloc_Some [of g i g1] a
  show ?case by simp
qed simp_all

lemma schedule_log: "event_log_counter (schedule_cb g cb) = event_log_counter g"
  by (simp add: schedule_cb_def)

lemma alloc_log: "alloc g = Some (i, g') \<Longrightarrow> event_log_counter g' = event_log_counter g"
  by (auto simp: alloc_Some)

lemma post_init_log:
  assumes e: "post_init g = Some g'"
  shows "event_log_counter g' = event_log_counter g"
proof -
  from e obtain g1 g2 g3 g4 g5 g6 j g7 where
    1: "ensure_btc_market (steel_token_id g) g = Some g1" and 2: "ensure_btc_market (silicon_token_id g1) g1 = Some g2"
    and 3: "ensure_btc_market (concrete_token_id g2) g2 = Some g3" and 4: "ensure_btc_market (asic_token_id g3) g3 = Some g4"
    and 5: "mint_tokens g4 (bitcoin_token_id g4) (root_user g4) 10000000000 = Some g5"
    and 6: "mint_tokens g5 (real_sats_token_id g5) (root_user g5) 30000 = Some g6" and 7: "alloc g6 = Some (j, g7)"
    by (auto simp: post_init_def bind_SomeD)
  note s = ensure_log [OF 1] ensure_log [OF 2] ensure_log [OF 3] ensure_log [OF 4] mint_log [OF 5] mint_log [OF 6]
    alloc_log [OF 7]
  note e = e [unfolded post_init_def 1 2 3 4 5 6 7 Option.bind.bind_lunit prod.case Let_def]
  show ?thesis
  proof (cases "hashboards (tokens (schedule_cb g7 (PowerPlantEventCb \<lparr>event_time = 0, event_period = 11003\<rparr>)))")
    case (Cons hb rest)
    obtain h d where "hb = (h, d)" by fastforce
    from e [unfolded Cons this list.case prod.case] s show ?thesis
      by (auto simp: bind_SomeD schedule_log dest!: alloc_log start_plants_log)
  qed (use e in simp)
qed

lemma new_board_log: "new_board s = Some g \<Longrightarrow> event_log_counter g = 0"
proof -
  assume "new_board s = Some g"
  then obtain g0 g1 where 0: "initial_board = Some g0" and 1: "setup_game s g0 = Some g1" and 2: "post_init g1 = Some g"
    by (auto simp: new_board_def bind_SomeD)
  have "event_log_counter g0 = 0"
    using 0 by (auto simp: initial_board_def new_from_alloc_def alloc_make_def add_w_def fits_def new_allocator_def
        new_token_def default_registry_def Let_def)
  then have "event_log_counter g1 = 0"
    using 1 fold_opt_invariant [of "setup_player (start_amount s)" _ _ g1 "\<lambda>g. event_log_counter g = 0"]
    by (auto simp: setup_game_def setup_log)
  with post_init_log [OF 2] show ?thesis by simp
qed

lemma ex_finished:
  "\<exists>g. get_finished_board (ex_kernel [(''alice'', 7)]) ex_trace = Some (Inr (TimeExpired, g)) \<and>
    get_close_distribution g 1 ''host'' = Some (Inr [(''alice'', 1)])"
proof -
  let ?s = "contract_setup (ex_kernel [(''alice'', 7)])"
  have s: "start_amount ?s < 2 ^ 64" "length (players ?s) < 2 ^ 60" "set (players ?s) = {''alice''}" "setup_finish_time ?s = 0"
    by (simp_all add: contract_setup_def ex_kernel_def bt_keys_def)
  then obtain g0 where n: "new_board ?s = Some g0" and k: "keys_ok g0 {''alice''}" and f: "finish_time g0 = 0"
    using setup_result [OF s(1,2)] by (auto split: if_splits)
  then obtain u where u: "users_by_key g0 = [(''alice'', u)]"
    using players_one by blast
  have fin: "game_is_finished g0 = Some (Some TimeExpired)" using f by (simp add: game_is_finished_def)
  have c: "event_log_counter g0 = 0" by (rule new_board_log [OF n])
  let ?g = "g0\<lparr>event_log_counter := 1, event_log := push_log (1, u, LogMoveRejectReason (GameIsFinished TimeExpired)) (event_log g0)\<rparr>"
  have p: "play \<lparr>move_d = Heartbeat, move_sequence = 1, time_millis = 5\<rparr> ''alice'' g0 = Some (Inl (GameIsFinished TimeExpired), ?g)"
    using fin u c by (simp add: play_def bt_get_def add_to_event_log_def add_w_def fits_def)
  have ok: "board_ok g0" by (rule new_board_ok [OF n])
  have h: "has_token g0 (bitcoin_token_id g0)" using wired_tokens(1) [OF ok] by (simp add: plain_token_def)
  then obtain t where t: "tok_index (tokens g0) (bitcoin_token_id g0) = Some t" by (auto simp: reg_has_def)
  have "tokens_ok g0" using ok by (simp add: board_ok_def swap_okD)
  from tok_index_ok [OF this t] have "token_ok t" by simp
  then have b: "balance_check t u < 2 ^ 128" using balance_le_total [of t u] by (simp add: token_ok_def)
  have "balance ?g (bitcoin_token_id ?g) u = Some (balance_check t u)"
    using t by (simp add: balance_def reg_balance_def)
  with b fin u have "get_close_distribution ?g 1 ''host'' = Some (Inr [(''alice'', 1)])"
    by (simp add: get_close_distribution_def expired_rewards_def mul_w_def fits_def div_w_def sub_w_def add_w_def add_excess_def)
  with n p show ?thesis by (simp add: get_finished_board_def ex_trace_def)
qed

theorem settlement_pays_the_distribution_witness:
  "\<exists>t e. outputs toy_template t = [(1, ''alice'')] \<and>
    game_end_players_win toy_template (ex_kernel [(''alice'', 7)]) 1 (Some ex_trace) = Some (Inr (Some t)) \<and>
    game_end_players_lose toy_template (ex_kernel [(''alice'', 7)]) 1 (Some ex_trace) = Some (Inl e)"
proof -
  let ?k = "ex_kernel [(''alice'', 7)]"
  obtain g where g: "get_finished_board ?k ex_trace = Some (Inr (TimeExpired, g))"
    and d: "get_close_distribution g 1 ''host'' = Some (Inr [(''alice'', 1)])"
    using ex_finished by blast
  have h: "game_host ?k = ''host''" "bt_keys (kernel_players ?k) \<noteq> []" "length (kernel_players ?k) < 2 ^ 60"
    by (simp_all add: ex_kernel_def bt_keys_def)
  have "get_close_distribution g 1 (game_host ?k) \<noteq> None" using d h by simp
  from settlement_pays_the_distribution [OF toy_template_ok g h(2,3) _ this] d h(1) show ?thesis
    by (fastforce simp: toy_template_def)
qed

section \<open>Refunds\<close>

text \<open>The two refunds of a game, after an equivocation of the host and after the players' quorum
  has degraded, pay every player exactly what he deposited, and nothing else.\<close>

theorem refunds_return_the_deposits:
  assumes "template_ok l room" and "ensure_amount k = Some a" and "a \<le> funds"
  shows "\<exists>t. degrade l k funds (Some b) = Inr (Some (t, degrade_roles k)) \<and>
    host_cheat_equivocate l k funds (Some sk) = Inr (Some t) \<and>
    outputs l t = map (\<lambda>(p, v). (v, p)) (kernel_players k) \<and> sum_list (map fst (outputs l t)) = a"
proof -
  have a: "a = sum_list (map snd (kernel_players k))"
    using assms(2) by (simp add: ensure_amount_def arith_checked bt_vals_def)
  have fst_swap: "map fst (map (\<lambda>(p, v). (v, p)) m) = map snd m" for m :: "(XOnlyPublicKey \<times> u64) list"
    by (induction m) auto
  have "room (new_template l funds) = funds" "outputs l (new_template l funds) = []"
    using assms(1) by (simp_all add: template_ok_def)
  with a assms(3) obtain t where t: "refund l (kernel_players k) (new_template l funds) = Inr t"
    "outputs l t = map (\<lambda>(p, v). (v, p)) (kernel_players k)"
    using refund_pays [OF assms(1), of "kernel_players k" "new_template l funds"] by auto
  have "map fst (outputs l t) = map snd (kernel_players k)" unfolding t(2) by (rule fst_swap)
  then have "sum_list (map fst (outputs l t)) = a" unfolding a by (rule arg_cong)
  with t show ?thesis by (simp add: degrade_def host_cheat_equivocate_def)
qed

theorem refunds_return_the_deposits_witness:
  "\<exists>t. degrade toy_template (ex_kernel [(''alice'', 7), (''bob'', 5)]) 12 (Some \<lparr>current_block_header = [], parent_in = []\<rparr>) =
      Inr (Some (t, degrade_roles (ex_kernel [(''alice'', 7), (''bob'', 5)]))) \<and>
    outputs toy_template t = [(7, ''alice''), (5, ''bob'')]"
  using refunds_return_the_deposits [OF toy_template_ok, of "ex_kernel [(''alice'', 7), (''bob'', 5)]" 12 12
    "\<lparr>current_block_header = [], parent_in = []\<rparr>" 3]
  by (auto simp: ensure_amount_def ex_kernel_def bt_vals_def add_w_def fits_def)

section \<open>The quorum\<close>

text \<open>
  What is documented of clauses: \<open>sat c s h\<close> says that the signatures of the keys \<open>s\<close> satisfy the
  clause \<open>c\<close> once the contract has been confirmed for \<open>h\<close> blocks.
\<close>

definition clauses_ok :: "'c ClauseLib \<Rightarrow> ('c \<Rightarrow> XOnlyPublicKey set \<Rightarrow> nat \<Rightarrow> bool) \<Rightarrow> bool" where
  "clauses_ok l sat = (\<forall>s h.
     (\<forall>k. sat (key_clause l k) s h = (k \<in> s)) \<and>
     (\<forall>n cs. sat (threshold l n cs) s h = (n \<le> length (filter (\<lambda>c. sat c s h) cs))) \<and>
     (\<forall>cs. sat (and_clause l cs) s h = (\<forall>c \<in> set cs. sat c s h)) \<and>
     (\<forall>n. sat (rel_height l n) s h = (n \<le> h)))"

lemma clauses_okD:
  assumes "clauses_ok l sat"
  shows "sat (key_clause l k) s h = (k \<in> s)"
    and "sat (threshold l n cs) s h = (n \<le> length (filter (\<lambda>c. sat c s h) cs))"
    and "sat (and_clause l cs) s h = (\<forall>c \<in> set cs. sat c s h)"
    and "sat (rel_height l n) s h = (n \<le> h)"
  using assms by (simp_all add: clauses_ok_def)

text \<open>How many of the keys have signed.\<close>

definition signers :: "'c ClauseLib \<Rightarrow> ('c \<Rightarrow> XOnlyPublicKey set \<Rightarrow> nat \<Rightarrow> bool) \<Rightarrow> 'c list \<Rightarrow> XOnlyPublicKey set \<Rightarrow> nat \<Rightarrow> nat" where
  "signers l sat keys s h = length (filter (\<lambda>c. sat c s h) keys)"

lemma quorum_clauses_sat:
  assumes l: "clauses_ok l sat"
  shows "t + 12 * n < 2 ^ 16 \<Longrightarrow> \<exists>cs. quorum_clauses l host keys n t = Some cs \<and>
    length (filter (\<lambda>c. sat c s h) cs) \<le> 2 * n \<and>
    ((\<exists>c \<in> set cs. sat c s h) \<longleftrightarrow> (\<exists>m \<ge> 1. m \<le> n \<and> m \<le> signers l sat keys s h \<and>
      (host \<in> s \<and> max (t + 12 * (n - m)) 1 \<le> h \<or> t + 12 * (n - m) + 6 \<le> h)))"
proof (induction n arbitrary: t)
  case (Suc n)
  let ?p = "signers l sat keys s h"
  let ?P = "\<lambda>n t m. m \<le> n \<and> m \<le> ?p \<and> (host \<in> s \<and> max (t + 12 * (n - m)) 1 \<le> h \<or> t + 12 * (n - m) + 6 \<le> h)"
  have "t + 6 + 6 + 12 * n < 2 ^ 16" using Suc.prems by simp
  from Suc.IH [OF this] obtain cs where cs: "quorum_clauses l host keys n (t + 6 + 6) = Some cs"
    "length (filter (\<lambda>c. sat c s h) cs) \<le> 2 * n"
    "(\<exists>c \<in> set cs. sat c s h) = (\<exists>m \<ge> 1. ?P n (t + 6 + 6) m)" by blast
  let ?v = "[rel_height l (max t 1), threshold l (Suc n) keys, key_clause l host]"
  let ?w = "and_clause l [threshold l (Suc n) keys, rel_height l (t + 6)]"
  have q: "quorum_clauses l host keys (Suc n) t = Some (threshold l (length ?v) ?v # ?w # cs)"
    using cs(1) Suc.prems by (simp add: degrade_every_n_blocks_def add_w_def fits_def)
  have v: "sat (threshold l (length ?v) ?v) s h = (max t 1 \<le> h \<and> Suc n \<le> ?p \<and> host \<in> s)"
    by (auto simp: clauses_okD [OF l] signers_def)
  have w: "sat ?w s h = (Suc n \<le> ?p \<and> t + 6 \<le> h)"
    by (auto simp: clauses_okD [OF l] signers_def)
  have "(\<exists>m \<ge> 1. ?P (Suc n) t m) = (?P (Suc n) t (Suc n) \<or> (\<exists>m \<ge> 1. m \<le> n \<and> ?P (Suc n) t m))"
    using le_Suc_eq by auto
  moreover have "(m \<le> n \<and> ?P (Suc n) t m) = ?P n (t + 6 + 6) m" for m
    by (cases "m \<le> n") (simp_all add: Suc_diff_le ac_simps)
  ultimately have "(\<exists>m \<ge> 1. ?P (Suc n) t m) = ((Suc n \<le> ?p \<and> (host \<in> s \<and> max t 1 \<le> h \<or> t + 6 \<le> h)) \<or>
      (\<exists>c \<in> set cs. sat c s h))"
    using cs(3) by simp
  then have "(\<exists>c \<in> set (threshold l (length ?v) ?v # ?w # cs). sat c s h) = (\<exists>m \<ge> 1. ?P (Suc n) t m)"
    using v w by auto
  with q cs(2) show ?case by auto
qed simp

text \<open>The keys of the players that signed, counted by clause and by key.\<close>

lemma signers_card:
  assumes l: "clauses_ok l sat" and ok: "bt_ok m"
  shows "signers l sat (map (key_clause l) (bt_keys m)) s h = card (s \<inter> set (bt_keys m))"
proof -
  have "signers l sat (map (key_clause l) (bt_keys m)) s h = length (filter (\<lambda>k. k \<in> s) (bt_keys m))"
    by (simp add: signers_def filter_map comp_def clauses_okD [OF l])
  also have "\<dots> = card (set (filter (\<lambda>k. k \<in> s) (bt_keys m)))"
    using bt_ok_distinct [OF ok] by (subst distinct_card) (simp_all add: bt_keys_def)
  also have "set (filter (\<lambda>k. k \<in> s) (bt_keys m)) = s \<inter> set (bt_keys m)" by auto
  finally show ?thesis .
qed

text \<open>The quorum that can take the refund of a game of n players shrinks by one player for every
  twelve blocks: p signing players suffice, with the host, after 12 (n - p) confirmations (and at
  least one), and without the host six blocks later; nobody else's signature counts, and no
  signature at all never suffices. The 16-bit heights of the clauses do not overflow below 5462
  players.\<close>

theorem quorum_degrades:
  assumes "clauses_ok l sat" and "bt_ok (kernel_players k)" and "n = length (kernel_players k)" and "1 \<le> n" and "n \<le> 5461"
    and "p = card (s \<inter> set (bt_keys (kernel_players k)))"
  shows "\<exists>c. degraded_quorum l k = Some c \<and>
    sat c s h = (1 \<le> p \<and> (game_host k \<in> s \<and> max (12 * (n - p)) 1 \<le> h \<or> 12 * (n - p) + 6 \<le> h))"
proof -
  let ?keys = "map (key_clause l) (bt_keys (kernel_players k))"
  have p: "signers l sat ?keys s h = p" using signers_card [OF assms(1,2)] assms(6) by simp
  have "p \<le> card (set (bt_keys (kernel_players k)))" unfolding assms(6) by (rule card_mono) auto
  then have pn: "p \<le> n" using card_length [of "bt_keys (kernel_players k)"] by (simp add: assms(3) bt_keys_def)
  have "0 + 12 * n < 2 ^ 16" using assms(5) by simp
  from quorum_clauses_sat [OF assms(1) this, of "game_host k" ?keys s h] obtain cs where
    q: "quorum_clauses l (game_host k) ?keys n 0 = Some cs"
    and e: "(\<exists>c \<in> set cs. sat c s h) = (\<exists>m \<ge> 1. m \<le> n \<and> m \<le> p \<and>
      (game_host k \<in> s \<and> max (12 * (n - m)) 1 \<le> h \<or> 12 * (n - m) + 6 \<le> h))"
    by (auto simp: p)
  have best: "(\<exists>m \<ge> 1. m \<le> n \<and> m \<le> p \<and> (game_host k \<in> s \<and> max (12 * (n - m)) 1 \<le> h \<or> 12 * (n - m) + 6 \<le> h)) =
    (1 \<le> p \<and> (game_host k \<in> s \<and> max (12 * (n - p)) 1 \<le> h \<or> 12 * (n - p) + 6 \<le> h))" (is "?l = ?r")
  proof
    assume ?l
    then obtain m where m: "1 \<le> m" "m \<le> p" "game_host k \<in> s \<and> max (12 * (n - m)) 1 \<le> h \<or> 12 * (n - m) + 6 \<le> h" by blast
    then have "12 * (n - p) \<le> 12 * (n - m)" by simp
    with m show ?r by linarith
  next
    assume ?r
    with pn show ?l by auto
  qed
  have "degraded_quorum l k = Some (threshold l 1 cs)"
    using q assms(3,4) by (simp add: degraded_quorum_def sub_w_def)
  moreover have "sat (threshold l 1 cs) s h = (\<exists>c \<in> set cs. sat c s h)"
    by (simp add: clauses_okD [OF assms(1)] Suc_le_eq filter_empty_conv)
  ultimately show ?thesis using e best by auto
qed

datatype toy_clause = ToyKey XOnlyPublicKey | ToyThreshold nat "toy_clause list" | ToyAnd "toy_clause list" | ToyAfter nat

fun toy_sat :: "toy_clause \<Rightarrow> XOnlyPublicKey set \<Rightarrow> nat \<Rightarrow> bool" where
  "toy_sat (ToyKey k) s h = (k \<in> s)"
| "toy_sat (ToyThreshold n cs) s h = (n \<le> length (filter (\<lambda>c. toy_sat c s h) cs))"
| "toy_sat (ToyAnd cs) s h = (\<forall>c \<in> set cs. toy_sat c s h)"
| "toy_sat (ToyAfter n) s h = (n \<le> h)"

definition toy_clauses :: "toy_clause ClauseLib" where
  "toy_clauses = \<lparr>key_clause = ToyKey, threshold = ToyThreshold, and_clause = ToyAnd, rel_height = ToyAfter\<rparr>"

lemma toy_clauses_ok: "clauses_ok toy_clauses toy_sat"
  by (simp add: clauses_ok_def toy_clauses_def)

theorem quorum_degrades_witness:
  "\<exists>c. degraded_quorum toy_clauses (ex_kernel [(''alice'', 7), (''bob'', 5)]) = Some c \<and>
    toy_sat c {''bob''} 18 \<and> \<not> toy_sat c {''bob''} 17"
proof -
  let ?k = "ex_kernel [(''alice'', 7), (''bob'', 5)]"
  have h: "bt_ok (kernel_players ?k)" "2 = length (kernel_players ?k)" "1 = card ({''bob''} \<inter> set (bt_keys (kernel_players ?k)))"
    by (simp_all add: ex_kernel_def bt_ok_def bt_keys_def)
  show ?thesis
    using quorum_degrades [OF toy_clauses_ok h(1,2) _ _ h(3), of 18] quorum_degrades [OF toy_clauses_ok h(1,2) _ _ h(3), of 17]
    by (auto simp: ex_kernel_def)
qed

end
