(* ===== verification/Database.thy ===== *)
theory Database
  imports Game_Host Equivocation
begin

text \<open>
  The store of a node's messages (\<open>common/attest-database/src\<close>): its tables with their constraints and
  trigger, the statements that write them, the queries, and the making of new envelopes
  (\<open>db_handle/create.rs\<close>). The SQL of the statements is under \<open>db_handle/sql\<close>; it is translated with
  the Rust function that executes it. A table is the list of its rows in the order of insertion, and
  a query without an order returns its rows in that order. The body of a row is the header and the
  message of an envelope, which is what its JSON text holds; reading it back recomputes the hash.
  Texts of errors are left out, and a panic is \<open>None\<close>.
\<close>

section \<open>Tables\<close>

record 'm Row =
  message_id :: nat
  body :: "Header \<times> 'm"
  row_hash :: CanonicalEnvelopeHash
  row_user :: nat
  received_time :: int
  prev_msg_id :: "nat option"
  genesis_id :: "nat option"
  row_height :: int
  sent_time :: int
  row_prev :: CanonicalEnvelopeHash
  row_genesis :: CanonicalEnvelopeHash
  row_nonce :: u8s
  connected :: bool

record UserRow =
  user_id :: nat
  user_nick :: string
  db_key :: XOnlyPublicKey

record NonceRow =
  nonce_owner :: "nat option"
  nonce_public :: PrecomittedPublicNonce
  nonce_secret :: PrecomittedNonce

record PeerInfo =
  service_url :: string
  port :: nat
  fetch_from :: bool
  push_to :: bool
  allow_unsolicited_tips :: bool

text \<open>Groups are pairs of an id and a name; members and subscribers pairs of a group and a message id.\<close>

record 'm MsgDB =
  messages :: "'m Row list"
  db_users :: "UserRow list"
  private_keys :: "(nat \<times> XOnlyPublicKey \<times> nat) list"
  message_nonces :: "NonceRow list"
  hidden_services :: "PeerInfo list"
  commit_groups :: "(nat \<times> string) list"
  group_members :: "(nat \<times> nat) list"
  group_subscribers :: "(nat \<times> nat) list"

definition empty_db :: "'m MsgDB" where
  "empty_db = \<lparr>messages = [], db_users = [], private_keys = [], message_nonces = [], hidden_services = [],
     commit_groups = [], group_members = [], group_subscribers = []\<rparr>"

text \<open>The three constraint failures that are told apart, and the other errors of the library.\<close>

datatype SqliteFail = SqliteConstraintUnique | SqliteConstraintNotNull | SqliteConstraintCheck

datatype SqlError = QueryReturnedNoRows | SqliteFailure SqliteFail

text \<open>The next id of a table whose rows are never deleted.\<close>

definition fresh_id :: "nat list \<Rightarrow> nat" where
  "fresh_id ids = Suc (Max (insert 0 (set ids)))"

definition read_body :: "'m Crypto \<Rightarrow> 'm Row \<Rightarrow> 'm GenericEnvelope Authenticated" where
  "read_body c r = Authenticated (new_envelope c (fst (body r)) (snd (body r)))"

definition find_hash :: "'m MsgDB \<Rightarrow> CanonicalEnvelopeHash \<Rightarrow> 'm Row option" where
  "find_hash db h = find (\<lambda>r. row_hash r = h) (messages db)"

definition find_user :: "'m MsgDB \<Rightarrow> XOnlyPublicKey \<Rightarrow> UserRow option" where
  "find_user db k = find (\<lambda>u. db_key u = k) (db_users db)"

text \<open>
  The \<open>CHECK\<close> constraints of the table of messages. The last one of the table compares the nonce with
  a path that no envelope has, so it never fails.
\<close>

definition row_check :: "'m Row \<Rightarrow> bool" where
  "row_check r =
     ((row_height r = 0 \<or> genesis_id r \<noteq> None) \<and>
      (connected r \<and> prev_msg_id r \<noteq> None \<and> genesis_id r \<noteq> None \<or> \<not> connected r \<or> row_height r = 0 \<and> connected r) \<and>
      (row_height r > 0 \<or> row_height r = 0 \<and> row_prev r = genesis_hash) \<and>
      (case ancestors (fst (body r)) of None \<Rightarrow> row_hash r | Some a \<Rightarrow> anc_genesis a) = row_genesis r \<and>
      (case ancestors (fst (body r)) of None \<Rightarrow> row_prev r | Some a \<Rightarrow> prev_msg a) = row_prev r \<and>
      height (fst (body r)) = row_height r \<and> sent_time_ms (fst (body r)) = sent_time r)"

section \<open>Inserting envelopes\<close>

text \<open>\<open>SQL_INSERT_ENVELOPE\<close>: the row that it inserts for a user.\<close>

definition new_row :: "'m Crypto \<Rightarrow> int \<Rightarrow> 'm GenericEnvelope \<Rightarrow> u8s \<Rightarrow> nat \<Rightarrow> 'm MsgDB \<Rightarrow> 'm Row" where
  "new_row c now data sig uid db =
     (let genesis = get_genesis_hash c data;
          prev = (case ancestors (header data) of None \<Rightarrow> genesis_hash | Some a \<Rightarrow> prev_msg a)
      in \<lparr>message_id = fresh_id (map message_id (messages db)), body = (header data, msg data),
          row_hash = canonicalized_hash_ref c data, row_user = uid, received_time = now,
          prev_msg_id = map_option message_id (find_hash db prev),
          genesis_id = map_option message_id (find_hash db genesis),
          row_height = height (header data), sent_time = sent_time_ms (header data),
          row_prev = prev, row_genesis = genesis, row_nonce = take 32 sig,
          connected = (height (header data) = 0 \<or>
            (case find_hash db prev of None \<Rightarrow> False | Some p \<Rightarrow> connected p))\<rparr>)"

text \<open>The trigger: messages that wait for the new one as their parent get its id.\<close>

definition message_parents :: "'m Row \<Rightarrow> 'm Row list \<Rightarrow> 'm Row list" where
  "message_parents new rows =
     map (\<lambda>r. if row_prev r = row_hash new then r\<lparr>prev_msg_id := Some (message_id new)\<rparr> else r) rows"

text \<open>SQLite checks \<open>NOT NULL\<close> first, then \<open>CHECK\<close>, then \<open>UNIQUE\<close>.\<close>

definition try_insert_authenticated_envelope_with_txn ::
  "'m Crypto \<Rightarrow> int \<Rightarrow> 'm GenericEnvelope Authenticated \<Rightarrow> 'm MsgDB \<Rightarrow> ((SqliteFail + unit) \<times> 'm MsgDB) option" where
  "try_insert_authenticated_envelope_with_txn c now a db = do {
     sig \<leftarrow> envelope_signature (inner a);
     Some (case find_user db (hdr_key (header (inner a))) of
       None \<Rightarrow> (Inl SqliteConstraintNotNull, db)
     | Some u \<Rightarrow>
         (let r = new_row c now (inner a) sig (user_id u) db in
          if \<not> row_check r then (Inl SqliteConstraintCheck, db)
          else if find_hash db (row_hash r) \<noteq> None then (Inl SqliteConstraintUnique, db)
          else (Inr (), db\<lparr>messages := message_parents r (messages db @ [r])\<rparr>)))
   }"

definition message_exists_children :: "CanonicalEnvelopeHash \<Rightarrow> 'm MsgDB \<Rightarrow> bool" where
  "message_exists_children h db = list_ex (\<lambda>r. row_prev r = h) (messages db)"

definition try_insert_authenticated_envelope ::
  "'m Crypto \<Rightarrow> int \<Rightarrow> bool \<Rightarrow> 'm GenericEnvelope Authenticated \<Rightarrow> 'm MsgDB \<Rightarrow> ((SqliteFail + unit) \<times> 'm MsgDB) option" where
  "try_insert_authenticated_envelope c now reuse_safe a db =
     (case ancestors (header (inner a)) of
        Some anc \<Rightarrow>
          (if reuse_safe \<and> message_exists_children (prev_msg anc) db then Some (Inl SqliteConstraintUnique, db)
           else try_insert_authenticated_envelope_with_txn c now a db)
      | None \<Rightarrow> try_insert_authenticated_envelope_with_txn c now a db)"

text \<open>A user whose key is known already keeps his name; the envelope is inserted in any case.\<close>

definition insert_user :: "string \<Rightarrow> XOnlyPublicKey \<Rightarrow> 'm MsgDB \<Rightarrow> 'm MsgDB" where
  "insert_user nick key db =
     (if find_user db key \<noteq> None then db
      else db\<lparr>db_users := db_users db @ [\<lparr>user_id = fresh_id (map user_id (db_users db)), user_nick = nick, db_key = key\<rparr>]\<rparr>)"

definition insert_user_by_genesis_envelope ::
  "'m Crypto \<Rightarrow> int \<Rightarrow> string \<Rightarrow> 'm GenericEnvelope Authenticated \<Rightarrow> 'm MsgDB \<Rightarrow>
   ((SqliteFail + XOnlyPublicKey) \<times> 'm MsgDB) option" where
  "insert_user_by_genesis_envelope c now nick a db = do {
     let key = hdr_key (header (inner a));
     (r, db') \<leftarrow> try_insert_authenticated_envelope_with_txn c now a (insert_user nick key db);
     Some (map_sum id (\<lambda>_. key) r, db')
   }"

section \<open>Connecting messages\<close>

text \<open>
  \<open>do_connect.sql\<close>: the messages that can be connected, with the ids of their parent and of their
  genesis. The recursion adds the children of what it found until there is nothing new.
\<close>

record Updatable =
  upd_id :: nat
  upd_hash :: CanonicalEnvelopeHash
  upd_parent :: nat
  upd_genesis :: "nat option"

definition parent_link :: "'m Row \<Rightarrow> 'm Row \<Rightarrow> Updatable" where
  "parent_link m p = \<lparr>upd_id = message_id m, upd_hash = row_hash m, upd_parent = message_id p,
     upd_genesis = (if row_height p = 0 then Some (message_id p) else genesis_id p)\<rparr>"

definition child_link :: "Updatable \<Rightarrow> 'm Row \<Rightarrow> Updatable" where
  "child_link u m = \<lparr>upd_id = message_id m, upd_hash = row_hash m, upd_parent = upd_id u, upd_genesis = upd_genesis u\<rparr>"

definition connectable :: "'m Row list \<Rightarrow> Updatable list" where
  "connectable ms = concat (map (\<lambda>m. map (parent_link m) (filter (\<lambda>p. row_hash p = row_prev m \<and> connected p) ms))
     (filter (\<lambda>m. \<not> connected m) ms))"

definition children :: "'m Row list \<Rightarrow> Updatable list \<Rightarrow> Updatable list" where
  "children ms us = concat (map (\<lambda>u. map (child_link u) (filter (\<lambda>m. row_prev m = upd_hash u) ms)) us)"

fun grow :: "nat \<Rightarrow> 'm Row list \<Rightarrow> Updatable list \<Rightarrow> Updatable list \<Rightarrow> Updatable list" where
  "grow 0 ms frontier acc = acc"
| "grow (Suc n) ms frontier acc =
     (let new = remdups (filter (\<lambda>u. u \<notin> set acc) (children ms frontier)) in
      if new = [] then acc else grow n ms new (acc @ new))"

text \<open>There are no more entries than messages times parents times genesis ids.\<close>

definition updatable :: "'m Row list \<Rightarrow> Updatable list" where
  "updatable ms =
     (let start = remdups (connectable ms); n = length ms in grow (Suc (n * (n * (2 * n)))) ms start start)"

definition connect_row :: "Updatable list \<Rightarrow> 'm Row \<Rightarrow> 'm Row" where
  "connect_row us r =
     (case find (\<lambda>u. upd_id u = message_id r) us of
        None \<Rightarrow> r
      | Some u \<Rightarrow> r\<lparr>connected := True, prev_msg_id := Some (upd_parent u), genesis_id := upd_genesis u\<rparr>)"

text \<open>A row that fails a check undoes the whole statement. The result is the number of rows changed.\<close>

definition attach_tips :: "'m MsgDB \<Rightarrow> (SqlError + nat) \<times> 'm MsgDB" where
  "attach_tips db =
     (let us = updatable (messages db); rows = map (connect_row us) (messages db) in
      if list_all row_check rows
      then (Inr (length (filter (\<lambda>r. list_ex (\<lambda>u. upd_id u = message_id r) us) (messages db))), db\<lparr>messages := rows\<rparr>)
      else (Inl (SqliteFailure SqliteConstraintCheck), db))"

definition resolve_parents :: "'m MsgDB \<Rightarrow> 'm MsgDB" where
  "resolve_parents db = db\<lparr>messages := map (\<lambda>r.
     if \<not> connected r \<and> prev_msg_id r = None \<and> find_hash db (row_prev r) \<noteq> None
     then r\<lparr>prev_msg_id := map_option message_id (find_hash db (row_prev r))\<rparr> else r) (messages db)\<rparr>"

section \<open>Queries\<close>

definition message_exists :: "CanonicalEnvelopeHash \<Rightarrow> 'm MsgDB \<Rightarrow> bool" where
  "message_exists h db = (find_hash db h \<noteq> None)"

definition message_not_exists_it :: "CanonicalEnvelopeHash list \<Rightarrow> 'm MsgDB \<Rightarrow> CanonicalEnvelopeHash list" where
  "message_not_exists_it hs db = filter (\<lambda>h. \<not> message_exists h db) hs"

definition messages_by_hash ::
  "'m Crypto \<Rightarrow> CanonicalEnvelopeHash list \<Rightarrow> 'm MsgDB \<Rightarrow> SqlError + 'm GenericEnvelope Authenticated list" where
  "messages_by_hash c hs db = collect_results (\<lambda>h. case find_hash db h of
     None \<Rightarrow> Inl QueryReturnedNoRows | Some r \<Rightarrow> Inr (read_body c r)) hs"

definition messages_by_ids ::
  "'m Crypto \<Rightarrow> nat list \<Rightarrow> 'm MsgDB \<Rightarrow> SqlError + 'm GenericEnvelope Authenticated list" where
  "messages_by_ids c is db = collect_results (\<lambda>i. case find (\<lambda>r. message_id r = i) (messages db) of
     None \<Rightarrow> Inl QueryReturnedNoRows | Some r \<Rightarrow> Inr (read_body c r)) is"

text \<open>The rows of the users with a key.\<close>

definition rows_of :: "XOnlyPublicKey \<Rightarrow> 'm MsgDB \<Rightarrow> 'm Row list" where
  "rows_of key db = (case find_user db key of None \<Rightarrow> [] | Some u \<Rightarrow> filter (\<lambda>r. row_user r = user_id u) (messages db))"

definition get_message_at_height_for_user ::
  "'m Crypto \<Rightarrow> XOnlyPublicKey \<Rightarrow> int \<Rightarrow> 'm MsgDB \<Rightarrow> 'm GenericEnvelope Authenticated option" where
  "get_message_at_height_for_user c key h db =
     map_option (read_body c) (find (\<lambda>r. row_height r = h) (rows_of key db))"

text \<open>Of several rows of the greatest height the first one stored.\<close>

definition highest :: "'m Row list \<Rightarrow> 'm Row option" where
  "highest rs = (case rs of [] \<Rightarrow> None | _ \<Rightarrow> find (\<lambda>r. row_height r = Max (row_height ` set rs)) rs)"

definition get_tip_for_user_by_key ::
  "'m Crypto \<Rightarrow> XOnlyPublicKey \<Rightarrow> 'm MsgDB \<Rightarrow> SqlError + 'm GenericEnvelope Authenticated" where
  "get_tip_for_user_by_key c key db =
     (case highest (filter connected (rows_of key db)) of
        None \<Rightarrow> Inl QueryReturnedNoRows | Some r \<Rightarrow> Inr (read_body c r))"

text \<open>\<open>GROUP BY user_id\<close> with the greatest height: one row of each user, by user id.\<close>

definition tips_by_user :: "'m Row list \<Rightarrow> 'm Row list" where
  "tips_by_user rs = List.map_filter (\<lambda>u. highest (filter (\<lambda>r. row_user r = u) rs)) (sort (remdups (map row_user rs)))"

definition get_tips_for_all_users :: "'m Crypto \<Rightarrow> 'm MsgDB \<Rightarrow> 'm GenericEnvelope Authenticated list" where
  "get_tips_for_all_users c db = map (read_body c) (tips_by_user (filter connected (messages db)))"

definition get_tip_for_known_keys :: "'m Crypto \<Rightarrow> 'm MsgDB \<Rightarrow> 'm GenericEnvelope Authenticated list" where
  "get_tip_for_known_keys c db = map (read_body c) (tips_by_user (filter (\<lambda>r. connected r \<and>
     list_ex (\<lambda>u. user_id u = row_user r \<and> list_ex (\<lambda>(_, k, _). k = db_key u) (private_keys db)) (db_users db)) (messages db)))"

definition get_all_genesis :: "'m Crypto \<Rightarrow> 'm MsgDB \<Rightarrow> 'm GenericEnvelope Authenticated list" where
  "get_all_genesis c db = map (read_body c) (filter (\<lambda>r. row_height r = 0) (messages db))"

definition load_all_messages_for_user_by_key_connected ::
  "'m Crypto \<Rightarrow> XOnlyPublicKey \<Rightarrow> 'm MsgDB \<Rightarrow> 'm GenericEnvelope Authenticated list" where
  "load_all_messages_for_user_by_key_connected c key db =
     map (read_body c) (sort_key row_height (filter connected (rows_of key db)))"

definition get_connected_messages_newer_than_envelopes ::
  "'m Crypto \<Rightarrow> 'm GenericEnvelope Authenticated list \<Rightarrow> 'm MsgDB \<Rightarrow> 'm GenericEnvelope Authenticated list" where
  "get_connected_messages_newer_than_envelopes c es db = concat (map (\<lambda>e. map (read_body c) (sort_key row_height
     (filter (\<lambda>r. row_genesis r = get_genesis_hash c (inner e) \<and> connected r \<and> height (header (inner e)) < row_height r)
       (messages db)))) es)"

text \<open>
  The queries that a poller repeats: the messages after the last id it has seen go into its map, and
  the greatest id becomes the last one.
\<close>

definition collect_into ::
  "'m Crypto \<Rightarrow> 'm Row list \<Rightarrow> nat option \<Rightarrow> 'm GenericEnvelope Authenticated hash_map \<Rightarrow>
   nat option \<times> 'm GenericEnvelope Authenticated hash_map" where
  "collect_into c rs newer m =
     fold (\<lambda>r (newer, m). (Some (case newer of None \<Rightarrow> message_id r | Some i \<Rightarrow> max i (message_id r)),
       hm_insert (canonicalized_hash_ref c (inner (read_body c r))) (read_body c r) m)) rs (newer, m)"

definition after :: "nat option \<Rightarrow> 'm Row \<Rightarrow> bool" where
  "after newer r = (case newer of None \<Rightarrow> True | Some i \<Rightarrow> i < message_id r)"

definition get_all_connected_messages_collect_into ::
  "'m Crypto \<Rightarrow> nat option \<Rightarrow> 'm GenericEnvelope Authenticated hash_map \<Rightarrow> 'm MsgDB \<Rightarrow>
   nat option \<times> 'm GenericEnvelope Authenticated hash_map" where
  "get_all_connected_messages_collect_into c newer m db =
     collect_into c (filter (\<lambda>r. after newer r \<and> connected r) (messages db)) newer m"

definition get_all_messages_collect_into_inconsistent ::
  "'m Crypto \<Rightarrow> nat option \<Rightarrow> 'm GenericEnvelope Authenticated hash_map \<Rightarrow> 'm MsgDB \<Rightarrow>
   nat option \<times> 'm GenericEnvelope Authenticated hash_map" where
  "get_all_messages_collect_into_inconsistent c newer m db =
     collect_into c (filter (after newer) (messages db)) newer m"

text \<open>\<open>reused_nonces.sql\<close>: the messages of a user that were signed with one nonce.\<close>

definition reused_nonce_rows :: "'m MsgDB \<Rightarrow> 'm Row list" where
  "reused_nonce_rows db = filter (\<lambda>r. 1 < length (filter (\<lambda>q. row_nonce q = row_nonce r \<and> row_user q = row_user r)
     (messages db))) (messages db)"

definition locate_user :: "XOnlyPublicKey \<Rightarrow> 'm MsgDB \<Rightarrow> SqlError + nat \<times> string" where
  "locate_user key db = (case find_user db key of None \<Rightarrow> Inl QueryReturnedNoRows | Some u \<Rightarrow> Inr (user_id u, user_nick u))"

definition get_all_users :: "'m MsgDB \<Rightarrow> (XOnlyPublicKey \<times> string) list" where
  "get_all_users db = map (\<lambda>u. (db_key u, user_nick u)) (db_users db)"

definition get_keymap :: "'m MsgDB \<Rightarrow> (XOnlyPublicKey, nat) btree_map" where
  "get_keymap db = fold (\<lambda>(_, k, sk) m. bt_put k sk m) (private_keys db) []"

section \<open>Keys, nonces, peers and groups\<close>

definition save_keypair :: "XOnlyPublicKey \<Rightarrow> nat \<Rightarrow> 'm MsgDB \<Rightarrow> (SqlError + unit) \<times> 'm MsgDB" where
  "save_keypair pk sk db =
     (if list_ex (\<lambda>(_, k, s). k = pk \<or> s = sk) (private_keys db) then (Inl (SqliteFailure SqliteConstraintUnique), db)
      else (Inr (), db\<lparr>private_keys := private_keys db @ [(fresh_id (map fst (private_keys db)), pk, sk)]\<rparr>))"

text \<open>A nonce of a key that is not stored has no owner, and then the uniqueness does not apply.\<close>

definition save_nonce_for_user_by_key ::
  "'m Crypto \<Rightarrow> PrecomittedNonce \<Rightarrow> XOnlyPublicKey \<Rightarrow> 'm MsgDB \<Rightarrow> (SqlError + PrecomittedPublicNonce) \<times> 'm MsgDB" where
  "save_nonce_for_user_by_key c nonce key db =
     (let pub = PrecomittedPublicNonce (public_key c (secret nonce));
          r = \<lparr>nonce_owner = map_option fst (find (\<lambda>(_, k, _). k = key) (private_keys db)), nonce_public = pub, nonce_secret = nonce\<rparr>
      in if nonce_owner r \<noteq> None \<and> r \<in> set (message_nonces db)
         then (Inl (SqliteFailure SqliteConstraintUnique), db)
         else (Inr pub, db\<lparr>message_nonces := message_nonces db @ [r]\<rparr>))"

definition get_secret_for_public_nonce :: "PrecomittedPublicNonce \<Rightarrow> 'm MsgDB \<Rightarrow> SqlError + PrecomittedNonce" where
  "get_secret_for_public_nonce n db =
     (case find (\<lambda>r. nonce_public r = n) (message_nonces db) of
        None \<Rightarrow> Inl QueryReturnedNoRows | Some r \<Rightarrow> Inr (nonce_secret r))"

definition same_service :: "string \<Rightarrow> nat \<Rightarrow> PeerInfo \<Rightarrow> bool" where
  "same_service url prt p = (service_url p = url \<and> port p = prt)"

definition insert_hidden_service ::
  "string \<Rightarrow> nat \<Rightarrow> bool \<Rightarrow> bool \<Rightarrow> bool \<Rightarrow> 'm MsgDB \<Rightarrow> (SqlError + unit) \<times> 'm MsgDB" where
  "insert_hidden_service url prt fetch push unsolicited db =
     (if list_ex (same_service url prt) (hidden_services db) then (Inl (SqliteFailure SqliteConstraintUnique), db)
      else (Inr (), db\<lparr>hidden_services := hidden_services db @ [\<lparr>service_url = url, port = prt, fetch_from = fetch,
        push_to = push, allow_unsolicited_tips = unsolicited\<rparr>]\<rparr>))"

text \<open>\<open>IFNULL(:x, x)\<close>: what is not given stays, and is false in a new row.\<close>

definition upsert_hidden_service ::
  "string \<Rightarrow> nat \<Rightarrow> bool option \<Rightarrow> bool option \<Rightarrow> bool option \<Rightarrow> 'm MsgDB \<Rightarrow> 'm MsgDB" where
  "upsert_hidden_service url prt fetch push unsolicited db =
     (if list_ex (same_service url prt) (hidden_services db)
      then db\<lparr>hidden_services := map (\<lambda>p. if same_service url prt p
             then p\<lparr>fetch_from := case_option (fetch_from p) id fetch, push_to := case_option (push_to p) id push,
               allow_unsolicited_tips := case_option (allow_unsolicited_tips p) id unsolicited\<rparr> else p) (hidden_services db)\<rparr>
      else db\<lparr>hidden_services := hidden_services db @ [\<lparr>service_url = url, port = prt,
        fetch_from = case_option False id fetch, push_to = case_option False id push,
        allow_unsolicited_tips = case_option False id unsolicited\<rparr>]\<rparr>)"

definition get_all_hidden_services :: "'m MsgDB \<Rightarrow> PeerInfo list" where
  "get_all_hidden_services db = hidden_services db"

end
