(* ===== verification/Own_Chain.thy ===== *)
theory Own_Chain
  imports Database
begin

text \<open>
  Chain commit groups (\<open>common/attest-database/src/db_handle/get/chain_commit_groups.rs\<close>) and the making
  of a node's own envelopes (\<open>db_handle/create.rs\<close>, \<open>lib.rs\<close>). Fresh nonces, times and random names are
  arguments.
\<close>

section \<open>Chain commit groups\<close>

definition new_chain_commit_group :: "string option \<Rightarrow> string \<Rightarrow> 'm MsgDB \<Rightarrow> (SqlError + string \<times> nat) \<times> 'm MsgDB" where
  "new_chain_commit_group name0 random_name db =
     (let name = (case name0 of None \<Rightarrow> random_name | Some n \<Rightarrow> n); i = fresh_id (map fst (commit_groups db)) in
      if name \<in> snd ` set (commit_groups db) then (Inl (SqliteFailure SqliteConstraintUnique), db)
      else (Inr (name, i), db\<lparr>commit_groups := commit_groups db @ [(i, name)]\<rparr>))"

text \<open>The bundled SQLite enforces foreign keys; that failure is not one of the three told apart.\<close>

datatype GroupError = GroupSql SqlError | ForeignKey

definition add_pair :: "nat \<Rightarrow> CanonicalEnvelopeHash \<Rightarrow> 'm MsgDB \<Rightarrow> (nat \<times> nat) list \<Rightarrow> GroupError + (nat \<times> nat) list" where
  "add_pair group_id genesis db pairs =
     (case find_hash db genesis of
        None \<Rightarrow> Inl (GroupSql (SqliteFailure SqliteConstraintNotNull))
      | Some r \<Rightarrow>
          (if (group_id, message_id r) \<in> set pairs then Inl (GroupSql (SqliteFailure SqliteConstraintUnique))
           else if group_id \<notin> fst ` set (commit_groups db) then Inl ForeignKey
           else Inr (pairs @ [(group_id, message_id r)])))"

definition add_member_to_chain_commit_group ::
  "nat \<Rightarrow> CanonicalEnvelopeHash \<Rightarrow> 'm MsgDB \<Rightarrow> (GroupError + unit) \<times> 'm MsgDB" where
  "add_member_to_chain_commit_group group_id genesis db =
     (case add_pair group_id genesis db (group_members db) of
        Inl e \<Rightarrow> (Inl e, db) | Inr ps \<Rightarrow> (Inr (), db\<lparr>group_members := ps\<rparr>))"

definition add_subscriber_to_chain_commit_group ::
  "nat \<Rightarrow> CanonicalEnvelopeHash \<Rightarrow> 'm MsgDB \<Rightarrow> (GroupError + unit) \<times> 'm MsgDB" where
  "add_subscriber_to_chain_commit_group group_id genesis db =
     (case add_pair group_id genesis db (group_subscribers db) of
        Inl e \<Rightarrow> (Inl e, db) | Inr ps \<Rightarrow> (Inr (), db\<lparr>group_subscribers := ps\<rparr>))"

definition get_all_chain_commit_groups :: "'m MsgDB \<Rightarrow> (nat \<times> string) list" where
  "get_all_chain_commit_groups db = commit_groups db"

definition genesis_ids :: "CanonicalEnvelopeHash \<Rightarrow> 'm MsgDB \<Rightarrow> nat list" where
  "genesis_ids h db = map message_id (filter (\<lambda>r. row_hash r = h \<and> row_height r = 0) (messages db))"

definition get_all_chain_commit_groups_for_chain :: "CanonicalEnvelopeHash \<Rightarrow> 'm MsgDB \<Rightarrow> (nat \<times> string) list" where
  "get_all_chain_commit_groups_for_chain h db =
     concat (map (\<lambda>i. concat (map (\<lambda>(g, m). if m = i then filter (\<lambda>c. fst c = g) (commit_groups db) else [])
       (group_subscribers db))) (genesis_ids h db))"

definition get_all_chain_commit_group_members_for_chain :: "CanonicalEnvelopeHash \<Rightarrow> 'm MsgDB \<Rightarrow> nat list" where
  "get_all_chain_commit_group_members_for_chain h db =
     remdups (map snd (filter (\<lambda>(g, _). list_ex (\<lambda>(g', m). g' = g \<and> m \<in> set (genesis_ids h db)) (group_subscribers db))
       (group_members db)))"

text \<open>The messages of the members of the groups that the chain of a key subscribes to.\<close>

definition groups_this_chain_subscribes_to :: "XOnlyPublicKey \<Rightarrow> 'm MsgDB \<Rightarrow> nat list" where
  "groups_this_chain_subscribes_to key db =
     map fst (filter (\<lambda>(_, m). list_ex (\<lambda>r. message_id r = m \<and> row_height r = 0) (rows_of key db)) (group_subscribers db))"

definition group_rows :: "XOnlyPublicKey \<Rightarrow> 'm MsgDB \<Rightarrow> 'm Row list" where
  "group_rows key db = filter (\<lambda>r. list_ex (\<lambda>(g, m). g \<in> set (groups_this_chain_subscribes_to key db) \<and>
     (m = message_id r \<or> Some m = genesis_id r)) (group_members db)) (messages db)"

definition get_all_chain_commit_group_members_tips_for_chain ::
  "'m Crypto \<Rightarrow> XOnlyPublicKey \<Rightarrow> 'm MsgDB \<Rightarrow> 'm GenericEnvelope Authenticated list" where
  "get_all_chain_commit_group_members_tips_for_chain c key db =
     map (read_body c) (tips_by_user (filter connected (group_rows key db)))"

definition get_all_chain_commit_group_members_new_envelopes_for_chain_into_inconsistent ::
  "'m Crypto \<Rightarrow> XOnlyPublicKey \<Rightarrow> nat \<Rightarrow> 'm GenericEnvelope Authenticated hash_map \<Rightarrow> 'm MsgDB \<Rightarrow>
   nat option \<times> 'm GenericEnvelope Authenticated hash_map" where
  "get_all_chain_commit_group_members_new_envelopes_for_chain_into_inconsistent c key newer m db =
     collect_into c (filter (after (Some newer)) (group_rows key db)) (Some newer) m"

section \<open>Own envelopes\<close>

datatype TipControl = GroupsOnly | NoTips | AllTips

text \<open>\<open>Vec::swap_remove\<close>: the last element takes the place of the removed one.\<close>

definition swap_remove :: "nat \<Rightarrow> 'a list \<Rightarrow> 'a list" where
  "swap_remove i xs = butlast (xs[i := last xs])"

fun position :: "('a \<Rightarrow> bool) \<Rightarrow> 'a list \<Rightarrow> nat option" where
  "position P [] = None"
| "position P (x # xs) = (if P x then Some 0 else map_option Suc (position P xs))"

definition collect_tips ::
  "'m Crypto \<Rightarrow> TipControl \<Rightarrow> XOnlyPublicKey \<Rightarrow> 'm MsgDB \<Rightarrow> (XOnlyPublicKey \<times> int \<times> CanonicalEnvelopeHash) list" where
  "collect_tips c tip_groups key db =
     (let ts = (case tip_groups of
            GroupsOnly \<Rightarrow> get_all_chain_commit_group_members_tips_for_chain c key db
          | AllTips \<Rightarrow> get_tips_for_all_users c db
          | NoTips \<Rightarrow> []);
          ts' = (case position (\<lambda>x. hdr_key (header (inner x)) = key) ts of None \<Rightarrow> ts | Some p \<Rightarrow> swap_remove p ts)
      in map (\<lambda>t. (hdr_key (header (inner t)), height (header (inner t)), canonicalized_hash_ref c (inner t))) ts')"

datatype CreateError = CreateSql SqlError | CreateSigning SigningError | CreateAuthentication AuthenticationError

text \<open>The fresh nonce is stored before the envelope is signed, and stays stored if signing fails.\<close>

definition wrap_message_in_envelope_for_user_by_key ::
  "'m Crypto \<Rightarrow> 'm \<Rightarrow> nat \<Rightarrow> BitcoinCheckPoints option \<Rightarrow> 'm GenericEnvelope option \<Rightarrow> TipControl \<Rightarrow>
   int \<Rightarrow> PrecomittedNonce \<Rightarrow> 'm MsgDB \<Rightarrow> ((CreateError + 'm GenericEnvelope) \<times> 'm MsgDB) option" where
  "wrap_message_in_envelope_for_user_by_key c m keypair tipcache bypass tip_groups now fresh db =
     (let key = public_key c keypair; ts = collect_tips c tip_groups key db in
      case (case bypass of Some e \<Rightarrow> Inr e | None \<Rightarrow> map_sum id inner (get_tip_for_user_by_key c key db)) of
        Inl e \<Rightarrow> Some (Inl (CreateSql e), db)
      | Inr my_tip \<Rightarrow>
          (case get_secret_for_public_nonce (next_nonce (header my_tip)) db of
             Inl e \<Rightarrow> Some (Inl (CreateSql e), db)
           | Inr sec \<Rightarrow>
               (case save_nonce_for_user_by_key c fresh key db of
                  (Inl e, db1) \<Rightarrow> Some (Inl (CreateSql e), db1)
                | (Inr pub, db1) \<Rightarrow> do {
                    h \<leftarrow> add_i64 (height (header my_tip)) 1;
                    let env = new_envelope c \<lparr>hdr_key = key, next_nonce = pub,
                          ancestors = Some \<lparr>prev_msg = canonicalized_hash_ref c my_tip, anc_genesis = get_genesis_hash c my_tip\<rparr>,
                          tips = ts, height = h, sent_time_ms = now, unsigned_part = \<lparr>signature = None\<rparr>,
                          checkpoints = (case tipcache of None \<Rightarrow> default_checkpoints | Some b \<Rightarrow> b)\<rparr> m in
                    case sign_with c keypair sec env of
                      (Inl e, _) \<Rightarrow> Some (Inl (CreateSigning e), db1)
                    | (Inr _, env2) \<Rightarrow> Some (Inr env2, db1)
                  })))"

text \<open>
  The loop of \<open>retry_insert_authenticated_envelope_atomic\<close>; every turn draws a time and a nonce. A list
  that runs out stands for a loop that has not ended.
\<close>

datatype RetryError = Create CreateError | Insert SqliteFail | NotEnded

fun retry_insert_authenticated_envelope_atomic ::
  "'m Crypto \<Rightarrow> 'm \<Rightarrow> nat \<Rightarrow> BitcoinCheckPoints option \<Rightarrow> TipControl \<Rightarrow> (int \<times> PrecomittedNonce) list \<Rightarrow> 'm MsgDB \<Rightarrow>
   ((RetryError + unit) \<times> 'm MsgDB) option" where
  "retry_insert_authenticated_envelope_atomic c m keypair tipcache tip_groups [] db = Some (Inl NotEnded, db)"
| "retry_insert_authenticated_envelope_atomic c m keypair tipcache tip_groups ((now, fresh) # draws) db = do {
     (w, db1) \<leftarrow> wrap_message_in_envelope_for_user_by_key c m keypair tipcache None tip_groups now fresh db;
     case w of
       Inl e \<Rightarrow> Some (Inl (Create e), db1)
     | Inr env \<Rightarrow>
         (case self_authenticate c env of
            Inl e \<Rightarrow> Some (Inl (Create (CreateAuthentication e)), db1)
          | Inr a \<Rightarrow> do {
              (r, db2) \<leftarrow> try_insert_authenticated_envelope c now True a db1;
              case r of
                Inr _ \<Rightarrow> Some (Inr (), db2)
              | Inl SqliteConstraintUnique \<Rightarrow> retry_insert_authenticated_envelope_atomic c m keypair tipcache tip_groups draws db2
              | Inl e \<Rightarrow> Some (Inl (Insert e), db2)
            })
   }"

text \<open>The genesis envelope of a new key, with the nonce of its next envelope.\<close>

definition generate_new_user_keypair ::
  "'m Crypto \<Rightarrow> 'm \<Rightarrow> nat \<Rightarrow> PrecomittedNonce \<Rightarrow> PrecomittedNonce \<Rightarrow> int \<Rightarrow>
   SigningError + nat \<times> PrecomittedNonce \<times> 'm GenericEnvelope" where
  "generate_new_user_keypair c init keypair nonce next now =
     (case sign_with c keypair nonce (new_envelope c
         \<lparr>hdr_key = public_key c keypair, next_nonce = PrecomittedPublicNonce (public_key c (secret next)),
          ancestors = None, tips = [], height = 0, sent_time_ms = now, unsigned_part = \<lparr>signature = None\<rparr>,
          checkpoints = default_checkpoints\<rparr> init) of
        (Inl e, _) \<Rightarrow> Inl e
      | (Inr _, env) \<Rightarrow> Inr (keypair, next, env))"

end
