(* ===== verification/Database_Laws.thy ===== *)
theory Database_Laws
  imports Own_Chain
begin

text \<open>
  What the store guarantees: the invariant of its messages, and that connecting them finds exactly the
  messages whose chain to a genesis message is stored without a gap.
\<close>

section \<open>Chains without gaps\<close>

text \<open>A message as its hash, the hash of its parent and its height.\<close>

definition links :: "'m Row list \<Rightarrow> (CanonicalEnvelopeHash \<times> CanonicalEnvelopeHash \<times> int) set" where
  "links ms = (\<lambda>r. (row_hash r, row_prev r, row_height r)) ` set ms"

inductive rooted :: "(CanonicalEnvelopeHash \<times> CanonicalEnvelopeHash \<times> int) set \<Rightarrow> CanonicalEnvelopeHash \<Rightarrow> bool"
  for l where
  root: "(h, p, 0) \<in> l \<Longrightarrow> rooted l h"
| child: "(h, p, n) \<in> l \<Longrightarrow> rooted l p \<Longrightarrow> rooted l h"

lemma rooted_mono: "rooted l h \<Longrightarrow> l \<subseteq> k \<Longrightarrow> rooted k h"
  by (induction rule: rooted.induct) (auto intro: rooted.intros)

lemma links_mem: "r \<in> set ms \<Longrightarrow> (row_hash r, row_prev r, row_height r) \<in> links ms"
  by (auto simp: links_def)

section \<open>The invariant\<close>

definition db_ok :: "'m MsgDB \<Rightarrow> bool" where
  "db_ok db =
     (distinct (map row_hash (messages db)) \<and> distinct (map message_id (messages db)) \<and>
      (\<forall>r \<in> set (messages db). row_check r \<and> (row_height r = 0 \<longrightarrow> connected r) \<and>
        (connected r \<longrightarrow> rooted (links (messages db)) (row_hash r)) \<and>
        (row_height r \<noteq> 0 \<longrightarrow> find_hash db (row_genesis r) \<noteq> None)))"

lemma db_okD:
  assumes "db_ok db"
  shows "distinct (map row_hash (messages db))" and "distinct (map message_id (messages db))"
    and "r \<in> set (messages db) \<Longrightarrow> row_check r"
    and "r \<in> set (messages db) \<Longrightarrow> row_height r = 0 \<Longrightarrow> connected r"
    and "r \<in> set (messages db) \<Longrightarrow> connected r \<Longrightarrow> rooted (links (messages db)) (row_hash r)"
    and "r \<in> set (messages db) \<Longrightarrow> row_height r \<noteq> 0 \<Longrightarrow> find_hash db (row_genesis r) \<noteq> None"
  using assms by (simp_all add: db_ok_def)

lemma find_hash_Some: "find_hash db h = Some r \<Longrightarrow> r \<in> set (messages db) \<and> row_hash r = h"
  by (auto simp: find_hash_def find_Some_iff)

lemma find_hash_None: "(find_hash db h = None) = (h \<notin> row_hash ` set (messages db))"
  by (auto simp: find_hash_def find_None_iff)

lemma find_hash_mem: "db_ok db \<Longrightarrow> r \<in> set (messages db) \<Longrightarrow> find_hash db (row_hash r) = Some r"
proof -
  assume ok: "db_ok db" and r: "r \<in> set (messages db)"
  then obtain q where q: "find_hash db (row_hash r) = Some q" using find_hash_None by fastforce
  then have "q \<in> set (messages db)" "row_hash q = row_hash r" using find_hash_Some by blast+
  with r db_okD(1) [OF ok] have "q = r" by (auto simp: distinct_map inj_on_def)
  with q show ?thesis by simp
qed

lemma fresh_id_new: "fresh_id is \<notin> set is"
proof
  assume "fresh_id is \<in> set is"
  then have "fresh_id is \<le> Max (insert 0 (set is))" by (intro Max_ge) auto
  then show False by (simp add: fresh_id_def)
qed

section \<open>Inserting\<close>

lemma trigger_fields:
  "map row_hash (message_parents r ms) = map row_hash ms" "map message_id (message_parents r ms) = map message_id ms"
  "q \<in> set (message_parents r ms) \<Longrightarrow> \<exists>q0 \<in> set ms. q = q0 \<or> q = q0\<lparr>prev_msg_id := Some (message_id r)\<rparr>"
  by (auto simp: message_parents_def)

lemma trigger_links: "links (message_parents r ms) = links ms"
  unfolding links_def message_parents_def set_map image_image by (rule image_cong [OF refl]) simp

lemma row_check_trigger:
  assumes "connected q \<longrightarrow> prev_msg_id q \<noteq> None \<or> row_height q = 0"
  shows "row_check (q\<lparr>prev_msg_id := Some i\<rparr>) = row_check q"
  using assms by (cases "ancestors (fst (body q))") (auto simp: row_check_def)

lemma insert_envelope_cases:
  assumes "try_insert_authenticated_envelope_with_txn c now a db = Some (r, db')"
  obtains "db' = db" "r \<noteq> Inr ()"
  | sig u where "r = Inr ()" "envelope_signature (inner a) = Some sig" "find_user db (hdr_key (header (inner a))) = Some u"
    "row_check (new_row c now (inner a) sig (user_id u) db)"
    "find_hash db (canonicalized_hash_ref c (inner a)) = None"
    "db' = db\<lparr>messages := message_parents (new_row c now (inner a) sig (user_id u) db)
       (messages db @ [new_row c now (inner a) sig (user_id u) db])\<rparr>"
proof -
  from assms obtain sig where s: "envelope_signature (inner a) = Some sig"
    by (auto simp: try_insert_authenticated_envelope_with_txn_def bind_SomeD)
  show ?thesis
  proof (cases "find_user db (hdr_key (header (inner a)))")
    case None
    with assms s have "db' = db" "r = Inl SqliteConstraintNotNull"
      by (auto simp: try_insert_authenticated_envelope_with_txn_def)
    then show ?thesis by (intro that(1)) simp_all
  next
    case (Some u)
    let ?r = "new_row c now (inner a) sig (user_id u) db"
    have h: "row_hash ?r = canonicalized_hash_ref c (inner a)" by (simp add: new_row_def Let_def)
    show ?thesis
    proof (cases "row_check ?r \<and> find_hash db (row_hash ?r) = None")
      case True
      with assms s Some h show ?thesis
        by (intro that(2) [of sig u]) (simp_all add: try_insert_authenticated_envelope_with_txn_def Let_def)
    next
      case False
      with assms s Some show ?thesis
        by (intro that(1)) (auto simp: try_insert_authenticated_envelope_with_txn_def Let_def split: if_splits)
    qed
  qed
qed

lemma db_ok_insert:
  assumes ok: "db_ok db" and chk: "row_check (new_row c now e sig uid db)"
    and new: "find_hash db (canonicalized_hash_ref c e) = None"
  shows "db_ok (db\<lparr>messages := message_parents (new_row c now e sig uid db) (messages db @ [new_row c now e sig uid db])\<rparr>)"
proof -
  define r where "r = new_row c now e sig uid db"
  let ?ms = "messages db @ [r]"
  let ?db = "db\<lparr>messages := message_parents r ?ms\<rparr>"
  have h: "row_hash r = canonicalized_hash_ref c e" and i: "message_id r = fresh_id (map message_id (messages db))"
    and par: "connected r = (row_height r = 0 \<or> (case find_hash db (row_prev r) of None \<Rightarrow> False | Some p \<Rightarrow> connected p))"
    and gen: "genesis_id r = map_option message_id (find_hash db (row_genesis r))"
    by (simp_all add: r_def new_row_def Let_def)
  have "row_hash r \<notin> row_hash ` set (messages db)" using new h find_hash_None by metis
  then have d1: "distinct (map row_hash ?ms)" using db_okD(1) [OF ok] by simp
  have d2: "distinct (map message_id ?ms)" using db_okD(2) [OF ok] fresh_id_new [of "map message_id (messages db)"] i by simp
  have sub: "links (messages db) \<subseteq> links ?ms" by (auto simp: links_def)
  have rr: "rooted (links ?ms) (row_hash r)" if "connected r"
  proof (cases "row_height r = 0")
    case True
    then show ?thesis using rooted.root [of "row_hash r" "row_prev r"] by (auto simp: links_def)
  next
    case False
    with that par obtain p where p: "find_hash db (row_prev r) = Some p" "connected p" by (auto split: option.splits)
    then have "rooted (links (messages db)) (row_prev r)" using db_okD(5) [OF ok] find_hash_Some by metis
    then show ?thesis using rooted_mono [OF _ sub] rooted.child [of "row_hash r" "row_prev r" "row_height r"]
      by (auto simp: links_def)
  qed
  have each: "row_check q \<and> (row_height q = 0 \<longrightarrow> connected q) \<and> (connected q \<longrightarrow> rooted (links ?ms) (row_hash q)) \<and>
      (row_height q \<noteq> 0 \<longrightarrow> row_genesis q \<in> row_hash ` set (messages db))" if "q \<in> set ?ms" for q
  proof (cases "q = r")
    case True
    have "row_height r \<noteq> 0 \<longrightarrow> genesis_id r \<noteq> None" using chk unfolding row_check_def r_def [symmetric] by blast
    then have "row_height r \<noteq> 0 \<longrightarrow> find_hash db (row_genesis r) \<noteq> None" using gen by auto
    then have "row_height r \<noteq> 0 \<longrightarrow> row_genesis r \<in> row_hash ` set (messages db)" unfolding find_hash_None by simp
    moreover have "row_check r" using chk by (simp only: r_def)
    moreover have "row_height r = 0 \<longrightarrow> connected r" using par by simp
    ultimately show ?thesis using rr by (simp only: True) simp
  next
    case False
    then have q: "q \<in> set (messages db)" using that by simp
    have "row_height q \<noteq> 0 \<longrightarrow> row_genesis q \<in> row_hash ` set (messages db)"
      using db_okD(6) [OF ok q] by (simp add: find_hash_None)
    moreover have "connected q \<longrightarrow> rooted (links ?ms) (row_hash q)"
      using db_okD(5) [OF ok q] rooted_mono [OF _ sub] by simp
    ultimately show ?thesis using db_okD(3,4) [OF ok q] by simp
  qed
  have "row_check q \<and> (row_height q = 0 \<longrightarrow> connected q) \<and> (connected q \<longrightarrow> rooted (links ?ms) (row_hash q)) \<and>
      (row_height q \<noteq> 0 \<longrightarrow> find_hash ?db (row_genesis q) \<noteq> None)" if q: "q \<in> set (message_parents r ?ms)" for q
  proof -
    obtain q0 where q0: "q0 \<in> set ?ms" "q = q0 \<or> q = q0\<lparr>prev_msg_id := Some (message_id r)\<rparr>"
      using trigger_fields(3) [OF q] by blast
    note e = each [OF q0(1)]
    have "connected q0 \<longrightarrow> prev_msg_id q0 \<noteq> None \<or> row_height q0 = 0" using e by (auto simp: row_check_def)
    from row_check_trigger [OF this] e q0(2) have "row_check q" by auto
    moreover have "row_genesis q = row_genesis q0" "row_height q = row_height q0" "row_hash q = row_hash q0" "connected q = connected q0"
      using q0(2) by auto
    moreover have "row_hash ` set (messages ?db) = row_hash ` set ?ms"
      using arg_cong [OF trigger_fields(1) [of r ?ms], of set] by simp
    ultimately show ?thesis using e by (auto simp: find_hash_None)
  qed
  then show ?thesis using d1 d2 by (simp add: db_ok_def trigger_fields trigger_links r_def [symmetric])
qed

section \<open>Connecting\<close>

lemma children_mem:
  "(u \<in> set (children ms us)) = (\<exists>v \<in> set us. \<exists>m \<in> set ms. row_prev m = upd_hash v \<and> u = child_link v m)"
  by (auto simp: children_def)

lemma connectable_mem: "(u \<in> set (connectable ms)) = (\<exists>m \<in> set ms. \<exists>p \<in> set ms. \<not> connected m \<and> connected p \<and>
    row_hash p = row_prev m \<and> u = parent_link m p)"
  by (auto simp: connectable_def)

text \<open>The recursion ends with a set that is closed, when there is enough fuel for a finite universe.\<close>

lemma grow_closed:
  assumes "finite U" and "\<And>us. set us \<subseteq> U \<Longrightarrow> set (children ms us) \<subseteq> U"
    and "distinct acc" and "set acc \<subseteq> U" and "set fr \<subseteq> set acc"
    and "set (children ms acc) \<subseteq> set acc \<union> set (children ms fr)" and "card U < n + length acc"
  shows "set acc \<subseteq> set (grow n ms fr acc) \<and> set (children ms (grow n ms fr acc)) \<subseteq> set (grow n ms fr acc)"
  using assms
proof (induction n ms fr acc rule: grow.induct)
  case (1 ms fr acc)
  then have "length acc \<le> card U" using card_mono [OF "1.prems"(1,4)] distinct_card [OF "1.prems"(3)] by simp
  with "1.prems"(7) show ?case by simp
next
  case (2 n ms fr acc)
  let ?new = "remdups (filter (\<lambda>u. u \<notin> set acc) (children ms fr))"
  show ?case
  proof (cases "?new = []")
    case True
    then have "filter (\<lambda>u. u \<notin> set acc) (children ms fr) = []" by simp
    then have "set (children ms fr) \<subseteq> set acc" by (auto simp: filter_empty_conv)
    with True "2.prems"(6) show ?thesis by (auto simp: Let_def)
  next
    case False
    have fr: "set fr \<subseteq> U" using "2.prems"(4,5) by blast
    have u: "set (acc @ ?new) \<subseteq> U" using "2.prems"(2) [OF fr] "2.prems"(4) by auto
    have d: "distinct (acc @ ?new)" using "2.prems"(3) by auto
    have "set (children ms (acc @ ?new)) = set (children ms acc) \<union> set (children ms ?new)"
      by (simp add: children_def)
    then have c: "set (children ms (acc @ ?new)) \<subseteq> set (acc @ ?new) \<union> set (children ms ?new)"
      using "2.prems"(6) by auto
    have "0 < length ?new" by (rule iffD2 [OF length_greater_0_conv False])
    then have f: "card U < n + length (acc @ ?new)" using "2.prems"(7) unfolding length_append by linarith
    have s: "set ?new \<subseteq> set (acc @ ?new)" by simp
    have "set acc \<subseteq> set (acc @ ?new)" by simp
    with "2.IH" [OF refl False "2.prems"(1,2) d u s c f] have
      "set acc \<subseteq> set (grow n ms ?new (acc @ ?new)) \<and>
       set (children ms (grow n ms ?new (acc @ ?new))) \<subseteq> set (grow n ms ?new (acc @ ?new))" by blast
    then show ?thesis using False by (simp only: grow.simps Let_def if_False)
  qed
qed

lemma grow_inv:
  assumes "\<And>us. \<forall>u \<in> set us. P u \<Longrightarrow> \<forall>u \<in> set (children ms us). P u"
    and "\<forall>u \<in> set acc. P u" and "\<forall>u \<in> set fr. P u"
  shows "\<forall>u \<in> set (grow n ms fr acc). P u"
  using assms
proof (induction n ms fr acc rule: grow.induct)
  case (2 n ms fr acc)
  let ?new = "remdups (filter (\<lambda>u. u \<notin> set acc) (children ms fr))"
  have n: "\<forall>u \<in> set ?new. P u" using "2.prems"(1) [OF "2.prems"(3)] by auto
  then have a: "\<forall>u \<in> set (acc @ ?new). P u" using "2.prems"(2) by auto
  show ?case
  proof (cases "?new = []")
    case False
    from "2.IH" [OF refl False "2.prems"(1) a n] False show ?thesis by (simp add: Let_def)
  qed (use "2.prems"(2) in \<open>simp add: Let_def\<close>)
qed simp

definition universe :: "'m Row list \<Rightarrow> Updatable set" where
  "universe ms = (\<lambda>(m, p, g). \<lparr>upd_id = message_id m, upd_hash = row_hash m, upd_parent = p, upd_genesis = g\<rparr>) `
     (set ms \<times> message_id ` set ms \<times> ((\<lambda>m. Some (message_id m)) ` set ms \<union> genesis_id ` set ms))"

lemma universe_card: "finite (universe ms)" "card (universe ms) \<le> length ms * (length ms * (2 * length ms))"
proof -
  let ?n = "length ms" and ?g = "(\<lambda>m. Some (message_id m)) ` set ms \<union> genesis_id ` set ms"
  have c: "card (set ms) \<le> ?n" by (rule card_length)
  have "card (f ` set ms) \<le> ?n" for f :: "'a Row \<Rightarrow> 'b" using card_image_le [of "set ms" f] c by simp
  then have i: "card (message_id ` set ms) \<le> ?n" by blast
  have "card ?g \<le> card ((\<lambda>m. Some (message_id m)) ` set ms) + card (genesis_id ` set ms)" by (rule card_Un_le)
  then have g: "card ?g \<le> 2 * ?n"
    using card_image_le [of "set ms" "\<lambda>m. Some (message_id m)"] card_image_le [of "set ms" genesis_id] c by simp
  show "finite (universe ms)" by (simp add: universe_def)
  have "card (universe ms) \<le> card (set ms \<times> message_id ` set ms \<times> ?g)"
    unfolding universe_def by (rule card_image_le) simp
  also have "\<dots> = card (set ms) * (card (message_id ` set ms) * card ?g)" by (simp add: card_cartesian_product)
  also have "\<dots> \<le> ?n * (?n * (2 * ?n))" by (intro mult_le_mono c i g)
  finally show "card (universe ms) \<le> ?n * (?n * (2 * ?n))" .
qed

lemma universe_closed: "set us \<subseteq> universe ms \<Longrightarrow> set (children ms us) \<subseteq> universe ms"
proof
  fix u
  assume us: "set us \<subseteq> universe ms" and "u \<in> set (children ms us)"
  then obtain v m where v: "v \<in> universe ms" and m: "m \<in> set ms" and u: "u = child_link v m"
    by (auto simp: children_mem)
  from v have "upd_id v \<in> message_id ` set ms" "upd_genesis v \<in> (\<lambda>m. Some (message_id m)) ` set ms \<union> genesis_id ` set ms"
    by (auto simp: universe_def)
  with m show "u \<in> universe ms"
    unfolding universe_def u child_link_def by (intro image_eqI [of _ _ "(m, upd_id v, upd_genesis v)"]) simp_all
qed

lemma connectable_universe: "set (connectable ms) \<subseteq> universe ms"
proof
  fix u
  assume "u \<in> set (connectable ms)"
  then obtain m p where m: "m \<in> set ms" "p \<in> set ms" and u: "u = parent_link m p" by (auto simp: connectable_mem)
  then show "u \<in> universe ms" unfolding universe_def u parent_link_def
    by (intro image_eqI [of _ _ "(m, message_id p, if row_height p = 0 then Some (message_id p) else genesis_id p)"]) auto
qed

lemma updatable_closed:
  "set (connectable ms) \<subseteq> set (updatable ms)" "set (children ms (updatable ms)) \<subseteq> set (updatable ms)"
proof -
  let ?s = "remdups (connectable ms)" and ?n = "length ms"
  have e: "updatable ms = grow (Suc (?n * (?n * (2 * ?n)))) ms ?s ?s" by (simp only: updatable_def Let_def)
  have u: "set ?s \<subseteq> universe ms" using connectable_universe by simp
  have "card (universe ms) < Suc (?n * (?n * (2 * ?n))) + length ?s" using universe_card(2) [of ms] by simp
  from grow_closed [OF universe_card(1) universe_closed distinct_remdups u order_refl Un_upper2 this]
  show "set (connectable ms) \<subseteq> set (updatable ms)" "set (children ms (updatable ms)) \<subseteq> set (updatable ms)"
    unfolding e by simp_all
qed

text \<open>Every entry belongs to a stored message whose chain is complete, and has a genesis id.\<close>

definition sound_link :: "'m Row list \<Rightarrow> Updatable \<Rightarrow> bool" where
  "sound_link ms u = (\<exists>m \<in> set ms. upd_id u = message_id m \<and> upd_hash u = row_hash m \<and>
     rooted (links ms) (row_hash m) \<and> upd_genesis u \<noteq> None)"

lemma rooted_step:
  "m \<in> set ms \<Longrightarrow> rooted (links ms) (row_prev m) \<Longrightarrow> rooted (links ms) (row_hash m)"
  using links_mem rooted.child by blast

lemma children_sound: "\<forall>u \<in> set us. sound_link ms u \<Longrightarrow> \<forall>u \<in> set (children ms us). sound_link ms u"
proof
  fix u
  assume us: "\<forall>u \<in> set us. sound_link ms u" and "u \<in> set (children ms us)"
  then obtain v m where v: "v \<in> set us" and m: "m \<in> set ms" "row_prev m = upd_hash v" and u: "u = child_link v m"
    by (auto simp: children_mem)
  from us v have "rooted (links ms) (row_prev m)" "upd_genesis v \<noteq> None" by (auto simp: sound_link_def m(2))
  with m rooted_step [OF m(1)] show "sound_link ms u" by (auto simp: sound_link_def u child_link_def)
qed

lemma connectable_sound:
  assumes ok: "db_ok db"
  shows "\<forall>u \<in> set (connectable (messages db)). sound_link (messages db) u"
proof
  fix u
  assume "u \<in> set (connectable (messages db))"
  then obtain m p where m: "m \<in> set (messages db)" and p: "p \<in> set (messages db)" "connected p"
    and h: "row_hash p = row_prev m" and u: "u = parent_link m p"
    by (auto simp: connectable_mem)
  have "rooted (links (messages db)) (row_prev m)" using db_okD(5) [OF ok p] h by simp
  then have "rooted (links (messages db)) (row_hash m)" by (rule rooted_step [OF m])
  moreover have "row_height p = 0 \<or> genesis_id p \<noteq> None" using db_okD(3) [OF ok p(1)] by (simp add: row_check_def)
  ultimately show "sound_link (messages db) u" using m by (auto simp: sound_link_def u parent_link_def)
qed

lemma updatable_sound: "db_ok db \<Longrightarrow> \<forall>u \<in> set (updatable (messages db)). sound_link (messages db) u"
  unfolding updatable_def Let_def
  by (rule grow_inv) (simp_all add: children_sound connectable_sound)

text \<open>Every message whose chain is complete is connected already or gets an entry.\<close>

lemma rooted_reached:
  assumes ok: "db_ok db"
  shows "rooted (links (messages db)) h \<Longrightarrow> \<exists>m \<in> set (messages db). row_hash m = h \<and>
    (connected m \<or> (\<exists>u \<in> set (updatable (messages db)). upd_id u = message_id m \<and> upd_hash u = h))"
proof (induction rule: rooted.induct)
  case (root h p)
  then obtain m where "m \<in> set (messages db)" "row_hash m = h" "row_height m = 0" by (auto simp: links_def)
  with db_okD(4) [OF ok] show ?case by blast
next
  case (child h p n)
  then obtain m where m: "m \<in> set (messages db)" "row_hash m = h" "row_prev m = p" by (auto simp: links_def)
  from child.IH obtain q where q: "q \<in> set (messages db)" "row_hash q = p"
    and c: "connected q \<or> (\<exists>u \<in> set (updatable (messages db)). upd_id u = message_id q \<and> upd_hash u = p)" by blast
  from c show ?case
  proof
    assume cq: "connected q"
    show ?thesis
    proof (cases "connected m")
      case False
      with m q cq have "parent_link m q \<in> set (connectable (messages db))" by (auto simp: connectable_mem)
      then have "parent_link m q \<in> set (updatable (messages db))" using updatable_closed(1) by blast
      with m show ?thesis by (intro bexI [of _ m]) (auto simp: parent_link_def intro!: bexI [of _ "parent_link m q"])
    qed (use m in blast)
  next
    assume "\<exists>u \<in> set (updatable (messages db)). upd_id u = message_id q \<and> upd_hash u = p"
    then obtain u where u: "u \<in> set (updatable (messages db))" "upd_hash u = p" by blast
    with m have "child_link u m \<in> set (children (messages db) (updatable (messages db)))"
      unfolding children_mem by (intro bexI [of _ u] bexI [of _ m]) simp_all
    then have "child_link u m \<in> set (updatable (messages db))" using updatable_closed(2) by blast
    with m show ?thesis by (intro bexI [of _ m]) (auto simp: child_link_def intro!: bexI [of _ "child_link u m"])
  qed
qed

lemma connect_row_fields:
  "row_hash (connect_row us r) = row_hash r" "message_id (connect_row us r) = message_id r"
  "row_prev (connect_row us r) = row_prev r" "row_height (connect_row us r) = row_height r"
  "row_genesis (connect_row us r) = row_genesis r" "body (connect_row us r) = body r" "row_user (connect_row us r) = row_user r"
  "row_nonce (connect_row us r) = row_nonce r"
  by (simp_all add: connect_row_def split: option.splits)

lemma connect_row_connected:
  "connected (connect_row us r) = (connected r \<or> (\<exists>u \<in> set us. upd_id u = message_id r))"
proof (cases "find (\<lambda>u. upd_id u = message_id r) us")
  case None
  moreover from this have "\<not> (\<exists>u \<in> set us. upd_id u = message_id r)" by (auto simp: find_None_iff)
  ultimately show ?thesis by (simp add: connect_row_def)
next
  case (Some u)
  moreover from this have "\<exists>u \<in> set us. upd_id u = message_id r" by (auto simp: find_Some_iff)
  ultimately show ?thesis by (simp add: connect_row_def)
qed

lemma connect_row_check:
  assumes "row_check r" and "\<forall>u \<in> set us. upd_genesis u \<noteq> None"
  shows "row_check (connect_row us r)"
proof (cases "find (\<lambda>u. upd_id u = message_id r) us")
  case (Some u)
  then have "u \<in> set us" by (auto simp: find_Some_iff)
  then obtain g where "upd_genesis u = Some g" using assms(2) by blast
  moreover have "connect_row us r = r\<lparr>connected := True, prev_msg_id := Some (upd_parent u), genesis_id := upd_genesis u\<rparr>"
    by (simp only: connect_row_def Some option.case)
  ultimately show ?thesis using assms(1) by (simp add: row_check_def cong: option.case_cong)
qed (use assms in \<open>simp add: connect_row_def\<close>)

lemma connect_links: "links (map (connect_row us) ms) = links ms"
  unfolding links_def set_map image_image by (simp add: connect_row_fields)

lemma attach_tips_ok:
  assumes ok: "db_ok db"
  shows "snd (attach_tips db) = db\<lparr>messages := map (connect_row (updatable (messages db))) (messages db)\<rparr>"
    and "\<exists>n. fst (attach_tips db) = Inr n"
proof -
  have "list_all row_check (map (connect_row (updatable (messages db))) (messages db))"
    unfolding list_all_iff
    using connect_row_check [OF db_okD(3) [OF ok]] updatable_sound [OF ok] by (auto simp: sound_link_def)
  then show "snd (attach_tips db) = db\<lparr>messages := map (connect_row (updatable (messages db))) (messages db)\<rparr>"
    and "\<exists>n. fst (attach_tips db) = Inr n"
    by (simp_all add: attach_tips_def Let_def)
qed

lemma connect_rooted:
  assumes ok: "db_ok db" and r: "r \<in> set (messages db)"
  shows "connected (connect_row (updatable (messages db)) r) = rooted (links (messages db)) (row_hash r)"
proof
  assume "connected (connect_row (updatable (messages db)) r)"
  then consider "connected r" | u where "u \<in> set (updatable (messages db))" "upd_id u = message_id r"
    by (auto simp: connect_row_connected)
  then show "rooted (links (messages db)) (row_hash r)"
  proof cases
    case 2
    then obtain m where m: "m \<in> set (messages db)" "message_id m = message_id r" "rooted (links (messages db)) (row_hash m)"
      using updatable_sound [OF ok] by (auto simp: sound_link_def)
    with r db_okD(2) [OF ok] have "m = r" by (auto simp: distinct_map inj_on_def)
    with m show ?thesis by simp
  qed (rule db_okD(5) [OF ok r])
next
  assume "rooted (links (messages db)) (row_hash r)"
  then obtain m where m: "m \<in> set (messages db)" "row_hash m = row_hash r"
    "connected m \<or> (\<exists>u \<in> set (updatable (messages db)). upd_id u = message_id m)"
    using rooted_reached [OF ok] by blast
  with r db_okD(1) [OF ok] have "m = r" by (auto simp: distinct_map inj_on_def)
  with m(3) show "connected (connect_row (updatable (messages db)) r)" by (auto simp: connect_row_connected)
qed

lemma db_ok_attach: "db_ok db \<Longrightarrow> db_ok (snd (attach_tips db))"
proof -
  assume ok: "db_ok db"
  let ?us = "updatable (messages db)"
  let ?db = "db\<lparr>messages := map (connect_row ?us) (messages db)\<rparr>"
  have c: "\<forall>u \<in> set ?us. upd_genesis u \<noteq> None" using updatable_sound [OF ok] by (auto simp: sound_link_def)
  have "row_check (connect_row ?us r) \<and> (row_height r = 0 \<longrightarrow> connected (connect_row ?us r)) \<and>
      (connected (connect_row ?us r) \<longrightarrow> rooted (links (messages db)) (row_hash r)) \<and>
      (row_height r \<noteq> 0 \<longrightarrow> find_hash ?db (row_genesis r) \<noteq> None)" if r: "r \<in> set (messages db)" for r
  proof -
    have "row_height r \<noteq> 0 \<longrightarrow> find_hash ?db (row_genesis r) \<noteq> None"
      using db_okD(6) [OF ok r] by (auto simp: find_hash_None image_image connect_row_fields)
    then show ?thesis
      using connect_row_check [OF db_okD(3) [OF ok r] c] connect_rooted [OF ok r] db_okD(4) [OF ok r]
      by (simp add: connect_row_connected)
  qed
  then have "\<forall>r \<in> set (messages ?db). row_check r \<and> (row_height r = 0 \<longrightarrow> connected r) \<and>
        (connected r \<longrightarrow> rooted (links (messages ?db)) (row_hash r)) \<and>
        (row_height r \<noteq> 0 \<longrightarrow> find_hash ?db (row_genesis r) \<noteq> None)"
    by (auto simp: connect_links connect_row_fields)
  then show "db_ok (snd (attach_tips db))"
    using db_okD(1,2) [OF ok] unfolding attach_tips_ok(1) [OF ok] db_ok_def
    by (simp add: comp_def connect_row_fields)
qed

end
