(* ===== verification/Store_Invariant.thy ===== *)
theory Store_Invariant
  imports Database_Laws
begin

text \<open>
  The stores that a node can have: those that the statements of the library make from the empty one.
  They all satisfy the invariant of the messages, know the user of every message, hold the hash that a
  message has when it is read back, and hold the public nonce of every secret one.
\<close>

text \<open>
  What every authenticated envelope is: its cached hash, which only the library writes, is its hash, and
  its ancestors were checked.
\<close>

definition proper :: "'m Crypto \<Rightarrow> 'm GenericEnvelope Authenticated \<Rightarrow> bool" where
  "proper c a = (cache_ok c (inner a) \<and> check_ancestors (header (inner a)) = Inr ())"

inductive stored :: "'m Crypto \<Rightarrow> 'm MsgDB \<Rightarrow> bool" for c where
  start: "stored c empty_db"
| envelope: "stored c db \<Longrightarrow> proper c a \<Longrightarrow>
    try_insert_authenticated_envelope c now safe a db = Some (r, db') \<Longrightarrow> stored c db'"
| genesis: "stored c db \<Longrightarrow> proper c a \<Longrightarrow>
    insert_user_by_genesis_envelope c now nick a db = Some (rk, db') \<Longrightarrow> stored c db'"
| attach: "stored c db \<Longrightarrow> stored c (snd (attach_tips db))"
| resolve: "stored c db \<Longrightarrow> stored c (resolve_parents db)"
| keypair: "stored c db \<Longrightarrow> stored c (snd (save_keypair pk sk db))"
| nonce: "stored c db \<Longrightarrow> stored c (snd (save_nonce_for_user_by_key c n key db))"
| service: "stored c db \<Longrightarrow> stored c (snd (insert_hidden_service url prt f p t db))"
| upsert: "stored c db \<Longrightarrow> stored c (upsert_hidden_service url prt fo po to db)"
| group: "stored c db \<Longrightarrow> stored c (snd (new_chain_commit_group name rnd db))"
| member: "stored c db \<Longrightarrow> stored c (snd (add_member_to_chain_commit_group g h db))"
| subscriber: "stored c db \<Longrightarrow> stored c (snd (add_subscriber_to_chain_commit_group g h db))"

text \<open>A row as the envelope that it was made from.\<close>

definition row_ok :: "'m Crypto \<Rightarrow> UserRow list \<Rightarrow> 'm Row \<Rightarrow> bool" where
  "row_ok c us r =
     ((\<exists>u \<in> set us. user_id u = row_user r \<and> db_key u = hdr_key (fst (body r))) \<and>
      (\<exists>sig. signature (unsigned_part (fst (body r))) = Some sig \<and> row_nonce r = take 32 sig) \<and>
      canonicalized_hash_ref c (inner (read_body c r)) = row_hash r \<and> check_ancestors (fst (body r)) = Inr ())"

definition users_ok :: "'m Crypto \<Rightarrow> 'm MsgDB \<Rightarrow> bool" where
  "users_ok c db = (distinct (map user_id (db_users db)) \<and> distinct (map db_key (db_users db)) \<and>
     list_all (row_ok c (db_users db)) (messages db))"

definition nonces_ok :: "'m Crypto \<Rightarrow> 'm MsgDB \<Rightarrow> bool" where
  "nonces_ok c db = list_all (\<lambda>n. nonce_public n = PrecomittedPublicNonce (public_key c (secret (nonce_secret n)))) (message_nonces db)"

definition store_ok :: "'m Crypto \<Rightarrow> 'm MsgDB \<Rightarrow> bool" where
  "store_ok c db = (db_ok db \<and> users_ok c db \<and> nonces_ok c db)"

lemma store_okD: "store_ok c db \<Longrightarrow> db_ok db" "store_ok c db \<Longrightarrow> users_ok c db" "store_ok c db \<Longrightarrow> nonces_ok c db"
  by (simp_all add: store_ok_def)

lemma users_okD:
  assumes "users_ok c db"
  shows "distinct (map user_id (db_users db))" "distinct (map db_key (db_users db))"
    and "r \<in> set (messages db) \<Longrightarrow> row_ok c (db_users db) r"
  using assms by (simp_all add: users_ok_def list_all_iff)

section \<open>Statements that change no message\<close>

lemma store_ok_frame:
  assumes "store_ok c db" and "messages db' = messages db" and "db_users db' = db_users db"
    and "message_nonces db' = message_nonces db"
  shows "store_ok c db'"
proof -
  have "find_hash db' = find_hash db" using assms(2) by (simp add: find_hash_def fun_eq_iff)
  with assms show ?thesis by (simp add: store_ok_def db_ok_def users_ok_def nonces_ok_def)
qed

lemma store_ok_other:
  assumes ok: "store_ok c db"
  shows "store_ok c (snd (save_keypair pk sk db))" "store_ok c (snd (insert_hidden_service url prt f p t db))"
    "store_ok c (upsert_hidden_service url prt fo po to db)" "store_ok c (snd (new_chain_commit_group name rnd db))"
    "store_ok c (snd (add_member_to_chain_commit_group g h db))"
    "store_ok c (snd (add_subscriber_to_chain_commit_group g h db))"
  by (rule store_ok_frame [OF ok];
      simp add: save_keypair_def insert_hidden_service_def upsert_hidden_service_def new_chain_commit_group_def Let_def
        add_member_to_chain_commit_group_def add_subscriber_to_chain_commit_group_def split: sum.splits)+

lemma store_ok_nonce: "store_ok c db \<Longrightarrow> store_ok c (snd (save_nonce_for_user_by_key c n key db))"
proof -
  assume ok: "store_ok c db"
  let ?db = "snd (save_nonce_for_user_by_key c n key db)"
  have m: "messages ?db = messages db" "db_users ?db = db_users db"
    by (simp_all add: save_nonce_for_user_by_key_def Let_def)
  then have "find_hash ?db = find_hash db" by (simp add: find_hash_def fun_eq_iff)
  moreover have "nonces_ok c ?db" using store_okD(3) [OF ok] by (simp add: save_nonce_for_user_by_key_def nonces_ok_def Let_def)
  ultimately show ?thesis using ok m by (simp add: store_ok_def db_ok_def users_ok_def)
qed

lemma store_ok_user: "store_ok c db \<Longrightarrow> store_ok c (insert_user nick key db)"
proof -
  assume ok: "store_ok c db"
  show ?thesis
  proof (cases "find_user db key")
    case None
    let ?u = "\<lparr>user_id = fresh_id (map user_id (db_users db)), user_nick = nick, db_key = key\<rparr>"
    let ?db = "db\<lparr>db_users := db_users db @ [?u]\<rparr>"
    have e: "insert_user nick key db = ?db" using None by (simp add: insert_user_def)
    have "key \<notin> db_key ` set (db_users db)" using None by (auto simp: find_user_def find_None_iff)
    then have "users_ok c ?db"
      using store_okD(2) [OF ok] fresh_id_new [of "map user_id (db_users db)"]
      by (auto simp: users_ok_def row_ok_def list_all_iff)
    moreover have "find_hash ?db = find_hash db" by (simp add: find_hash_def fun_eq_iff)
    ultimately show ?thesis using ok unfolding e by (simp add: store_ok_def db_ok_def nonces_ok_def)
  qed (use ok in \<open>simp add: insert_user_def\<close>)
qed

section \<open>Statements that change messages\<close>

lemma row_ok_new:
  assumes "proper c (Authenticated e)" and "envelope_signature e = Some sig" and "find_user db (hdr_key (header e)) = Some u"
  shows "row_ok c (db_users db) (new_row c now e sig (user_id u) db)"
proof -
  have "u \<in> set (db_users db)" "db_key u = hdr_key (header e)" using assms(3) by (auto simp: find_user_def find_Some_iff)
  moreover have "canonicalized_hash_ref c (inner (read_body c (new_row c now e sig (user_id u) db))) = canonicalized_hash_ref c e"
    using cache_ok_hash [of c e] assms(1)
    by (simp add: proper_def read_body_def new_row_def Let_def new_envelope_def canonicalized_hash_ref_def compute_hash_def)
  ultimately show ?thesis using assms(1,2) unfolding row_ok_def
    by (auto simp: proper_def new_row_def Let_def envelope_signature_def)
qed

lemma read_body_frame: "body r = body q \<Longrightarrow> read_body c r = read_body c q"
  by (simp add: read_body_def)

lemma row_ok_frame:
  "body q = body r \<Longrightarrow> row_user q = row_user r \<Longrightarrow> row_nonce q = row_nonce r \<Longrightarrow> row_hash q = row_hash r \<Longrightarrow>
   row_ok c us q = row_ok c us r"
  by (simp add: row_ok_def read_body_frame [of q r])

lemma store_ok_insert:
  assumes ok: "store_ok c db" and h: "proper c a"
    and ins: "try_insert_authenticated_envelope_with_txn c now a db = Some (r, db')"
  shows "store_ok c db'"
  using ins
proof (cases rule: insert_envelope_cases)
  case (2 sig u)
  let ?r = "new_row c now (inner a) sig (user_id u) db"
  have "db_ok db'" unfolding 2(6) using db_ok_insert [OF store_okD(1) [OF ok] 2(4,5)] .
  moreover have "users_ok c db'"
  proof -
    have "row_ok c (db_users db) q" if "q \<in> set (messages db @ [?r])" for q
      using that users_okD(3) [OF store_okD(2) [OF ok]] row_ok_new [of c "inner a", OF _ 2(2,3)] h by auto
    then have "list_all (row_ok c (db_users db)) (message_parents ?r (messages db @ [?r]))"
      unfolding list_all_iff message_parents_def by (auto simp: row_ok_frame [where r = "_ :: 'a Row"] row_ok_def read_body_def)
    then show ?thesis using users_okD(1,2) [OF store_okD(2) [OF ok]] by (simp add: users_ok_def 2(6))
  qed
  moreover have "nonces_ok c db'" using store_okD(3) [OF ok] by (simp add: nonces_ok_def 2(6))
  ultimately show ?thesis by (simp add: store_ok_def)
qed (use ok in simp)

lemma safe_insert_cases:
  assumes "try_insert_authenticated_envelope c now safe a db = Some (r, db')"
  obtains "db' = db" "r = Inl SqliteConstraintUnique" | "try_insert_authenticated_envelope_with_txn c now a db = Some (r, db')"
proof (cases "\<exists>anc. ancestors (header (inner a)) = Some anc \<and> safe \<and> message_exists_children (prev_msg anc) db")
  case True
  with assms have "(r, db') = (Inl SqliteConstraintUnique, db)" by (auto simp: try_insert_authenticated_envelope_def)
  then show ?thesis using that(1) by simp
next
  case False
  then have "try_insert_authenticated_envelope c now safe a db = try_insert_authenticated_envelope_with_txn c now a db"
    by (cases "ancestors (header (inner a))") (auto simp: try_insert_authenticated_envelope_def)
  then show ?thesis using assms that(2) by simp
qed

lemma store_ok_envelope:
  assumes "store_ok c db" and "proper c a" and "try_insert_authenticated_envelope c now safe a db = Some (r, db')"
  shows "store_ok c db'"
  using assms(3)
proof (cases rule: safe_insert_cases)
  case 2
  then show ?thesis by (rule store_ok_insert [OF assms(1,2)])
qed (use assms(1) in simp)

lemma store_ok_genesis:
  assumes ok: "store_ok c db" "proper c a"
    and "insert_user_by_genesis_envelope c now nick a db = Some (rk, db')"
  shows "store_ok c db'"
proof -
  from assms(3) obtain r where
    "try_insert_authenticated_envelope_with_txn c now a (insert_user nick (hdr_key (header (inner a))) db) = Some (r, db')"
    by (auto simp: insert_user_by_genesis_envelope_def Let_def bind_eq_Some_conv)
  then show ?thesis by (rule store_ok_insert [OF store_ok_user [OF ok(1)] ok(2)])
qed

lemma store_ok_attach: "store_ok c db \<Longrightarrow> store_ok c (snd (attach_tips db))"
proof -
  assume ok: "store_ok c db"
  have e: "snd (attach_tips db) = db\<lparr>messages := map (connect_row (updatable (messages db))) (messages db)\<rparr>"
    by (rule attach_tips_ok(1) [OF store_okD(1) [OF ok]])
  have "row_ok c us (connect_row us' r) = row_ok c us r" for us us' and r :: "'a Row"
    by (rule row_ok_frame) (simp_all add: connect_row_fields)
  then have "users_ok c (snd (attach_tips db))" using store_okD(2) [OF ok]
    by (simp add: users_ok_def e list_all_iff)
  then show ?thesis using db_ok_attach [OF store_okD(1) [OF ok]] store_okD(3) [OF ok] e by (simp add: store_ok_def nonces_ok_def)
qed

lemma store_ok_resolve: "store_ok c db \<Longrightarrow> store_ok c (resolve_parents db)"
proof -
  assume ok: "store_ok c db"
  define f where "f r = (if \<not> connected r \<and> prev_msg_id r = None \<and> find_hash db (row_prev r) \<noteq> None
     then r\<lparr>prev_msg_id := map_option message_id (find_hash db (row_prev r))\<rparr> else r)" for r :: "'a Row"
  let ?db = "db\<lparr>messages := map f (messages db)\<rparr>"
  have e: "resolve_parents db = ?db" by (simp add: resolve_parents_def f_def [abs_def])
  have f: "row_hash (f r) = row_hash r" "message_id (f r) = message_id r" "row_prev (f r) = row_prev r"
    "row_height (f r) = row_height r" "row_genesis (f r) = row_genesis r" "body (f r) = body r"
    "row_user (f r) = row_user r" "row_nonce (f r) = row_nonce r" "connected (f r) = connected r" for r
    by (simp_all add: f_def)
  have l: "links (map f ms) = links ms" for ms
    unfolding links_def set_map image_image by (simp add: f)
  have "row_check (f r)" if "row_check r" for r
    using that unfolding f_def by (auto simp: row_check_trigger row_check_def cong: option.case_cong)
  then have "db_ok ?db" using store_okD(1) [OF ok]
    by (auto simp: db_ok_def comp_def f l find_hash_None image_image)
  moreover have "row_ok c us (f r) = row_ok c us r" for us r by (rule row_ok_frame) (simp_all add: f)
  then have "users_ok c ?db" using store_okD(2) [OF ok] by (simp add: users_ok_def list_all_iff)
  ultimately show ?thesis using store_okD(3) [OF ok] e by (simp add: store_ok_def nonces_ok_def)
qed

lemma stored_ok: "stored c db \<Longrightarrow> store_ok c db"
proof (induction rule: stored.induct)
  case start
  show ?case by (simp add: store_ok_def db_ok_def users_ok_def nonces_ok_def empty_db_def)
next
  case (envelope db a now safe r db')
  then show ?case by (blast intro: store_ok_envelope)
next
  case (genesis db a now nick rk db')
  then show ?case by (blast intro: store_ok_genesis)
qed (simp_all add: store_ok_other store_ok_nonce store_ok_attach store_ok_resolve)

end
