(* ===== verification/Store_Props.thy ===== *)
theory Store_Props
  imports Store_Invariant Equivocation_Laws
begin

text \<open>
  What holds of every store: which messages are connected, that a node's own chain does not fork and
  grows, and that reused nonces are found.
\<close>

section \<open>Examples\<close>

text \<open>The genesis message of the key 3 and two messages after it, all signed with the nonce 7.\<close>

definition ex_message :: "string \<Rightarrow> (nat \<times> nat) option \<Rightarrow> int \<Rightarrow> string GenericEnvelope" where
  "ex_message m a h = snd (sign_with toy_crypto 3 (PrecomittedNonce 7) (new_envelope toy_crypto (toy_header\<lparr>ancestors :=
     map_option (\<lambda>(p, g). \<lparr>prev_msg = CanonicalEnvelopeHash p, anc_genesis = CanonicalEnvelopeHash g\<rparr>) a, height := h\<rparr>) m))"

definition ex_g :: "string GenericEnvelope" where "ex_g = ex_message ''g'' None 0"
definition ex_c1 :: "string GenericEnvelope" where "ex_c1 = ex_message ''c1'' (Some (1, 1)) 1"
definition ex_c2 :: "string GenericEnvelope" where "ex_c2 = ex_message ''c-2'' (Some (2, 1)) 2"

definition ex_add :: "string GenericEnvelope \<Rightarrow> string MsgDB \<Rightarrow> string MsgDB" where
  "ex_add e db = (case try_insert_authenticated_envelope toy_crypto 5 False (Authenticated e) db of
     None \<Rightarrow> db | Some (_, db') \<Rightarrow> db')"

text \<open>The store of the key's owner after the genesis message.\<close>

definition ex_keys :: "string MsgDB" where
  "ex_keys = snd (save_nonce_for_user_by_key toy_crypto (PrecomittedNonce 9) (toy_public_key 3)
     (snd (save_keypair (toy_public_key 3) 3 empty_db)))"

definition ex_base :: "string MsgDB" where
  "ex_base = (case insert_user_by_genesis_envelope toy_crypto 5 ''ann'' (Authenticated ex_g) ex_keys of
     None \<Rightarrow> empty_db | Some (_, db) \<Rightarrow> db)"

lemma ex_message_proper: "a = None \<and> h = 0 \<or> a \<noteq> None \<and> 0 < h \<Longrightarrow> proper toy_crypto (Authenticated (ex_message m a h))"
  unfolding proper_def Authenticated.sel ex_message_def
  by (rule conjI, rule cache_ok_sign)
    (auto simp: sign_with_result Let_def new_envelope_def check_ancestors_def toy_header_def)

lemma ex_proper: "proper toy_crypto (Authenticated ex_g)" "proper toy_crypto (Authenticated ex_c1)"
  "proper toy_crypto (Authenticated ex_c2)"
  by (simp_all add: ex_g_def ex_c1_def ex_c2_def ex_message_proper)

lemma ex_keys_stored: "stored toy_crypto ex_keys"
  unfolding ex_keys_def by (rule stored.nonce [OF stored.keypair [OF stored.start]])

lemma ex_genesis: "insert_user_by_genesis_envelope toy_crypto 5 ''ann'' (Authenticated ex_g) ex_keys = Some (Inr (toy_public_key 3), ex_base)"
  by code_simp

lemma ex_base_stored: "stored toy_crypto ex_base"
  by (rule stored.genesis [OF ex_keys_stored ex_proper(1) ex_genesis])

lemma ex_add_stored: "stored toy_crypto db \<Longrightarrow> proper toy_crypto (Authenticated e) \<Longrightarrow> stored toy_crypto (ex_add e db)"
  by (cases "try_insert_authenticated_envelope toy_crypto 5 False (Authenticated e) db")
    (auto simp: ex_add_def intro: stored.envelope)

text \<open>Both messages, in both orders.\<close>

definition ex_db1 :: "string MsgDB" where "ex_db1 = ex_add ex_c2 (ex_add ex_c1 ex_base)"
definition ex_db2 :: "string MsgDB" where "ex_db2 = ex_add ex_c1 (ex_add ex_c2 ex_base)"

lemma ex_db_stored: "stored toy_crypto ex_db1" "stored toy_crypto ex_db2"
  by (simp_all add: ex_db1_def ex_db2_def ex_add_stored ex_base_stored ex_proper)

lemma ex_db_links: "links (messages ex_db1) = links (messages ex_db2)"
  by code_simp

section \<open>Connected messages\<close>

lemma rooted_stored: "rooted (links ms) h \<Longrightarrow> h \<in> row_hash ` set ms"
  by (erule rooted.cases) (auto simp: links_def)

lemma attached_hashes:
  assumes "stored c db"
  shows "row_hash ` set (filter connected (messages (snd (attach_tips db)))) = Collect (rooted (links (messages db)))"
proof -
  have ok: "db_ok db" by (rule store_okD(1) [OF stored_ok [OF assms]])
  have "row_hash ` set (filter connected (messages (snd (attach_tips db)))) =
      row_hash ` {r \<in> set (messages db). connected (connect_row (updatable (messages db)) r)}"
    unfolding attach_tips_ok(1) [OF ok] by (auto simp: filter_map image_image connect_row_fields comp_def)
  also have "\<dots> = row_hash ` {r \<in> set (messages db). rooted (links (messages db)) (row_hash r)}"
    using connect_rooted [OF ok] by (intro arg_cong [where f = "(`) row_hash"]) auto
  also have "\<dots> = Collect (rooted (links (messages db)))" using rooted_stored by fastforce
  finally show ?thesis .
qed

text \<open>C24: The order in which messages arrive does not matter for what is connected. In every store
  that a node can have, connecting the tips does not fail, and afterwards the connected messages are
  exactly those from which parents lead to a stored genesis message; so two stores that hold the same
  messages, received and connected in any order, agree on them.\<close>

theorem arrival_order_is_irrelevant:
  assumes "stored c db1" and "stored c db2" and "links (messages db1) = links (messages db2)"
  shows "(\<exists>n. fst (attach_tips db1) = Inr n) \<and>
    row_hash ` set (filter connected (messages (snd (attach_tips db1)))) = Collect (rooted (links (messages db1))) \<and>
    row_hash ` set (filter connected (messages (snd (attach_tips db2)))) =
      row_hash ` set (filter connected (messages (snd (attach_tips db1))))"
  using attached_hashes [OF assms(1)] attached_hashes [OF assms(2)] assms(3)
    attach_tips_ok(2) [OF store_okD(1) [OF stored_ok [OF assms(1)]]] by simp

theorem arrival_order_is_irrelevant_witness:
  "row_hash ` set (filter connected (messages (snd (attach_tips ex_db2)))) =
     row_hash ` set (filter connected (messages (snd (attach_tips ex_db1)))) \<and> row_hash ` set (filter connected (messages ex_db2)) \<noteq>
     row_hash ` set (filter connected (messages ex_db1))"
proof -
  have "row_hash ` set (filter connected (messages ex_db2)) \<noteq> row_hash ` set (filter connected (messages ex_db1))" by code_simp
  then show ?thesis using arrival_order_is_irrelevant [OF ex_db_stored ex_db_links] by blast
qed

section \<open>A node's own chain\<close>

lemma save_nonce_fields [simp]:
  "messages (snd (save_nonce_for_user_by_key c n key db)) = messages db"
  "db_users (snd (save_nonce_for_user_by_key c n key db)) = db_users db"
  by (simp_all add: save_nonce_for_user_by_key_def Let_def)

definition unsigned_child ::
  "'m Crypto \<Rightarrow> 'm \<Rightarrow> nat \<Rightarrow> BitcoinCheckPoints option \<Rightarrow> TipControl \<Rightarrow> int \<Rightarrow> PrecomittedNonce \<Rightarrow> int \<Rightarrow>
   'm GenericEnvelope \<Rightarrow> 'm MsgDB \<Rightarrow> 'm GenericEnvelope" where
  "unsigned_child c m keypair tipcache tip_groups now fresh h tip db = new_envelope c
     \<lparr>hdr_key = public_key c keypair, next_nonce = PrecomittedPublicNonce (public_key c (secret fresh)),
      ancestors = Some \<lparr>prev_msg = canonicalized_hash_ref c tip, anc_genesis = get_genesis_hash c tip\<rparr>,
      tips = collect_tips c tip_groups (public_key c keypair) db, height = h, sent_time_ms = now,
      unsigned_part = \<lparr>signature = None\<rparr>, checkpoints = (case tipcache of None \<Rightarrow> default_checkpoints | Some b \<Rightarrow> b)\<rparr> m"

lemma save_nonce_Inr: "save_nonce_for_user_by_key c n key db = (Inr pub, db') \<Longrightarrow>
    pub = PrecomittedPublicNonce (public_key c (secret n)) \<and> db' = snd (save_nonce_for_user_by_key c n key db)"
  by (auto simp: save_nonce_for_user_by_key_def Let_def split: if_splits)

lemma wrap_effect:
  assumes "wrap_message_in_envelope_for_user_by_key c m keypair tipcache None tip_groups now fresh db = Some (w, db1)"
  shows "db1 = db \<or> db1 = snd (save_nonce_for_user_by_key c fresh (public_key c keypair) db)"
    and "w = Inr env \<Longrightarrow> \<exists>tip sec h. get_tip_for_user_by_key c (public_key c keypair) db = Inr (Authenticated tip) \<and>
      get_secret_for_public_nonce (next_nonce (header tip)) db = Inr sec \<and> add_i64 (height (header tip)) 1 = Some h \<and>
      env = snd (sign_with c keypair sec (unsigned_child c m keypair tipcache tip_groups now fresh h tip db))"
proof -
  let ?save = "save_nonce_for_user_by_key c fresh (public_key c keypair) db"
  have "(db1 = db \<or> db1 = snd ?save) \<and> (w = Inr env \<longrightarrow> (\<exists>tip sec h.
      get_tip_for_user_by_key c (public_key c keypair) db = Inr (Authenticated tip) \<and>
      get_secret_for_public_nonce (next_nonce (header tip)) db = Inr sec \<and> add_i64 (height (header tip)) 1 = Some h \<and>
      env = snd (sign_with c keypair sec (unsigned_child c m keypair tipcache tip_groups now fresh h tip db))))"
  proof (cases "get_tip_for_user_by_key c (public_key c keypair) db")
    case (Inr a)
    obtain tip where a: "a = Authenticated tip" by (cases a)
    show ?thesis
    proof (cases "get_secret_for_public_nonce (next_nonce (header tip)) db")
      case s: (Inr sec)
      obtain r db2 where sv: "?save = (r, db2)" by (cases ?save)
      show ?thesis
      proof (cases r)
        case (Inl e)
        with assms Inr a s sv have "w = Inl (CreateSql e)" "db1 = db2"
          by (auto simp: wrap_message_in_envelope_for_user_by_key_def Let_def)
        with sv show ?thesis by simp
      next
        case p: (Inr pub)
        then have pub: "pub = PrecomittedPublicNonce (public_key c (secret fresh))" using save_nonce_Inr sv by blast
        from assms Inr a s sv p obtain h where h: "add_i64 (height (header tip)) 1 = Some h"
          by (auto simp: wrap_message_in_envelope_for_user_by_key_def Let_def bind_eq_Some_conv)
        obtain sr env2 where sg: "sign_with c keypair sec (unsigned_child c m keypair tipcache tip_groups now fresh h tip db)
            = (sr, env2)" by fastforce
        with assms Inr a s sv p h have "db1 = db2" "w = Inr env \<longrightarrow> env = env2"
          by (auto simp: wrap_message_in_envelope_for_user_by_key_def Let_def unsigned_child_def pub split: sum.splits)
        with Inr a s h sg sv show ?thesis by (metis prod.sel(2))
      qed
    qed (use assms Inr a in \<open>auto simp: wrap_message_in_envelope_for_user_by_key_def Let_def\<close>)
  qed (use assms in \<open>auto simp: wrap_message_in_envelope_for_user_by_key_def Let_def\<close>)
  then show "db1 = db \<or> db1 = snd ?save" and "w = Inr env \<Longrightarrow> \<exists>tip sec h.
      get_tip_for_user_by_key c (public_key c keypair) db = Inr (Authenticated tip) \<and>
      get_secret_for_public_nonce (next_nonce (header tip)) db = Inr sec \<and> add_i64 (height (header tip)) 1 = Some h \<and>
      env = snd (sign_with c keypair sec (unsigned_child c m keypair tipcache tip_groups now fresh h tip db))"
    by blast+
qed

text \<open>What storing a nonce and storing an own envelope keep, publishing a message keeps.\<close>

lemma retry_keeps:
  assumes "\<And>db n. P db \<Longrightarrow> P (snd (save_nonce_for_user_by_key c n (public_key c keypair) db))"
    and "\<And>db a now r db'. P db \<Longrightarrow> proper c a \<Longrightarrow> ancestors (header (inner a)) \<noteq> None \<Longrightarrow>
      hdr_key (header (inner a)) = public_key c keypair \<Longrightarrow>
      try_insert_authenticated_envelope c now True a db = Some (r, db') \<Longrightarrow> P db'"
    and "retry_insert_authenticated_envelope_atomic c m keypair tipcache tip_groups draws db = Some (res, db')" and "P db"
  shows "P db'"
  using assms
proof (induction c m keypair tipcache tip_groups draws db rule: retry_insert_authenticated_envelope_atomic.induct)
  case (2 c m keypair tipcache tip_groups now fresh draws db)
  from "2.prems"(3) obtain w db1 where w:
    "wrap_message_in_envelope_for_user_by_key c m keypair tipcache None tip_groups now fresh db = Some (w, db1)"
    by (auto simp: bind_eq_Some_conv)
  have p1: "P db1" using wrap_effect(1) [OF w] "2.prems"(1,4) by auto
  show ?case
  proof (cases w)
    case (Inl e)
    with "2.prems"(3) w p1 show ?thesis by simp
  next
    case e: (Inr env)
    obtain tip sec h where env:
      "env = snd (sign_with c keypair sec (unsigned_child c m keypair tipcache tip_groups now fresh h tip db))"
      using wrap_effect(2) [OF w e] by blast
    have k: "hdr_key (header env) = public_key c keypair" "ancestors (header env) \<noteq> None" "cache_ok c env"
      unfolding env by (simp_all add: cache_ok_sign) (simp_all add: sign_with_result Let_def unsigned_child_def new_envelope_def)
    have ch: "proper c (Authenticated env)" if "self_authenticate c env = Inr a" for a
      using that k by (simp add: proper_def self_authenticate_Inr)
    show ?thesis
    proof (cases "self_authenticate c env")
      case (Inl er)
      with "2.prems"(3) w e p1 show ?thesis by simp
    next
      case a: (Inr a)
      then have ae: "a = Authenticated env" by (simp add: self_authenticate_Inr)
      from "2.prems"(3) w e a obtain r db2 where t: "try_insert_authenticated_envelope c now True a db1 = Some (r, db2)"
        by (auto simp: bind_eq_Some_conv)
      have p2: "P db2" by (rule "2.prems"(2) [OF p1 _ _ _ t]) (use ch [OF a] in \<open>simp_all add: k ae\<close>)
      show ?thesis
      proof (cases r)
        case (Inr x)
        with "2.prems"(3) w e a t p2 show ?thesis by simp
      next
        case (Inl f)
        show ?thesis
        proof (cases f)
          case SqliteConstraintUnique
          with "2.prems"(3) w e a t Inl have
            "retry_insert_authenticated_envelope_atomic c m keypair tipcache tip_groups draws db2 = Some (res, db')" by simp
          with "2.IH" [OF w refl e a t refl Inl SqliteConstraintUnique] "2.prems"(1,2) p2 show ?thesis by blast
        qed (use "2.prems"(3) w e a t Inl p2 in simp_all)
      qed
    qed
  qed
qed simp

lemma stored_retry:
  "retry_insert_authenticated_envelope_atomic c m keypair tipcache tip_groups draws db = Some (res, db') \<Longrightarrow>
   stored c db \<Longrightarrow> stored c db'"
  by (rule retry_keeps [where P = "stored c"]) (auto intro: stored.intros)






lemma insert_user_messages [simp]: "messages (insert_user nick key db) = messages db"
  by (simp add: insert_user_def)









section \<open>Growth\<close>

lemma highest_mem: "highest rs = Some r \<Longrightarrow> r \<in> set rs \<and> (\<forall>q \<in> set rs. row_height q \<le> row_height r)"
proof (cases rs)
  case (Cons x xs)
  assume "highest rs = Some r"
  with Cons have "find (\<lambda>r. row_height r = Max (row_height ` set rs)) rs = Some r" by (simp add: highest_def)
  then have "r \<in> set rs" "row_height r = Max (row_height ` set rs)" by (auto simp: find_Some_iff)
  then show ?thesis by simp
qed (simp add: highest_def)

lemma highest_snoc:
  assumes "\<forall>r \<in> set rs. row_height r < row_height x"
  shows "highest (rs @ [x]) = Some x"
proof -
  have m: "Max (row_height ` set (rs @ [x])) = row_height x"
    using assms by (intro Max_eqI) (auto intro: less_imp_le)
  have "find (\<lambda>r. row_height r = row_height x) (rs @ [x]) = Some x" using assms by (induction rs) auto
  then have "find (\<lambda>r. row_height r = Max (row_height ` set (rs @ [x]))) (rs @ [x]) = Some x" unfolding m .
  then show ?thesis by (cases rs) (simp_all add: highest_def)
qed

lemma tip_row:
  assumes "store_ok c db" and "get_tip_for_user_by_key c key db = Inr (Authenticated tip)"
  obtains p u where "find_user db key = Some u" "p \<in> set (messages db)" "connected p" "row_user p = user_id u"
    "body p = (header tip, msg tip)" "row_hash p = canonicalized_hash_ref c tip" "row_height p = height (header tip)"
    "\<forall>q \<in> set (filter connected (rows_of key db)). row_height q \<le> height (header tip)"
proof -
  from assms(2) obtain p where p: "highest (filter connected (rows_of key db)) = Some p" "read_body c p = Authenticated tip"
    by (auto simp: get_tip_for_user_by_key_def split: option.splits)
  note hp = highest_mem [OF p(1)]
  obtain u where u: "find_user db key = Some u" using hp by (cases "find_user db key") (auto simp: rows_of_def)
  then have m: "p \<in> set (messages db)" "row_user p = user_id u" "connected p" using hp by (auto simp: rows_of_def)
  have b: "body p = (header tip, msg tip)" using p(2) by (cases "body p") (auto simp: read_body_def new_envelope_def Let_def)
  have "row_hash p = canonicalized_hash_ref c tip"
    using users_okD(3) [OF store_okD(2) [OF assms(1)] m(1)] p(2) by (simp add: row_ok_def)
  moreover have "row_height p = height (header tip)"
    using db_okD(3) [OF store_okD(1) [OF assms(1)] m(1)] b by (simp add: row_check_def)
  ultimately show ?thesis using that [OF u m(1,3,2) b] hp by simp
qed

lemma genesis_stored:
  assumes ok: "store_ok c db" and p: "p \<in> set (messages db)" "body p = (header tip, msg tip)"
    and h: "row_hash p = canonicalized_hash_ref c tip"
  shows "find_hash db (get_genesis_hash c tip) \<noteq> None"
proof (cases "ancestors (header tip)")
  case None
  then show ?thesis using find_hash_mem [OF store_okD(1) [OF ok] p(1)] h by (simp add: get_genesis_hash_def)
next
  case (Some a)
  have "check_ancestors (header tip) = Inr ()" using users_okD(3) [OF store_okD(2) [OF ok] p(1)] p(2) by (simp add: row_ok_def)
  with Some have "height (header tip) \<noteq> 0" by (auto simp: check_ancestors_def)
  moreover have "row_check p" by (rule db_okD(3) [OF store_okD(1) [OF ok] p(1)])
  ultimately have "row_height p \<noteq> 0" "row_genesis p = anc_genesis a" using Some p(2) by (auto simp: row_check_def)
  with db_okD(6) [OF store_okD(1) [OF ok] p(1)] Some show ?thesis by (simp add: get_genesis_hash_def)
qed

lemma sign_fields:
  "header (snd (sign_with c sk n e)) = (header e)\<lparr>unsigned_part := \<lparr>signature = envelope_signature (snd (sign_with c sk n e))\<rparr>\<rparr>"
  "msg (snd (sign_with c sk n e)) = msg e" "envelope_signature (snd (sign_with c sk n e)) \<noteq> None"
  by (simp_all add: sign_with_result Let_def) (simp add: set_signature_def envelope_signature_def)

lemma read_signed:
  "body r = (header (snd (sign_with c sk n e)), msg (snd (sign_with c sk n e))) \<Longrightarrow>
   read_body c r = Authenticated (snd (sign_with c sk n (e :: 'm GenericEnvelope)))"
  by (simp add: read_body_def new_envelope_def Let_def canonicalized_hash_ref_def compute_hash_def sign_with_result)

text \<open>What the next envelope of a chain is, and that the store takes it.\<close>

lemma child_taken:
  assumes ok: "store_ok c db" and tip: "get_tip_for_user_by_key c (public_key c keypair) db = Inr (Authenticated tip)"
    and env: "env = snd (sign_with c keypair sec (unsigned_child c m keypair tipcache tip_groups now fresh (height (header tip) + 1) tip db0))"
    and nochild: "\<not> message_exists_children (canonicalized_hash_ref c tip) db"
    and new: "find_hash db (canonicalized_hash_ref c env) = None"
  shows "\<exists>db'. try_insert_authenticated_envelope c now True (Authenticated env) db = Some (Inr (), db') \<and>
    get_tip_for_user_by_key c (public_key c keypair) db' = Inr (Authenticated env)"
proof -
  let ?k = "public_key c keypair" and ?h = "canonicalized_hash_ref c tip"
  obtain p u where u: "find_user db ?k = Some u" and p: "p \<in> set (messages db)" "connected p" "row_user p = user_id u"
    and b: "body p = (header tip, msg tip)" and ph: "row_hash p = ?h" "row_height p = height (header tip)"
    and top: "\<forall>q \<in> set (filter connected (rows_of ?k db)). row_height q \<le> height (header tip)"
    by (rule tip_row [OF ok tip])
  have fp: "find_hash db ?h = Some p" using find_hash_mem [OF store_okD(1) [OF ok] p(1)] ph by simp
  have pos: "0 \<le> height (header tip)" using db_okD(3) [OF store_okD(1) [OF ok] p(1)] ph by (auto simp: row_check_def)
  obtain sig where sig: "envelope_signature env = Some sig" using sign_fields(3) env by blast
  have hd: "header env = \<lparr>hdr_key = ?k, next_nonce = PrecomittedPublicNonce (public_key c (secret fresh)),
      ancestors = Some \<lparr>prev_msg = ?h, anc_genesis = get_genesis_hash c tip\<rparr>,
      tips = collect_tips c tip_groups ?k db0, height = height (header tip) + 1, sent_time_ms = now,
      unsigned_part = \<lparr>signature = Some sig\<rparr>, checkpoints = (case tipcache of None \<Rightarrow> default_checkpoints | Some b \<Rightarrow> b)\<rparr>"
    using sig unfolding env by (subst sign_fields(1)) (simp add: unsigned_child_def new_envelope_def Let_def)
  let ?r = "new_row c now env sig (user_id u) db"
  have chk: "row_check ?r"
    using pos genesis_stored [OF ok p(1) b ph(1)] fp p(2)
    by (auto simp: row_check_def new_row_def Let_def hd get_genesis_hash_def)
  have con: "connected ?r" "row_height ?r = height (header tip) + 1" "row_user ?r = user_id u" "body ?r = (header env, msg env)"
    using fp p(2) by (simp_all add: new_row_def Let_def hd)
  have rh: "row_hash ?r = canonicalized_hash_ref c env" by (simp add: new_row_def Let_def)
  let ?db = "db\<lparr>messages := message_parents ?r (messages db @ [?r])\<rparr>"
  have ins: "try_insert_authenticated_envelope c now True (Authenticated env) db = Some (Inr (), ?db)"
    using nochild sig u chk new
    by (simp add: try_insert_authenticated_envelope_def try_insert_authenticated_envelope_with_txn_def hd Let_def rh)
  let ?f = "\<lambda>q. if row_prev q = row_hash ?r then q\<lparr>prev_msg_id := Some (message_id ?r)\<rparr> else q"
  have rows: "filter connected (rows_of ?k ?db) = map ?f (filter connected (rows_of ?k db)) @ [?f ?r]"
  proof -
    have fu: "find_user ?db ?k = Some u" using u by (simp add: find_user_def)
    have c: "connected (?f q) = connected q" "row_user (?f q) = row_user q" for q by simp_all
    have m: "messages ?db = map ?f (messages db) @ [?f ?r]" by (simp add: message_parents_def)
    show ?thesis unfolding rows_of_def fu u option.case m filter_append filter_map comp_def c filter_filter
      by (simp add: filter_map comp_def con(1,3) c)
  qed
  have "\<forall>q \<in> set (map ?f (filter connected (rows_of ?k db))). row_height q < row_height (?f ?r)"
    using top con(2) by auto
  from highest_snoc [OF this] have "highest (filter connected (rows_of ?k ?db)) = Some (?f ?r)" unfolding rows .
  moreover have "body (?f ?r) = (header env, msg env)" by (simp add: con(4))
  then have "read_body c (?f ?r) = Authenticated env" unfolding env by (rule read_signed)
  ultimately have "get_tip_for_user_by_key c ?k ?db = Inr (Authenticated env)" by (simp add: get_tip_for_user_by_key_def)
  with ins show ?thesis by blast
qed

lemma tip_frame:
  "messages db' = messages db \<Longrightarrow> db_users db' = db_users db \<Longrightarrow>
   get_tip_for_user_by_key c key db' = get_tip_for_user_by_key c key db"
  by (simp add: get_tip_for_user_by_key_def rows_of_def find_user_def cong: option.case_cong)

text \<open>C26: A node's own chain grows. When the tip of its key has no stored child, the secret of the
  nonce that the tip commits to is stored, and the fresh nonce is new, publishing a message succeeds at
  the first try: the envelope has the tip as its parent and the next height, commits to the fresh nonce,
  is signed with the nonce that the tip commits to, authenticates, and is the new tip. (A hash that a
  stored message has already is excluded.)\<close>

theorem own_chain_grows:
  assumes "crypto_ok c" and "stored c db"
    and "get_tip_for_user_by_key c (public_key c keypair) db = Inr (Authenticated tip)"
    and "\<not> message_exists_children (canonicalized_hash_ref c tip) db"
    and "get_secret_for_public_nonce (next_nonce (header tip)) db = Inr sec"
    and "save_nonce_for_user_by_key c fresh (public_key c keypair) db = (Inr pub, db1)"
    and "height (header tip) < 2 ^ 63 - 1"
    and "env = snd (sign_with c keypair sec (unsigned_child c m keypair tipcache tip_groups now fresh (height (header tip) + 1) tip db))"
    and "find_hash db (canonicalized_hash_ref c env) = None"
  shows "self_authenticate c env = Inr (Authenticated env) \<and>
    extract_used_nonce c env = Some (next_nonce (header tip)) \<and> next_nonce (header env) = pub \<and>
    (\<exists>db'. retry_insert_authenticated_envelope_atomic c m keypair tipcache tip_groups ((now, fresh) # draws) db = Some (Inr (), db') \<and>
       get_tip_for_user_by_key c (public_key c keypair) db' = Inr (Authenticated env))"
proof -
  let ?k = "public_key c keypair"
    and ?u = "unsigned_child c m keypair tipcache tip_groups now fresh (height (header tip) + 1) tip db"
  have pub: "pub = PrecomittedPublicNonce (public_key c (secret fresh))" "db1 = snd (save_nonce_for_user_by_key c fresh ?k db)"
    using save_nonce_Inr [OF assms(6)] by simp_all
  have ok: "store_ok c db" by (rule stored_ok [OF assms(2)])
  have ok1: "store_ok c db1" unfolding pub(2) by (rule store_ok_nonce [OF ok])
  have same: "messages db1 = messages db" "db_users db1 = db_users db" by (simp_all add: pub(2))
  have pos: "0 \<le> height (header tip)"
    by (rule tip_row [OF ok assms(3)]) (use db_okD(3) [OF store_okD(1) [OF ok]] in \<open>fastforce simp: row_check_def\<close>)
  have h: "add_i64 (height (header tip)) 1 = Some (height (header tip) + 1)"
    using pos assms(7) by (simp add: add_i64_def)
  have w: "wrap_message_in_envelope_for_user_by_key c m keypair tipcache None tip_groups now fresh db = Some (Inr env, db1)"
    using assms(3,5,6,8) h pub(1)
    by (simp add: wrap_message_in_envelope_for_user_by_key_def Let_def unsigned_child_def sign_with_result)
  have a: "self_authenticate c env = Inr (Authenticated env)" unfolding assms(8)
    by (rule authenticate_signed [OF assms(1)]) (use pos in \<open>simp_all add: unsigned_child_def new_envelope_def check_ancestors_def\<close>)
  have "list_all (\<lambda>n. nonce_public n = PrecomittedPublicNonce (public_key c (secret (nonce_secret n)))) (message_nonces db)"
    using store_okD(3) [OF ok] by (simp add: nonces_ok_def)
  then have "next_nonce (header tip) = PrecomittedPublicNonce (public_key c (secret sec))"
    using assms(5) by (auto simp: get_secret_for_public_nonce_def find_Some_iff list_all_iff split: option.splits)
  then have n: "extract_used_nonce c env = Some (next_nonce (header tip))"
    unfolding assms(8) using used_nonce_signed [OF assms(1)] by simp
  have nn: "next_nonce (header env) = pub" unfolding assms(8)
    by (subst sign_fields(1)) (simp add: unsigned_child_def new_envelope_def pub(1))
  have "get_tip_for_user_by_key c ?k db1 = Inr (Authenticated tip)" using tip_frame [OF same] assms(3) by simp
  from child_taken [OF ok1 this assms(8)] assms(4,9) same obtain db' where
    t: "try_insert_authenticated_envelope c now True (Authenticated env) db1 = Some (Inr (), db')"
    "get_tip_for_user_by_key c ?k db' = Inr (Authenticated env)"
    by (auto simp: message_exists_children_def find_hash_def)
  have "retry_insert_authenticated_envelope_atomic c m keypair tipcache tip_groups ((now, fresh) # draws) db = Some (Inr (), db')"
    by (simp add: w a t(1))
  with a n nn t(2) show ?thesis by blast
qed

text \<open>The owner of the key 3 publishes a message after his genesis.\<close>

definition ex_post :: "string GenericEnvelope" where
  "ex_post = snd (sign_with toy_crypto 3 (PrecomittedNonce 9)
     (unsigned_child toy_crypto ''hello'' 3 None AllTips 6 (PrecomittedNonce 11) 1 ex_g ex_base))"

theorem own_chain_grows_witness:
  "\<exists>db'. retry_insert_authenticated_envelope_atomic toy_crypto ''hello'' 3 None AllTips [(6, PrecomittedNonce 11)] ex_base =
      Some (Inr (), db') \<and> get_tip_for_user_by_key toy_crypto (toy_public_key 3) db' = Inr (Authenticated ex_post)"
proof -
  have k: "public_key toy_crypto 3 = toy_public_key 3" by code_simp
  have "get_tip_for_user_by_key toy_crypto (toy_public_key 3) ex_base = Inr (Authenticated ex_g)" by code_simp
  moreover have "\<not> message_exists_children (canonicalized_hash_ref toy_crypto ex_g) ex_base" by code_simp
  moreover have "get_secret_for_public_nonce (next_nonce (header ex_g)) ex_base = Inr (PrecomittedNonce 9)" by code_simp
  moreover have "save_nonce_for_user_by_key toy_crypto (PrecomittedNonce 11) (toy_public_key 3) ex_base =
    (Inr (PrecomittedPublicNonce (toy_public_key 11)),
      snd (save_nonce_for_user_by_key toy_crypto (PrecomittedNonce 11) (toy_public_key 3) ex_base))" by code_simp
  moreover have h: "height (header ex_g) = 0" by code_simp
  moreover have "find_hash ex_base (canonicalized_hash_ref toy_crypto ex_post) = None" by code_simp
  ultimately show ?thesis
    using own_chain_grows [OF toy_crypto_ok ex_base_stored, of 3 ex_g "PrecomittedNonce 9" "PrecomittedNonce 11"
        "PrecomittedPublicNonce (toy_public_key 11)"
        "snd (save_nonce_for_user_by_key toy_crypto (PrecomittedNonce 11) (toy_public_key 3) ex_base)" ex_post
        "''hello''" None AllTips 6 "[]"]
    by (simp add: k ex_post_def)
qed

section \<open>Reused nonces\<close>

lemma reused_fold:
  fixes rows :: "'m GenericEnvelope Authenticated list"
  shows "fold (\<lambda>v acc. let k = hdr_key (header (inner v)) in
      AList.update k (case map_of acc k of None \<Rightarrow> [v] | Some vs \<Rightarrow> vs @ [v]) acc) rows acc0 = acc \<Longrightarrow>
    map_of acc k = (case map_of acc0 k of
        None \<Rightarrow> (let vs = filter (\<lambda>v. hdr_key (header (inner v)) = k) rows in if vs = [] then None else Some vs)
      | Some ws \<Rightarrow> Some (ws @ filter (\<lambda>v. hdr_key (header (inner v)) = k) rows))"
proof (induction rows arbitrary: acc0)
  case Nil
  then show ?case by (simp split: option.splits)
next
  case (Cons v rows)
  let ?k = "hdr_key (header (inner v))"
  let ?acc = "AList.update ?k (case map_of acc0 ?k of None \<Rightarrow> [v] | Some vs \<Rightarrow> vs @ [v]) acc0"
  have "map_of acc k = (case map_of ?acc k of
        None \<Rightarrow> (let vs = filter (\<lambda>v. hdr_key (header (inner v)) = k) rows in if vs = [] then None else Some vs)
      | Some ws \<Rightarrow> Some (ws @ filter (\<lambda>v. hdr_key (header (inner v)) = k) rows))"
    by (rule Cons.IH) (use Cons.prems in \<open>simp add: Let_def\<close>)
  then show ?case by (cases "map_of acc0 ?k") (auto simp: update_conv Let_def split: option.splits)
qed

lemma reused_groups:
  "map_of (get_reused_nonces rows) k = (let vs = filter (\<lambda>v. hdr_key (header (inner v)) = k) rows in if vs = [] then None else Some vs)"
  using reused_fold [OF refl, of rows "[]" k] by (simp add: get_reused_nonces_def)

lemma update_distinct: "distinct (map fst (get_reused_nonces rows))"
proof -
  have "distinct (map fst acc) \<Longrightarrow> distinct (map fst (fold (\<lambda>v acc. let k = hdr_key (header (inner v)) in
      AList.update k (case map_of acc k of None \<Rightarrow> [v] | Some vs \<Rightarrow> vs @ [v]) acc) rows acc))" for acc
    by (induction rows arbitrary: acc) (simp_all add: Let_def distinct_update)
  then show ?thesis by (simp add: get_reused_nonces_def)
qed

text \<open>Messages of one user are messages of one key.\<close>

lemma same_user:
  assumes ok: "users_ok c db" and "r \<in> set (messages db)" "q \<in> set (messages db)"
  shows "(row_user r = row_user q) = (hdr_key (fst (body r)) = hdr_key (fst (body q)))"
proof -
  obtain u where u: "u \<in> set (db_users db)" "user_id u = row_user r" "db_key u = hdr_key (fst (body r))"
    using users_okD(3) [OF ok assms(2)] by (auto simp: row_ok_def)
  obtain v where v: "v \<in> set (db_users db)" "user_id v = row_user q" "db_key v = hdr_key (fst (body q))"
    using users_okD(3) [OF ok assms(3)] by (auto simp: row_ok_def)
  have "(user_id u = user_id v) = (db_key u = db_key v)"
    using users_okD(1,2) [OF ok] u(1) v(1) by (auto simp: distinct_map inj_on_def)
  with u v show ?thesis by simp
qed

lemma two_rows:
  assumes "distinct xs" and "r \<in> set xs" "q \<in> set xs" "r \<noteq> q" "P r" "P q"
  shows "1 < length (filter P xs)"
proof -
  have "{r, q} \<subseteq> set (filter P xs)" using assms by simp
  then have "card {r, q} \<le> card (set (filter P xs))" by (rule card_mono [rotated]) simp
  moreover have "card (set (filter P xs)) = length (filter P xs)" by (rule distinct_card [OF distinct_filter [OF assms(1)]])
  ultimately show ?thesis using assms(4) by simp
qed

lemma reused_row:
  assumes ok: "store_ok c db" and r: "r \<in> set (messages db)"
  shows "(r \<in> set (reused_nonce_rows db)) = (\<exists>q \<in> set (messages db). q \<noteq> r \<and> row_nonce q = row_nonce r \<and>
    hdr_key (fst (body q)) = hdr_key (fst (body r)))"
proof -
  let ?P = "\<lambda>q. row_nonce q = row_nonce r \<and> row_user q = row_user r"
  have d: "distinct (messages db)" using db_okD(1) [OF store_okD(1) [OF ok]] distinct_map by blast
  have "(1 < length (filter ?P (messages db))) = (\<exists>q \<in> set (messages db). q \<noteq> r \<and> ?P q)"
  proof
    assume "1 < length (filter ?P (messages db))"
    then have c: "1 < card (set (filter ?P (messages db)))" unfolding distinct_card [OF distinct_filter [OF d]] .
    have "\<not> set (filter ?P (messages db)) \<subseteq> {r}"
    proof
      assume "set (filter ?P (messages db)) \<subseteq> {r}"
      then have "card (set (filter ?P (messages db))) \<le> card {r}" by (rule card_mono [rotated]) simp
      with c show False by simp
    qed
    then show "\<exists>q \<in> set (messages db). q \<noteq> r \<and> ?P q" by auto
  next
    assume "\<exists>q \<in> set (messages db). q \<noteq> r \<and> ?P q"
    then obtain q where q: "q \<in> set (messages db)" "q \<noteq> r" "?P q" by blast
    show "1 < length (filter ?P (messages db))" by (rule two_rows [where P = ?P, OF d q(1) r q(2,3)]) simp
  qed
  then show ?thesis using r same_user [OF store_okD(2) [OF ok] _ r] by (auto simp: reused_nonce_rows_def)
qed

lemma reused_group_keys:
  assumes ok: "store_ok c db" and kv: "(k, vs) \<in> set (get_reused_nonces (map (read_body c) (reused_nonce_rows db)))"
  shows "vs = map (read_body c) (filter (\<lambda>r. hdr_key (fst (body r)) = k) (reused_nonce_rows db))" and "2 \<le> length vs"
proof -
  let ?rs = "filter (\<lambda>r. hdr_key (fst (body r)) = k) (reused_nonce_rows db)"
  have key: "hdr_key (header (inner (read_body c r))) = hdr_key (fst (body r))" for r :: "'a Row"
    by (simp add: read_body_def new_envelope_def)
  have "map_of (get_reused_nonces (map (read_body c) (reused_nonce_rows db))) k = Some vs"
    by (rule map_of_is_SomeI [OF update_distinct kv])
  then have vs: "vs = map (read_body c) ?rs" "?rs \<noteq> []"
    by (auto simp: reused_groups Let_def filter_map comp_def key split: if_splits)
  then show "vs = map (read_body c) ?rs" by simp
  from vs(2) obtain r where r: "r \<in> set (reused_nonce_rows db)" "hdr_key (fst (body r)) = k"
    by (auto simp: filter_empty_conv)
  then have rm: "r \<in> set (messages db)" by (simp add: reused_nonce_rows_def)
  obtain q where q: "q \<in> set (messages db)" "q \<noteq> r" "row_nonce q = row_nonce r" "hdr_key (fst (body q)) = k"
    using reused_row [OF ok rm] r by auto
  then have "q \<in> set (reused_nonce_rows db)" using reused_row [OF ok q(1)] rm r(2) by (metis)
  moreover have "distinct (reused_nonce_rows db)"
    using db_okD(1) [OF store_okD(1) [OF ok]] distinct_map unfolding reused_nonce_rows_def by (blast intro: distinct_filter)
  ultimately have "1 < length ?rs" by (intro two_rows [of _ r q]) (use r q in auto)
  then show "2 \<le> length vs" by (simp add: vs(1))
qed

lemma dlog_keys_no_error:
  "(\<forall>(k, v) \<in> set groups. 2 \<le> length v) \<Longrightarrow> dlog_keys c l groups found \<noteq> Some (Inl e)"
  by (induction c l groups found rule: dlog_keys.induct) (auto split: option.splits)

text \<open>C27: Reused nonces are found. When a store holds two messages of one key whose signatures start with
  the same nonce, the query puts both into the group of that key; every group that it returns has at
  least two messages, so the extractor never ends with the error about a broken invariant of the
  database.\<close>

theorem reused_nonces_are_found:
  assumes "stored c db" and "r \<in> set (messages db)" and "q \<in> set (messages db)" and "r \<noteq> q"
    and "hdr_key (fst (body r)) = k" and "hdr_key (fst (body q)) = k" and "row_nonce r = row_nonce q"
  shows "(\<exists>vs. (k, vs) \<in> set (get_reused_nonces (map (read_body c) (reused_nonce_rows db))) \<and>
       read_body c r \<in> set vs \<and> read_body c q \<in> set vs) \<and>
    list_all (\<lambda>(_, vs). 2 \<le> length vs) (get_reused_nonces (map (read_body c) (reused_nonce_rows db))) \<and>
    dlog_round c l known (map (read_body c) (reused_nonce_rows db)) \<noteq> Some (Inl e)"
proof -
  let ?g = "get_reused_nonces (map (read_body c) (reused_nonce_rows db))"
  have ok: "store_ok c db" by (rule stored_ok [OF assms(1)])
  have two: "list_all (\<lambda>(_, vs). 2 \<le> length vs) ?g"
    using reused_group_keys(2) [OF ok] by (auto simp: list_all_iff)
  have m: "r \<in> set (reused_nonce_rows db)" "q \<in> set (reused_nonce_rows db)"
    using reused_row [OF ok assms(2)] reused_row [OF ok assms(3)] assms by auto
  have key: "hdr_key (header (inner (read_body c r))) = hdr_key (fst (body r))" for r :: "'a Row"
    by (simp add: read_body_def new_envelope_def)
  let ?rs = "filter (\<lambda>r. hdr_key (fst (body r)) = k) (reused_nonce_rows db)"
  have "?rs \<noteq> []" using m(1) assms(5) by (auto simp: filter_empty_conv)
  then have "map_of ?g k = Some (map (read_body c) ?rs)"
    by (simp add: reused_groups Let_def filter_map comp_def key)
  then have "(k, map (read_body c) ?rs) \<in> set ?g" by (rule map_of_SomeD)
  moreover have "read_body c r \<in> set (map (read_body c) ?rs)" "read_body c q \<in> set (map (read_body c) ?rs)"
    using m assms(5,6) by auto
  moreover have "dlog_keys c l (filter (\<lambda>(k, _). k \<notin> set known) ?g) [] \<noteq> Some (Inl e')" for e'
    by (rule dlog_keys_no_error) (use two in \<open>auto simp: list_all_iff\<close>)
  then have "dlog_round c l known (map (read_body c) (reused_nonce_rows db)) \<noteq> Some (Inl e)"
    by (auto simp: dlog_round_def Let_def map_sum_def split: sum.splits)
  ultimately show ?thesis using two by blast
qed

theorem reused_nonces_are_found_witness:
  "\<exists>vs. (toy_public_key 3, vs) \<in> set (get_reused_nonces (map (read_body toy_crypto) (reused_nonce_rows ex_db1))) \<and>
     read_body toy_crypto (messages ex_db1 ! 1) \<in> set vs"
proof -
  have "messages ex_db1 ! 0 \<in> set (messages ex_db1)" "messages ex_db1 ! 1 \<in> set (messages ex_db1)"
    "messages ex_db1 ! 0 \<noteq> messages ex_db1 ! 1"
    "hdr_key (fst (body (messages ex_db1 ! 0))) = toy_public_key 3" "hdr_key (fst (body (messages ex_db1 ! 1))) = toy_public_key 3"
    "row_nonce (messages ex_db1 ! 0) = row_nonce (messages ex_db1 ! 1)"
    by code_simp+
  from reused_nonces_are_found [OF ex_db_stored(1) this] show ?thesis by blast
qed

end
