(* ===== verification/Event_Log.thy ===== *)
theory Event_Log
  imports Database
begin

text \<open>
  The event log (\<open>common/event-log/src\<close>): groups of occurrences in the order in which they were stored,
  where a tag occurs at most once in a group, and the task that feeds the occurrences of a group to its
  event loop (\<open>common/sapio-litigator/src/universe/linearized.rs\<close>). The data of an occurrence is a JSON
  value, of an arbitrary type here; the time at which it is made is an argument.
\<close>

section \<open>Tables\<close>

record 'j Occurrence =
  occ_data :: 'j
  occ_time :: int
  occ_typeid :: string
  unique_tag :: "string option"

record 'j OccurrenceRow =
  occurrence_id :: nat
  occurrence_group :: nat
  occurrence :: "'j Occurrence"

record 'j EventLog =
  ev_groups :: "(nat \<times> string) list"
  occurrences :: "'j OccurrenceRow list"

definition empty_log :: "'j EventLog" where
  "empty_log = \<lparr>ev_groups = [], occurrences = []\<rparr>"

datatype Idempotent = AlreadyExists

text \<open>Errors of the database: no row, a repeated key of a group, a group that does not exist.\<close>

datatype LogError = NoRow | RepeatedKey | NoSuchGroup

section \<open>Groups\<close>

definition insert_new_occurrence_group :: "string \<Rightarrow> 'j EventLog \<Rightarrow> (LogError + nat) \<times> 'j EventLog" where
  "insert_new_occurrence_group key l =
     (if key \<in> snd ` set (ev_groups l) then (Inl RepeatedKey, l)
      else let i = fresh_id (map fst (ev_groups l)) in (Inr i, l\<lparr>ev_groups := ev_groups l @ [(i, key)]\<rparr>))"

definition get_all_occurrence_groups :: "'j EventLog \<Rightarrow> (nat \<times> string) list" where
  "get_all_occurrence_groups l = ev_groups l"

definition get_occurrence_group_by_id :: "nat \<Rightarrow> 'j EventLog \<Rightarrow> LogError + string" where
  "get_occurrence_group_by_id i l = (case map_of (ev_groups l) i of None \<Rightarrow> Inl NoRow | Some k \<Rightarrow> Inr k)"

definition get_occurrence_group_by_key :: "string \<Rightarrow> 'j EventLog \<Rightarrow> LogError + nat" where
  "get_occurrence_group_by_key key l = (case find (\<lambda>(_, k). k = key) (ev_groups l) of None \<Rightarrow> Inl NoRow | Some (i, _) \<Rightarrow> Inr i)"

section \<open>Occurrences\<close>

text \<open>Occurrences without a tag are never repeated ones; a foreign key is checked after uniqueness.\<close>

definition has_tag :: "nat \<Rightarrow> string \<Rightarrow> 'j EventLog \<Rightarrow> bool" where
  "has_tag g t l = list_ex (\<lambda>r. occurrence_group r = g \<and> unique_tag (occurrence r) = Some t) (occurrences l)"

definition insert_occurrence ::
  "nat \<Rightarrow> 'j Occurrence \<Rightarrow> 'j EventLog \<Rightarrow> (LogError + Idempotent + nat) \<times> 'j EventLog" where
  "insert_occurrence g oc l =
     (if (case unique_tag oc of None \<Rightarrow> False | Some t \<Rightarrow> has_tag g t l) then (Inr (Inl AlreadyExists), l)
      else if g \<notin> fst ` set (ev_groups l) then (Inl NoSuchGroup, l)
      else let i = fresh_id (map occurrence_id (occurrences l)) in
        (Inr (Inr i), l\<lparr>occurrences := occurrences l @ [\<lparr>occurrence_id = i, occurrence_group = g, occurrence = oc\<rparr>]\<rparr>))"

definition occurrence_rows :: "nat \<Rightarrow> 'j EventLog \<Rightarrow> (nat \<times> 'j Occurrence) list" where
  "occurrence_rows g l = map (\<lambda>r. (occurrence_id r, occurrence r))
     (sort_key occurrence_id (filter (\<lambda>r. occurrence_group r = g) (occurrences l)))"

definition get_occurrence :: "nat \<Rightarrow> 'j EventLog \<Rightarrow> LogError + 'j Occurrence" where
  "get_occurrence i l = (case find (\<lambda>r. occurrence_id r = i) (occurrences l) of None \<Rightarrow> Inl NoRow | Some r \<Rightarrow> Inr (occurrence r))"

definition get_occurrences_for_group :: "nat \<Rightarrow> 'j EventLog \<Rightarrow> (nat \<times> 'j Occurrence) list" where
  "get_occurrences_for_group g l = occurrence_rows g l"

definition get_occurrence_for_group_by_tag :: "nat \<Rightarrow> string \<Rightarrow> 'j EventLog \<Rightarrow> LogError + nat \<times> 'j Occurrence" where
  "get_occurrence_for_group_by_tag g t l =
     (case find (\<lambda>r. occurrence_group r = g \<and> unique_tag (occurrence r) = Some t) (occurrences l) of
        None \<Rightarrow> Inl NoRow | Some r \<Rightarrow> Inr (occurrence_id r, occurrence r))"

definition get_occurrences_for_group_after_id :: "nat \<Rightarrow> nat \<Rightarrow> 'j EventLog \<Rightarrow> (nat \<times> 'j Occurrence) list" where
  "get_occurrences_for_group_after_id g i l = filter (\<lambda>(j, _). i < j) (occurrence_rows g l)"

section \<open>Values as occurrences\<close>

text \<open>How a type is stored: its JSON text, its name and the tag of a value; reading may fail.\<close>

record ('v, 'j) ToOccurrence =
  to_data :: "'v \<Rightarrow> 'j"
  from_data :: "'j \<Rightarrow> string option \<Rightarrow> string + 'v"
  stable_typeid :: string
  tag_of :: "'v \<Rightarrow> string option"

datatype OccurrenceConversionError =
  DeserializationError string
| TypeidMismatch string string

definition from_occurrence :: "('v, 'j) ToOccurrence \<Rightarrow> 'j Occurrence \<Rightarrow> OccurrenceConversionError + 'v" where
  "from_occurrence ty oc =
     (case from_data ty (occ_data oc) (unique_tag oc) of
        Inl e \<Rightarrow> Inl (DeserializationError e)
      | Inr v \<Rightarrow> if occ_typeid oc \<noteq> stable_typeid ty then Inl (TypeidMismatch (occ_typeid oc) (stable_typeid ty)) else Inr v)"

definition occurrence_of :: "('v, 'j) ToOccurrence \<Rightarrow> int \<Rightarrow> 'v \<Rightarrow> 'j Occurrence" where
  "occurrence_of ty now v = \<lparr>occ_data = to_data ty v, occ_time = now, occ_typeid = stable_typeid ty, unique_tag = tag_of ty v\<rparr>"

definition insert_new_occurrence_now_from ::
  "('v, 'j) ToOccurrence \<Rightarrow> int \<Rightarrow> nat \<Rightarrow> 'v \<Rightarrow> 'j EventLog \<Rightarrow> (LogError + Idempotent + nat) \<times> 'j EventLog" where
  "insert_new_occurrence_now_from ty now g v l = insert_occurrence g (occurrence_of ty now v) l"

section \<open>Feeding an event loop\<close>

text \<open>
  The state of \<open>event_log_processor_inner\<close>: the id of the last event sent, the time to wait in
  nanoseconds and what was sent. It ends when an occurrence does not parse or the receiver is gone.
\<close>

datatype ProcessorEnd = Sending | ReceiverDropped | BadOccurrence OccurrenceConversionError

record 'v Processor =
  last_sent :: nat
  time_to_wait :: nat
  sent_events :: "'v list"
  processor_end :: ProcessorEnd

definition log_check_start :: nat where "log_check_start = 1000000"
definition max_wait_to_check_log :: nat where "max_wait_to_check_log = 30000000000"

definition new_processor :: "'v Processor" where
  "new_processor = \<lparr>last_sent = 0, time_to_wait = log_check_start, sent_events = [], processor_end = Sending\<rparr>"

text \<open>Sending the occurrences; \<open>conv\<close> reads one, and the receiver takes as many as it is there for (\<open>None\<close>: all).\<close>

fun send_all :: "('j Occurrence \<Rightarrow> OccurrenceConversionError + 'v) \<Rightarrow> nat option \<Rightarrow> (nat \<times> 'j Occurrence) list \<Rightarrow> 'v Processor \<Rightarrow> 'v Processor" where
  "send_all conv open [] p = p"
| "send_all conv open ((i, oc) # rest) p =
     (case conv oc of
        Inl e \<Rightarrow> p\<lparr>processor_end := BadOccurrence e\<rparr>
      | Inr v \<Rightarrow>
          (if open = Some 0 then p\<lparr>processor_end := ReceiverDropped\<rparr>
           else send_all conv (map_option (\<lambda>n. n - 1) open) rest (p\<lparr>last_sent := i, sent_events := sent_events p @ [v]\<rparr>)))"

text \<open>One turn; the multiplication of a duration by 1.5 is a floating-point operation of the library.\<close>

definition processor_turn ::
  "(nat \<Rightarrow> nat) \<Rightarrow> ('j Occurrence \<Rightarrow> OccurrenceConversionError + 'v) \<Rightarrow> nat \<Rightarrow> nat option \<Rightarrow> 'j EventLog \<Rightarrow> 'v Processor \<Rightarrow> 'v Processor" where
  "processor_turn backoff conv g open l p =
     (if processor_end p \<noteq> Sending then p
      else let to_process = get_occurrences_for_group_after_id g (last_sent p) l in
        send_all conv open to_process (p\<lparr>time_to_wait :=
          (if to_process = [] then min (backoff (time_to_wait p)) max_wait_to_check_log else log_check_start)\<rparr>))"

end
