(* ===== verification/Event_Log_Laws.thy ===== *)
theory Event_Log_Laws
  imports Event_Log
begin

text \<open>
  Logs that only grow, and a reader that resumes after the last row it has seen; the event log is one,
  so the processor of the litigator delivers every event of its group once and in order.
\<close>

section \<open>Logs that only grow\<close>

text \<open>What a reader that remembers the id of its last row relies on.\<close>

locale append_log =
  fixes rows :: "'l \<Rightarrow> (nat \<times> 'o) list" and ok :: "'l \<Rightarrow> bool" and grows :: "'l \<Rightarrow> 'l \<Rightarrow> bool"
  assumes ids: "ok l \<Longrightarrow> sorted_wrt (<) (0 # map fst (rows l))"
    and grow: "ok l \<Longrightarrow> grows l l' \<Longrightarrow> ok l' \<and> (\<exists>new. rows l' = rows l @ new)"
begin

lemma resume:
  assumes "ok l" and "rows l = seen @ rest"
  shows "filter (\<lambda>(j, _). last (0 # map fst seen) < j) (rows l) = rest"
proof -
  have s: "sorted_wrt (<) (0 # map fst seen @ map fst rest)" using ids [OF assms(1)] assms(2) by simp
  have "\<not> last (0 # map fst seen) < j" if "(j, ob) \<in> set seen" for j ob
  proof -
    have "seen \<noteq> []" "j \<in> set (map fst seen)" using that by force+
    moreover have "sorted (map fst seen)" using s by (simp add: sorted_wrt_append strict_sorted_iff)
    ultimately have "j \<le> last (map fst seen)"
      by (metis in_set_conv_nth last_conv_nth length_greater_0_conv length_pos_if_in_set less_Suc_eq_le Suc_pred sorted_nth_mono diff_less zero_less_one diff_Suc_1 length_map)
    with \<open>seen \<noteq> []\<close> show ?thesis by (simp add: last_map)
  qed
  moreover have "last (0 # map fst seen) < j" if "(j, ob) \<in> set rest" for j ob
  proof -
    have "last (0 # map fst seen) \<in> set (0 # map fst seen)" by (rule last_in_set) simp
    moreover have "j \<in> set (map fst rest)" using that by force
    moreover have "sorted_wrt (<) ((0 # map fst seen) @ map fst rest)" using s by simp
    ultimately show ?thesis unfolding sorted_wrt_append by blast
  qed
  ultimately have "filter (\<lambda>(j, _). last (0 # map fst seen) < j) seen = []"
    "filter (\<lambda>(j, _). last (0 # map fst seen) < j) rest = rest"
    by (auto simp: filter_empty_conv filter_id_conv simp del: last.simps)
  then show ?thesis by (simp add: assms(2) del: last.simps)
qed

lemma still_prefix: "ok l \<Longrightarrow> grows l l' \<Longrightarrow> rows l = seen @ rest \<Longrightarrow> \<exists>rest'. rows l' = seen @ rest'"
  using grow by fastforce

end

section \<open>The event log grows\<close>

definition log_ok :: "'j EventLog \<Rightarrow> bool" where
  "log_ok l =
     (sorted_wrt (<) (0 # map occurrence_id (occurrences l)) \<and>
      (\<forall>r \<in> set (occurrences l). \<forall>q \<in> set (occurrences l).
        occurrence_group r = occurrence_group q \<and> unique_tag (occurrence r) \<noteq> None \<and>
        unique_tag (occurrence r) = unique_tag (occurrence q) \<longrightarrow> r = q))"

inductive log_grows :: "'j EventLog \<Rightarrow> 'j EventLog \<Rightarrow> bool" where
  occurrence: "log_grows l (snd (insert_occurrence g oc l))"
| group: "log_grows l (snd (insert_new_occurrence_group k l))"

lemma sorted_wrt_rows: "sorted_wrt (<) (0 # map occurrence_id rs) \<Longrightarrow> sorted_wrt (<) (0 # map occurrence_id (filter P rs))"
  by (induction rs) auto

lemma occurrence_rows_sorted:
  assumes "log_ok l"
  shows "occurrence_rows g l = map (\<lambda>r. (occurrence_id r, occurrence r)) (filter (\<lambda>r. occurrence_group r = g) (occurrences l))"
proof -
  let ?rs = "filter (\<lambda>r. occurrence_group r = g) (occurrences l)"
  have "sorted_wrt (<) (0 # map occurrence_id ?rs)"
    by (rule sorted_wrt_rows) (use assms in \<open>simp only: log_ok_def\<close>)
  then have "sorted (map occurrence_id ?rs)" by (simp add: strict_sorted_iff)
  then show ?thesis by (simp add: occurrence_rows_def sort_key_id_if_sorted)
qed

lemma log_ok_insert:
  assumes ok: "log_ok l"
  shows "log_ok (snd (insert_occurrence g oc l)) \<and>
    (\<exists>new. occurrences (snd (insert_occurrence g oc l)) = occurrences l @ new)"
proof (cases "occurrences (snd (insert_occurrence g oc l)) = occurrences l")
  case True
  from ok have "log_ok (snd (insert_occurrence g oc l))" unfolding log_ok_def True .
  with True show ?thesis by simp
next
  case False
  let ?i = "fresh_id (map occurrence_id (occurrences l))"
  let ?r = "\<lparr>occurrence_id = ?i, occurrence_group = g, occurrence = oc\<rparr>"
  have t: "unique_tag oc = None \<or> \<not> has_tag g (the (unique_tag oc)) l"
    and e: "occurrences (snd (insert_occurrence g oc l)) = occurrences l @ [?r]"
    using False by (auto simp: insert_occurrence_def Let_def split: option.splits if_splits)
  have "sorted_wrt (<) (0 # map occurrence_id (occurrences l @ [?r]))"
  proof -
    have "\<forall>x \<in> set (0 # map occurrence_id (occurrences l)). x < ?i"
      unfolding fresh_id_def by (auto simp: less_Suc_eq_le)
    moreover have "sorted_wrt (<) (0 # map occurrence_id (occurrences l))" using ok by (simp only: log_ok_def)
    ultimately have "sorted_wrt (<) ((0 # map occurrence_id (occurrences l)) @ [?i])"
      unfolding sorted_wrt_append by simp
    then show ?thesis by simp
  qed
  moreover have "r = q" if "r \<in> set (occurrences l @ [?r])" "q \<in> set (occurrences l @ [?r])"
    "occurrence_group r = occurrence_group q" "unique_tag (occurrence r) \<noteq> None" "unique_tag (occurrence r) = unique_tag (occurrence q)" for r q
  proof -
    have n: "unique_tag (occurrence x) \<noteq> unique_tag oc" if "x \<in> set (occurrences l)" "occurrence_group x = g" "unique_tag (occurrence x) \<noteq> None" for x
      using t that by (auto simp: has_tag_def list_ex_iff)
    have o: "r = q" if "r \<in> set (occurrences l)" "q \<in> set (occurrences l)"
      using ok that \<open>occurrence_group r = occurrence_group q\<close> \<open>unique_tag (occurrence r) \<noteq> None\<close>
        \<open>unique_tag (occurrence r) = unique_tag (occurrence q)\<close> unfolding log_ok_def by blast
    show ?thesis using o n [of r] n [of q] that by auto
  qed
  ultimately show ?thesis unfolding log_ok_def e by blast
qed

lemma log_ok_group:
  "log_ok (snd (insert_new_occurrence_group k l)) = log_ok l"
  "occurrences (snd (insert_new_occurrence_group k l)) = occurrences l"
  by (simp_all add: insert_new_occurrence_group_def log_ok_def Let_def)

lemma log_ok_grows:
  assumes "log_grows l l'" and "log_ok l"
  shows "log_ok l' \<and> (\<exists>new. occurrences l' = occurrences l @ new)"
  using assms(1)
proof cases
  case (occurrence g oc)
  then show ?thesis using log_ok_insert [OF assms(2)] by simp
next
  case (group k)
  then show ?thesis using assms(2) by (simp add: log_ok_group)
qed

interpretation event_log: append_log "occurrence_rows g" log_ok log_grows for g
proof
  fix l l' :: "'j EventLog"
  assume ok: "log_ok l"
  have "sorted_wrt (<) (0 # map occurrence_id (filter (\<lambda>r. occurrence_group r = g) (occurrences l)))"
    by (rule sorted_wrt_rows) (use ok in \<open>simp only: log_ok_def\<close>)
  then show "sorted_wrt (<) (0 # map fst (occurrence_rows g l))" by (simp add: occurrence_rows_sorted [OF ok] comp_def)
  assume g: "log_grows l l'"
  from log_ok_grows [OF g ok] obtain new where new: "log_ok l'" "occurrences l' = occurrences l @ new" by blast
  then show "log_ok l' \<and> (\<exists>new. occurrence_rows g l' = occurrence_rows g l @ new)"
    by (simp add: occurrence_rows_sorted [OF ok] occurrence_rows_sorted [OF new(1)])
qed

section \<open>The processor\<close>

text \<open>A log and a processor that share it: anything is stored, and turns are taken, in any order.\<close>

inductive feeding :: "(nat \<Rightarrow> nat) \<Rightarrow> ('j Occurrence \<Rightarrow> OccurrenceConversionError + 'v) \<Rightarrow> nat \<Rightarrow> 'j EventLog \<Rightarrow> 'v Processor \<Rightarrow> bool"
  for backoff conv g where
  start: "feeding backoff conv g empty_log new_processor"
| stored: "feeding backoff conv g l p \<Longrightarrow> log_grows l l' \<Longrightarrow> feeding backoff conv g l' p"
| turn: "feeding backoff conv g l p \<Longrightarrow> feeding backoff conv g l (processor_turn backoff conv g open l p)"
| restart: "feeding backoff conv g l p \<Longrightarrow> feeding backoff conv g l new_processor"

definition delivered :: "('j Occurrence \<Rightarrow> OccurrenceConversionError + 'v) \<Rightarrow> (nat \<times> 'j Occurrence) list \<Rightarrow> 'v Processor \<Rightarrow> bool" where
  "delivered conv seen p = (map (\<lambda>(_, oc). conv oc) seen = map Inr (sent_events p) \<and>
     last_sent p = last (0 # map fst seen))"

lemma send_all_delivers:
  assumes "delivered conv seen p"
  shows "\<exists>more rest'. rest = more @ rest' \<and> delivered conv (seen @ more) (send_all conv open rest p)"
  using assms
proof (induction conv "open" rest p arbitrary: seen rule: send_all.induct)
  case (1 conv "open" p)
  then show ?case by simp
next
  case (2 conv "open" i oc rest p)
  show ?case
  proof (cases "conv oc")
    case (Inl e)
    with 2(2) have "(i, oc) # rest = [] @ (i, oc) # rest \<and> delivered conv (seen @ []) (send_all conv open ((i, oc) # rest) p)"
      by (simp add: delivered_def)
    then show ?thesis by blast
  next
    case v: (Inr v)
    show ?thesis
    proof (cases "open = Some 0")
      case True
      with v 2(2) have "(i, oc) # rest = [] @ (i, oc) # rest \<and> delivered conv (seen @ []) (send_all conv open ((i, oc) # rest) p)"
        by (simp add: delivered_def)
      then show ?thesis by blast
    next
      case False
      let ?p = "p\<lparr>last_sent := i, sent_events := sent_events p @ [v]\<rparr>"
      have "delivered conv (seen @ [(i, oc)]) ?p" using 2(2) v by (simp add: delivered_def)
      from 2(1) [OF v False this] obtain more rest' where
        "rest = more @ rest'" "delivered conv ((seen @ [(i, oc)]) @ more) (send_all conv (map_option (\<lambda>n. n - 1) open) rest ?p)" by blast
      with v False have "(i, oc) # rest = ((i, oc) # more) @ rest' \<and>
          delivered conv (seen @ (i, oc) # more) (send_all conv open ((i, oc) # rest) p)" by simp
      then show ?thesis by blast
    qed
  qed
qed

lemma send_all_complete:
  assumes "\<forall>(_, oc) \<in> set rest. \<exists>v. conv oc = Inr v"
  shows "map Inr (sent_events (send_all conv None rest p)) = map Inr (sent_events p) @ map (\<lambda>(_, oc). conv oc) rest \<and>
    processor_end (send_all conv None rest p) = processor_end p"
  using assms
proof (induction conv "None :: nat option" rest p rule: send_all.induct)
  case (2 conv i oc rest p)
  then obtain v where v: "conv oc = Inr v" by auto
  from 2(1) [OF v] 2(2) v show ?case by simp
qed simp

lemma delivered_frame: "delivered conv seen (p\<lparr>time_to_wait := t\<rparr>) = delivered conv seen p"
  by (simp add: delivered_def)

lemma feeding_delivered:
  assumes "feeding backoff conv g l p"
  shows "log_ok l \<and> (\<exists>seen rest. occurrence_rows g l = seen @ rest \<and> delivered conv seen p)"
  using assms
proof (induction rule: feeding.induct)
  case start
  show ?case by (simp add: log_ok_def empty_log_def occurrence_rows_def delivered_def new_processor_def)
next
  case (stored l p l')
  then show ?case using event_log.still_prefix event_log.grow by meson
next
  case (turn l p "open")
  then obtain seen rest where s: "log_ok l" "occurrence_rows g l = seen @ rest" "delivered conv seen p" by blast
  then have "get_occurrences_for_group_after_id g (last_sent p) l = rest"
    using event_log.resume [OF s(1,2)] by (simp add: get_occurrences_for_group_after_id_def delivered_def)
  then have "processor_turn backoff conv g open l p = p \<or>
      (\<exists>t. processor_turn backoff conv g open l p = send_all conv open rest (p\<lparr>time_to_wait := t\<rparr>))"
    by (auto simp: processor_turn_def Let_def)
  then show ?case
  proof
    assume "\<exists>t. processor_turn backoff conv g open l p = send_all conv open rest (p\<lparr>time_to_wait := t\<rparr>)"
    then obtain t where t: "processor_turn backoff conv g open l p = send_all conv open rest (p\<lparr>time_to_wait := t\<rparr>)" by blast
    have "delivered conv seen (p\<lparr>time_to_wait := t\<rparr>)" using s(3) by (simp add: delivered_frame)
    from send_all_delivers [OF this, of rest "open"] obtain more rest' where
      "rest = more @ rest'" "delivered conv (seen @ more) (processor_turn backoff conv g open l p)" unfolding t by blast
    moreover from this have "occurrence_rows g l = (seen @ more) @ rest'" using s(2) by simp
    ultimately show ?thesis using s(1) by blast
  qed (use s in auto)
next
  case (restart l p)
  then show ?case by (auto simp: delivered_def new_processor_def)
qed

text \<open>C28: The event loop of the litigator gets every event of its contract once and in order. However
  storing and reading interleave, what was sent is a prefix of the events in the log, so nothing is
  skipped, repeated or reordered, also after a restart, which replays the same events; and a turn in
  which every occurrence parses and the receiver is there sends everything that is in the log.\<close>

theorem processor_delivers_in_order:
  assumes "feeding backoff conv g l p"
  shows "(\<exists>rest. map (\<lambda>(_, oc). conv oc) (get_occurrences_for_group g l) = map Inr (sent_events p) @ rest) \<and>
    (processor_end p = Sending \<longrightarrow> (\<forall>(_, oc) \<in> set (get_occurrences_for_group g l). \<exists>v. conv oc = Inr v) \<longrightarrow>
      map Inr (sent_events (processor_turn backoff conv g None l p)) =
        map (\<lambda>(_, oc). conv oc) (get_occurrences_for_group g l))"
proof -
  obtain seen rest where s: "log_ok l" "occurrence_rows g l = seen @ rest" "delivered conv seen p"
    using feeding_delivered [OF assms] by blast
  have r: "get_occurrences_for_group_after_id g (last_sent p) l = rest"
    using event_log.resume [OF s(1,2)] s(3) by (simp add: get_occurrences_for_group_after_id_def delivered_def)
  have "map Inr (sent_events (processor_turn backoff conv g None l p)) = map (\<lambda>(_, oc). conv oc) (seen @ rest)"
    if "processor_end p = Sending" "\<forall>(_, oc) \<in> set (seen @ rest). \<exists>v. conv oc = Inr v"
  proof -
    have "processor_turn backoff conv g None l p = send_all conv None rest (p\<lparr>time_to_wait :=
        (if rest = [] then min (backoff (time_to_wait p)) max_wait_to_check_log else log_check_start)\<rparr>)"
      using that(1) by (simp add: processor_turn_def Let_def r)
    then show ?thesis using that(2) s(3) send_all_complete [of rest conv] by (simp add: delivered_def)
  qed
  then show ?thesis using s(2,3) by (auto simp: get_occurrences_for_group_def delivered_def)
qed

text \<open>Numbers as events, two of them in the log.\<close>

definition ex_numbers :: "(nat, nat) ToOccurrence" where
  "ex_numbers = \<lparr>to_data = (\<lambda>n. n), from_data = (\<lambda>n _. Inr n), stable_typeid = ''N'', tag_of = (\<lambda>_. None)\<rparr>"

definition ex_log :: "nat EventLog" where
  "ex_log = snd (insert_new_occurrence_now_from ex_numbers 2 1 8
     (snd (insert_new_occurrence_now_from ex_numbers 1 1 7 (snd (insert_new_occurrence_group ''k'' empty_log)))))"

lemma ex_feeding: "feeding id (from_occurrence ex_numbers) 1 ex_log new_processor"
  unfolding ex_log_def insert_new_occurrence_now_from_def
  by (rule feeding.stored [OF feeding.stored [OF feeding.stored [OF feeding.start log_grows.group] log_grows.occurrence] log_grows.occurrence])

theorem processor_delivers_in_order_witness:
  "map Inr (sent_events (processor_turn id (from_occurrence ex_numbers) 1 None ex_log new_processor)) =
    ([Inr 7, Inr 8] :: (OccurrenceConversionError + nat) list)"
proof -
  have l: "map (\<lambda>(_, oc). from_occurrence ex_numbers oc) (get_occurrences_for_group 1 ex_log) = [Inr 7, Inr 8]" by code_simp
  have "\<forall>(_, oc) \<in> set (get_occurrences_for_group 1 ex_log). \<exists>v. from_occurrence ex_numbers oc = Inr v"
    by (simp add: from_occurrence_def ex_numbers_def ex_log_def insert_new_occurrence_now_from_def insert_occurrence_def
        insert_new_occurrence_group_def empty_log_def occurrence_of_def get_occurrences_for_group_def occurrence_rows_def
        fresh_id_def Let_def)
  then show ?thesis using processor_delivers_in_order [OF ex_feeding] l by (simp add: new_processor_def)
qed

end
