(* ===== verification/Litigator_Events.thy ===== *)
theory Litigator_Events
  imports Event_Log Contract
begin

text \<open>
  The events of a litigated contract and how they are stored in the event log
  (\<open>common/sapio-litigator-events/src/lib.rs\<close>, the event keys of \<open>common/simps/src/lib.rs\<close>), and the events
  that the mining game contract listens to. JSON values and
  transactions are arbitrary types; their texts and parsers are the fields of \<open>EventCodec\<close>, and
  \<open>codec_ok\<close> is what is documented of them.
\<close>

section \<open>Event keys\<close>

datatype EventKey = EventKey (key_text: string)

definition is_wildcard :: "EventKey \<Rightarrow> bool" where
  "is_wildcard k = (key_text k = ''*'')"

definition ek_game_action_win :: EventKey where "ek_game_action_win = EventKey ''game_action_players_win''"
definition ek_game_action_lose :: EventKey where "ek_game_action_lose = EventKey ''game_action_players_lose''"

definition ek_new_dlog :: "XOnlyPublicKey \<Rightarrow> EventKey" where
  "ek_new_dlog x = EventKey (''discrete_log_discovery('' @ x @ '')'')"

definition ek_bitcoin_blockheader :: EventKey where "ek_bitcoin_blockheader = EventKey ''blockheader''"

section \<open>What the mining game contract listens to\<close>

text \<open>What a contract attaches to a continuation: the source and the filter of the events with which
  it is to be compiled again, or a key whose discrete logarithm is looked for.\<close>

datatype Attachment = DLogSubscription XOnlyPublicKey | EventRecompiler string EventKey

text \<open>The continuations of the contract (\<open>declare!\<close>).\<close>

datatype Continuation = FnHostCheatEquivocate | FnHostCheatCensor | FnPlayersWin | FnPlayersLose | FnDegrade

definition game_host_dlog_subscription :: "GameKernel \<Rightarrow> Attachment list" where
  "game_host_dlog_subscription k = [DLogSubscription (game_host k), EventRecompiler ''*'' (ek_new_dlog (game_host k))]"

definition subscribe_players_win :: "Attachment list" where
  "subscribe_players_win = [EventRecompiler ''*'' ek_game_action_win]"

definition subscribe_players_lose :: "Attachment list" where
  "subscribe_players_lose = [EventRecompiler ''*'' ek_game_action_lose]"

definition degrade_metadata :: "Attachment list" where
  "degrade_metadata = [EventRecompiler ''bitcoin-rpc'' ek_bitcoin_blockheader]"

text \<open>The attribute \<open>simps\<close> of each continuation.\<close>

fun attachments :: "GameKernel \<Rightarrow> Continuation \<Rightarrow> Attachment list" where
  "attachments k FnHostCheatEquivocate = game_host_dlog_subscription k"
| "attachments k FnHostCheatCensor = []"
| "attachments k FnPlayersWin = subscribe_players_win"
| "attachments k FnPlayersLose = subscribe_players_lose"
| "attachments k FnDegrade = degrade_metadata"

section \<open>Events and tags\<close>

text \<open>The arguments of a contract with its effects: by path and by key, what was recorded there.\<close>

type_synonym EffectPath = string

record 'j CreateArgs =
  contract_args :: ContractArgs
  effects :: "(EffectPath \<times> (string \<times> 'j) list) list"

type_synonym OutPoint = "string \<times> nat"

datatype ('j, 'tx) Event =
  ModuleBytes string string
| CreateArgsEvent "'j CreateArgs"
| TransactionFinalized string 'tx
| Rebind OutPoint
| SyntheticPeriodicActions int
| NewRecompileTriggeringObservation 'j EventKey
| EmittedPSBTVia string XOnlyPublicKey

datatype Tag =
  InitModule | CreateArgsTag | FirstBind | EvLoopCounter u64 | ScopedCounter string u64 | ScopedValue string string

type_synonym ('j, 'tx) TaggedEvent = "('j, 'tx) Event \<times> Tag option"

record ('j, 'tx) EventCodec =
  event_json :: "('j, 'tx) Event \<Rightarrow> 'j"
  read_event :: "'j \<Rightarrow> string + ('j, 'tx) Event"
  tag_string :: "Tag \<Rightarrow> string"
  read_tag :: "string \<Rightarrow> string + Tag"

definition codec_ok :: "('j, 'tx) EventCodec \<Rightarrow> bool" where
  "codec_ok x = ((\<forall>e. read_event x (event_json x e) = Inr e) \<and> (\<forall>t. read_tag x (tag_string x t) = Inr t))"

definition litigator_event :: string where "litigator_event = ''LitigatorEvent''"

definition tagged_occurrence :: "('j, 'tx) EventCodec \<Rightarrow> int \<Rightarrow> ('j, 'tx) TaggedEvent \<Rightarrow> 'j Occurrence" where
  "tagged_occurrence x now e = \<lparr>occ_data = event_json x (fst e), occ_time = now, occ_typeid = litigator_event,
     unique_tag = map_option (tag_string x) (snd e)\<rparr>"

definition tagged_from_occurrence ::
  "('j, 'tx) EventCodec \<Rightarrow> 'j Occurrence \<Rightarrow> OccurrenceConversionError + ('j, 'tx) TaggedEvent" where
  "tagged_from_occurrence x oc =
     (case read_event x (occ_data oc) of
        Inl e \<Rightarrow> Inl (DeserializationError e)
      | Inr v \<Rightarrow>
          (if occ_typeid oc \<noteq> litigator_event then Inl (TypeidMismatch (occ_typeid oc) litigator_event)
           else case unique_tag oc of
             None \<Rightarrow> Inr (v, None)
           | Some t \<Rightarrow> (case read_tag x t of Inl e \<Rightarrow> Inl (DeserializationError e) | Inr tag \<Rightarrow> Inr (v, Some tag))))"

definition insert_tagged ::
  "('j, 'tx) EventCodec \<Rightarrow> int \<Rightarrow> nat \<Rightarrow> ('j, 'tx) TaggedEvent \<Rightarrow> 'j EventLog \<Rightarrow> (LogError + Idempotent + nat) \<times> 'j EventLog" where
  "insert_tagged x now g e l = insert_occurrence g (tagged_occurrence x now e) l"

section \<open>Modules\<close>

text \<open>A module is its bytes; \<open>hash_hex\<close> is their SHA-256 in hex.\<close>

definition default_group_key :: string where "default_group_key = ''ModuleRepo''"

definition module_repo :: "(u8s \<Rightarrow> 'j) \<Rightarrow> ('j \<Rightarrow> string + u8s) \<Rightarrow> (u8s \<Rightarrow> string) \<Rightarrow> (u8s, 'j) ToOccurrence" where
  "module_repo to_json of_json hash_hex = \<lparr>to_data = to_json, from_data = (\<lambda>j _. of_json j), stable_typeid = default_group_key,
     tag_of = (\<lambda>bytes. Some (hash_hex bytes))\<rparr>"

section \<open>Round trip\<close>

lemma tagged_round_trip: "codec_ok x \<Longrightarrow> tagged_from_occurrence x (tagged_occurrence x now e) = Inr e"
  by (cases e; cases "snd e") (auto simp: codec_ok_def tagged_from_occurrence_def tagged_occurrence_def)

end
