(* ===== verification/Lobby.thy ===== *)
theory Lobby
  imports Litigator_Events Own_Chain
begin

text \<open>
  How a game comes about (\<open>common/game-host/src/app.rs\<close>, \<open>app/routes/game_init.rs\<close>, with the messages of
  \<open>game-host-messages\<close>): games that wait for players, the host's chain of a game, and the events that
  hand the funded contract to the litigator. Join codes, keys, nonces and times are drawn at random or
  read from a clock: they are arguments. The wallet and the compiler of contracts are the argument
  \<open>fund\<close>. Texts of responses are left out.
\<close>

section \<open>Games that wait for players\<close>

datatype JoinCode = JoinCode u8s

datatype AddPlayerError = AlreadySetup | NoMorePlayers | NotGenesisEnvelope | WrongFirstMessage

type_synonym PlayerEnvelope = "ParticipantAction GenericEnvelope"

datatype GameStartingState =
  AddingPlayers "PlayerEnvelope list"
| WaitingForSetup "PlayerEnvelope list"
| Setup "PlayerEnvelope list" GameSetup

text \<open>\<open>alloc_id\<close> tells allocations apart, for the weak references; the duration is in minutes.\<close>

record Metadata =
  alloc_id :: nat
  starting_state :: GameStartingState
  code :: JoinCode
  admin :: JoinCode
  duration_minutes :: nat

text \<open>Only \<open>states\<close> keeps a game alive; \<open>by_time\<close> holds weak references, oldest first.\<close>

record NewGameDB =
  states :: "(JoinCode \<times> Metadata) list"
  by_time :: "nat list"
  allocations :: nat

definition new_game_db :: NewGameDB where
  "new_game_db = \<lparr>states = [], by_time = [], allocations = 0\<rparr>"

definition upgrade :: "nat \<Rightarrow> NewGameDB \<Rightarrow> Metadata option" where
  "upgrade i db = find (\<lambda>m. alloc_id m = i) (map snd (states db))"

text \<open>\<open>capacity\<close> is that of the queue, at least the 1000 asked for.\<close>

definition add_new_game ::
  "nat \<Rightarrow> JoinCode \<Rightarrow> JoinCode \<Rightarrow> nat \<Rightarrow> NewGameDB \<Rightarrow> (JoinCode \<times> JoinCode) \<times> NewGameDB" where
  "add_new_game capacity new_admin new_code minutes db =
     (let m = \<lparr>alloc_id = allocations db, starting_state = AddingPlayers [], code = new_code, admin = new_admin,
            duration_minutes = minutes\<rparr>;
          full = (capacity = length (by_time db));
          states1 = (if full
            then (case by_time db of
                [] \<Rightarrow> states db
              | i # _ \<Rightarrow> (case upgrade i db of None \<Rightarrow> states db | Some r \<Rightarrow> filter (\<lambda>(k, _). k \<noteq> code r) (states db)))
            else states db);
          by_time1 = (if full then tl (by_time db) else by_time db)
      in ((new_admin, new_code),
          \<lparr>states = AList.update new_code m states1, by_time = by_time1 @ [alloc_id m], allocations = Suc (allocations db)\<rparr>))"

definition max_players :: nat where "max_players = 10"

definition add_player ::
  "ParticipantAction Crypto \<Rightarrow> PlayerEnvelope \<Rightarrow> GameStartingState \<Rightarrow> (AddPlayerError + unit) \<times> GameStartingState" where
  "add_player c p st =
     (if get_genesis_hash c p \<noteq> canonicalized_hash_ref c p then (Inl NotGenesisEnvelope, st)
      else if \<not> (case msg p of MoveAction me \<Rightarrow> move_d me = Heartbeat | _ \<Rightarrow> False) then (Inl WrongFirstMessage, st)
      else case st of
        AddingPlayers v \<Rightarrow>
          (let v' = v @ [p] in
           if length v' = max_players then (Inr (), WaitingForSetup v') else (Inr (), AddingPlayers v'))
      | Setup _ _ \<Rightarrow> (Inl AlreadySetup, st)
      | WaitingForSetup _ \<Rightarrow> (Inl NoMorePlayers, st))"

text \<open>A key is its text.\<close>

definition finalize_setup :: "nat \<Rightarrow> u64 \<Rightarrow> GameStartingState \<Rightarrow> (AddPlayerError + unit) \<times> GameStartingState" where
  "finalize_setup minutes amount st =
     (let setup = (\<lambda>v. (Inr (), Setup v \<lparr>players = map (\<lambda>p. hdr_key (header p)) v, start_amount = amount,
            setup_finish_time = minutes * 60 * 1000\<rparr>)) in
      case st of
        AddingPlayers v \<Rightarrow> setup v
      | WaitingForSetup v \<Rightarrow> setup v
      | Setup _ _ \<Rightarrow> (Inl AlreadySetup, st))"

section \<open>The host\<close>

record 'j GameHost =
  lobby :: NewGameDB
  host_db :: "'j MsgDB"
  evlog :: "'j EventLog"

datatype HttpError =
  DurationTooLong | PlayerError AddPlayerError | NoSuchGame | WrongPasscode | GameNotInCorrectState
| EnvelopeError AuthenticationError | DatabasePanic | ChainError | SapioArgsError | FundingError string
| LogFailed | KeyAlreadyInserted | NoSuchGroupName | TaskPanic

record NewGame =
  password :: JoinCode
  join :: JoinCode

definition create_new_game_instance ::
  "nat \<Rightarrow> JoinCode \<Rightarrow> JoinCode \<Rightarrow> nat \<Rightarrow> 'j GameHost \<Rightarrow> (HttpError + NewGame) \<times> 'j GameHost" where
  "create_new_game_instance capacity new_admin new_code minutes h =
     (if 300 < minutes then (Inl DurationTooLong, h)
      else case add_new_game capacity new_admin new_code minutes (lobby h) of
        ((a, k), db) \<Rightarrow> (Inr \<lparr>password = a, join = k\<rparr>, h\<lparr>lobby := db\<rparr>))"

definition set_starting_state :: "JoinCode \<Rightarrow> GameStartingState \<Rightarrow> NewGameDB \<Rightarrow> NewGameDB" where
  "set_starting_state k st db =
     db\<lparr>states := map (\<lambda>(k', m). if k' = k then (k', m\<lparr>starting_state := st\<rparr>) else (k', m)) (states db)\<rparr>"

text \<open>A code that is not known is answered as if the player had been added.\<close>

definition add_player_route ::
  "ParticipantAction Crypto \<Rightarrow> JoinCode \<Rightarrow> PlayerEnvelope \<Rightarrow> 'j GameHost \<Rightarrow> (HttpError + unit) \<times> 'j GameHost" where
  "add_player_route c k p h =
     (case map_of (states (lobby h)) k of
        None \<Rightarrow> (Inr (), h)
      | Some m \<Rightarrow>
          (case add_player c p (starting_state m) of
             (r, st) \<Rightarrow> (map_sum PlayerError id r, h\<lparr>lobby := set_starting_state k st (lobby h)\<rparr>)))"

section \<open>The chain of a game\<close>

text \<open>An envelope of a typed message, as the database stores it.\<close>

definition json_envelope :: "('a \<Rightarrow> 'j) \<Rightarrow> 'a GenericEnvelope \<Rightarrow> 'j GenericEnvelope" where
  "json_envelope f e = \<lparr>header = header e, msg = f (msg e), cache = cache e\<rparr>"

definition typed_crypto :: "('a \<Rightarrow> 'j) \<Rightarrow> 'j Crypto \<Rightarrow> 'a Crypto" where
  "typed_crypto f c = \<lparr>canonical_json = (\<lambda>h m. canonical_json c h (f m)), sha256 = sha256 c,
     verify_schnorr = verify_schnorr c, sign_schnorr = sign_schnorr c, public_key = public_key c, from_slice = from_slice c\<rparr>"

record CreatedNewChain =
  sequencer_key :: XOnlyPublicKey
  chain_genesis :: CanonicalEnvelopeHash
  group_name :: string

text \<open>What is drawn or read from the clock for a new chain.\<close>

record ChainDraws =
  draw_keypair :: nat
  draw_nonce :: PrecomittedNonce
  draw_next :: PrecomittedNonce
  draw_time :: int
  draw_name :: string

fun add_members :: "nat \<Rightarrow> CanonicalEnvelopeHash list \<Rightarrow> 'j MsgDB \<Rightarrow> (GroupError + unit) \<times> 'j MsgDB" where
  "add_members g [] db = (Inr (), db)"
| "add_members g (h # hs) db =
     (case add_member_to_chain_commit_group g h db of (Inl e, db1) \<Rightarrow> (Inl e, db1) | (Inr _, db1) \<Rightarrow> add_members g hs db1)"

definition create_new_attestation_chain ::
  "'j Crypto \<Rightarrow> (BroadcastByHost Channelized \<Rightarrow> 'j) \<Rightarrow> (CanonicalEnvelopeHash \<Rightarrow> string) \<Rightarrow> ChainDraws \<Rightarrow>
   CanonicalEnvelopeHash list \<Rightarrow> GameSetup \<Rightarrow> 'j MsgDB \<Rightarrow> (HttpError + CreatedNewChain) \<times> 'j MsgDB" where
  "create_new_attestation_chain c host_json to_hex d members setup db =
     (let ch = typed_crypto host_json c in
      case generate_new_user_keypair ch \<lparr>channel_data = GameSetupByHost setup, channel = ''default''\<rparr>
             (draw_keypair d) (draw_nonce d) (draw_next d) (draw_time d) of
        Inl _ \<Rightarrow> (Inl ChainError, db)
      | Inr (kp, n, e) \<Rightarrow>
          (case self_authenticate ch e of
             Inl _ \<Rightarrow> (Inl ChainError, db)
           | Inr a \<Rightarrow>
               (let key = hdr_key (header e); g = get_genesis_hash ch e in
                case save_keypair (public_key c kp) kp db of
                  (Inl _, db1) \<Rightarrow> (Inl ChainError, db1)
                | (Inr _, db1) \<Rightarrow>
                    (case save_nonce_for_user_by_key c n (public_key c kp) db1 of
                       (Inl _, db2) \<Rightarrow> (Inl ChainError, db2)
                     | (Inr _, db2) \<Rightarrow>
                         (case insert_user_by_genesis_envelope c (draw_time d) (to_hex g) (Authenticated (json_envelope host_json (inner a))) db2 of
                            None \<Rightarrow> (Inl ChainError, db2)
                          | Some (Inl _, db3) \<Rightarrow> (Inl ChainError, db3)
                          | Some (Inr _, db3) \<Rightarrow>
                              (case new_chain_commit_group None (draw_name d) db3 of
                                 (Inl _, db4) \<Rightarrow> (Inl ChainError, db4)
                               | (Inr (name, gid), db4) \<Rightarrow>
                                   (case add_subscriber_to_chain_commit_group gid g db4 of
                                      (Inl _, db5) \<Rightarrow> (Inl ChainError, db5)
                                    | (Inr _, db5) \<Rightarrow>
                                        (case add_members gid members db5 of
                                           (Inl _, db6) \<Rightarrow> (Inl ChainError, db6)
                                         | (Inr _, db6) \<Rightarrow>
                                             (Inr \<lparr>sequencer_key = key, chain_genesis = g, group_name = name\<rparr>, db6)))))))))"

section \<open>Finishing the setup\<close>

text \<open>The players become users named after the game; a constraint that fails is ignored.\<close>

fun insert_players ::
  "'j Crypto \<Rightarrow> (ParticipantAction \<Rightarrow> 'j) \<Rightarrow> (JoinCode \<Rightarrow> string) \<Rightarrow> int \<Rightarrow> JoinCode \<Rightarrow> nat \<Rightarrow> PlayerEnvelope Authenticated list \<Rightarrow>
   'j MsgDB \<Rightarrow> (HttpError + unit) \<times> 'j MsgDB" where
  "insert_players c player_json code_hex now k i [] db = (Inr (), db)"
| "insert_players c player_json code_hex now k i (a # as) db =
     (case insert_user_by_genesis_envelope c now (code_hex k @ ''::'' @ decimal i) (Authenticated (json_envelope player_json (inner a))) db of
        None \<Rightarrow> (Inl DatabasePanic, db)
      | Some (_, db1) \<Rightarrow> insert_players c player_json code_hex now k (Suc i) as db1)"

text \<open>
  What the litigator gets: the module, the arguments, the output that holds the funds and the
  transaction. A repeated module or transaction is no error, repeated arguments or outputs are.
\<close>

definition log_contract ::
  "('j, 'tx) EventCodec \<Rightarrow> int \<Rightarrow> string \<Rightarrow> ('tx \<Rightarrow> string) \<Rightarrow> XOnlyPublicKey \<Rightarrow> 'j CreateArgs \<Rightarrow> 'tx \<Rightarrow> 'j EventLog \<Rightarrow>
   (HttpError + unit) \<times> 'j EventLog" where
  "log_contract x now module_tag txid key args tx l =
     (case (case insert_new_occurrence_group key l of
              (Inr g, l1) \<Rightarrow> (Inr g, l1) | (Inl _, l1) \<Rightarrow> (get_occurrence_group_by_key key l1, l1)) of
        (Inl _, l1) \<Rightarrow> (Inl LogFailed, l1)
      | (Inr g, l1) \<Rightarrow>
          (case insert_tagged x now g (ModuleBytes default_group_key module_tag, Some InitModule) l1 of
             (Inl _, l2) \<Rightarrow> (Inl LogFailed, l2)
           | (Inr _, l2) \<Rightarrow>
               (case insert_tagged x now g (CreateArgsEvent args, Some CreateArgsTag) l2 of
                  (Inl _, l3) \<Rightarrow> (Inl LogFailed, l3)
                | (Inr (Inl _), l3) \<Rightarrow> (Inl KeyAlreadyInserted, l3)
                | (Inr (Inr _), l3) \<Rightarrow>
                    (case insert_tagged x now g (Rebind (txid tx, 0), Some FirstBind) l3 of
                       (Inl _, l4) \<Rightarrow> (Inl LogFailed, l4)
                     | (Inr (Inl _), l4) \<Rightarrow> (Inl KeyAlreadyInserted, l4)
                     | (Inr (Inr _), l4) \<Rightarrow>
                         (case insert_tagged x now g (TransactionFinalized ''default'' tx, Some (ScopedValue key ''funding_tx'')) l4 of
                            (Inl _, l5) \<Rightarrow> (Inl LogFailed, l5)
                          | (Inr _, l5) \<Rightarrow> (Inr (), l5))))))"

text \<open>The libraries that \<open>finish_setup\<close> uses.\<close>

record ('j, 'tx) HostEnv =
  env_crypto :: "'j Crypto"
  player_json :: "ParticipantAction \<Rightarrow> 'j"
  host_json :: "BroadcastByHost Channelized \<Rightarrow> 'j"
  hash_hex :: "CanonicalEnvelopeHash \<Rightarrow> string"
  code_hex :: "JoinCode \<Rightarrow> string"
  key_of_text :: "string \<Rightarrow> string + XOnlyPublicKey"
  fund :: "ContractArgs \<Rightarrow> string + 'tx"
  txid_of :: "'tx \<Rightarrow> string"
  codec :: "('j, 'tx) EventCodec"
  host_module_tag :: string

definition player_crypto :: "('j, 'tx) HostEnv \<Rightarrow> ParticipantAction Crypto" where
  "player_crypto v = typed_crypto (player_json v) (env_crypto v)"

text \<open>The game is marked as set up before its envelopes are checked.\<close>

definition finish_setup ::
  "('j, 'tx) HostEnv \<Rightarrow> ChainDraws \<Rightarrow> JoinCode \<Rightarrow> JoinCode \<Rightarrow> u64 \<Rightarrow> 'j GameHost \<Rightarrow> (HttpError + CreatedNewChain) \<times> 'j GameHost" where
  "finish_setup v d passcode k amount h =
     (case map_of (states (lobby h)) k of
        None \<Rightarrow> (Inl NoSuchGame, h)
      | Some m \<Rightarrow>
          (if passcode \<noteq> admin m then (Inl WrongPasscode, h)
           else case finalize_setup (duration_minutes m) amount (starting_state m) of
             (Inl e, _) \<Rightarrow> (Inl (PlayerError e), h)
           | (Inr _, st) \<Rightarrow>
               (let h1 = h\<lparr>lobby := set_starting_state k st (lobby h)\<rparr> in
                case st of
                  Setup envelopes gs \<Rightarrow>
                    (case collect_results (self_authenticate (player_crypto v)) envelopes of
                       Inl e \<Rightarrow> (Inl (EnvelopeError e), h1)
                     | Inr authed \<Rightarrow>
                         (case insert_players (env_crypto v) (player_json v) (code_hex v) (draw_time d) k 0 authed (host_db h1) of
                            (Inl e, db) \<Rightarrow> (Inl e, h1\<lparr>host_db := db\<rparr>)
                          | (Inr _, db) \<Rightarrow>
                              (case create_new_attestation_chain (env_crypto v) (host_json v) (hash_hex v) d
                                      (map (canonicalized_hash_ref (player_crypto v)) envelopes) gs db of
                                 (Inl e, db1) \<Rightarrow> (Inl e, h1\<lparr>host_db := db1\<rparr>)
                               | (Inr b, db1) \<Rightarrow>
                                   (let h2 = h1\<lparr>host_db := db1\<rparr> in
                                    case convert_setup_to_contract_args (key_of_text v) gs (sequencer_key b) of
                                      None \<Rightarrow> (Inl TaskPanic, h2)
                                    | Some (Inl _) \<Rightarrow> (Inl SapioArgsError, h2)
                                    | Some (Inr args) \<Rightarrow>
                                        (case fund v args of
                                           Inl e \<Rightarrow> (Inl (FundingError e), h2)
                                         | Inr tx \<Rightarrow>
                                             (case log_contract (codec v) (draw_time d) (host_module_tag v) (txid_of v) (sequencer_key b)
                                                     \<lparr>contract_args = args, effects = []\<rparr> tx (evlog h2) of
                                                (Inl e, l) \<Rightarrow> (Inl e, h2\<lparr>evlog := l\<rparr>)
                                              | (Inr _, l) \<Rightarrow> (Inr b, h2\<lparr>evlog := l\<rparr>)))))))
                | _ \<Rightarrow> (Inl GameNotInCorrectState, h1))))"

section \<open>Other routes\<close>

definition get_peers :: "'j GameHost \<Rightarrow> Sequencer.Peer list" where
  "get_peers h = map (\<lambda>p. \<lparr>Sequencer.Peer.service_url = PeerInfo.service_url p, port = PeerInfo.port p\<rparr>)
     (get_all_hidden_services (host_db h))"

definition add_new_peer :: "string \<Rightarrow> nat \<Rightarrow> 'j GameHost \<Rightarrow> 'j GameHost" where
  "add_new_peer url prt h = h\<lparr>host_db := upsert_hidden_service url prt (Some True) (Some True) (Some True) (host_db h)\<rparr>"

definition list_groups :: "'j GameHost \<Rightarrow> string list" where
  "list_groups h = map snd (get_all_chain_commit_groups (host_db h))"

definition add_chain_to_group :: "CanonicalEnvelopeHash \<Rightarrow> string \<Rightarrow> 'j GameHost \<Rightarrow> (HttpError + unit) \<times> 'j GameHost" where
  "add_chain_to_group genesis name h =
     (case find (\<lambda>x. snd x = name) (get_all_chain_commit_groups (host_db h)) of
        None \<Rightarrow> (Inl NoSuchGroupName, h)
      | Some (g, _) \<Rightarrow>
          (case add_member_to_chain_commit_group g genesis (host_db h) of
             (r, db) \<Rightarrow> (map_sum (\<lambda>_. ChainError) id r, h\<lparr>host_db := db\<rparr>)))"

end
