(* ===== verification/Lobby_Laws.thy ===== *)
theory Lobby_Laws
  imports Lobby Setup_Laws
begin

text \<open>
  The lobby of the host: which games it keeps, that a game it sets up can be played and settled, and
  what one envelope that does not authenticate does to a game.
\<close>

section \<open>Which games are kept\<close>

text \<open>The lobbies of a host whose join codes do not repeat.\<close>

inductive lobby_run :: "nat \<Rightarrow> NewGameDB \<Rightarrow> bool" for capacity where
  start: "lobby_run capacity new_game_db"
| game: "lobby_run capacity db \<Longrightarrow> k \<notin> fst ` set (states db) \<Longrightarrow> lobby_run capacity (snd (add_new_game capacity a k minutes db))"
| player: "lobby_run capacity db \<Longrightarrow> lobby_run capacity (set_starting_state k st db)"

definition lobby_ok :: "nat \<Rightarrow> NewGameDB \<Rightarrow> bool" where
  "lobby_ok capacity db =
     (by_time db = [allocations db - capacity..<allocations db] \<and> distinct (map fst (states db)) \<and>
      distinct (map (alloc_id \<circ> snd) (states db)) \<and> set (map (alloc_id \<circ> snd) (states db)) = set (by_time db) \<and>
      list_all (\<lambda>(k, m). code m = k) (states db))"

lemma find_SomeD: "find P xs = Some x \<Longrightarrow> x \<in> set xs \<and> P x"
  by (auto simp: find_Some_iff)

lemma update_new: "k \<notin> fst ` set al \<Longrightarrow> AList.update k v al = al @ [(k, v)]"
  by (induction al) auto

lemma upt_next: "[Suc n - c..<Suc n] = (if n < c then [n - c..<n] @ [n] else if c = 0 then [] else tl [n - c..<n] @ [n])"
  by (auto simp: Suc_diff_le not_less)

lemma lobby_ok_add:
  assumes ok: "lobby_ok capacity db" and c: "0 < capacity" and k: "k \<notin> fst ` set (states db)"
  shows "lobby_ok capacity (snd (add_new_game capacity a k minutes db))"
proof -
  let ?n = "allocations db"
  have b: "by_time db = [?n - capacity..<?n]" and d: "distinct (map fst (states db))" "distinct (map (alloc_id \<circ> snd) (states db))"
    and ids: "set (map (alloc_id \<circ> snd) (states db)) = set [?n - capacity..<?n]"
    and codes: "\<And>k m. (k, m) \<in> set (states db) \<Longrightarrow> code m = k"
    using ok by (auto simp: lobby_ok_def list_all_iff)
  define m where "m = \<lparr>alloc_id = ?n, starting_state = AddingPlayers [], code = k, admin = a, duration_minutes = minutes\<rparr>"
  define st where "st = (if capacity = length (by_time db) then (case by_time db of
      [] \<Rightarrow> states db
    | i # _ \<Rightarrow> (case upgrade i db of None \<Rightarrow> states db | Some r \<Rightarrow> filter (\<lambda>(k, _). k \<noteq> code r) (states db))) else states db)"
  have e: "snd (add_new_game capacity a k minutes db) = \<lparr>states = AList.update k m st,
      by_time = (if capacity = length (by_time db) then tl (by_time db) else by_time db) @ [?n], allocations = Suc ?n\<rparr>"
    by (simp only: add_new_game_def Let_def m_def st_def snd_conv) simp
  have full: "(capacity = length (by_time db)) = (capacity \<le> ?n)" using c by (simp add: b) linarith
  have sub: "set st \<subseteq> set (states db)" "distinct (map fst st)" "distinct (map (alloc_id \<circ> snd) st)"
    using d by (auto simp: st_def distinct_map_filter split: list.splits option.splits)
  have st_ids: "set (map (alloc_id \<circ> snd) st) = set (if capacity \<le> ?n then tl [?n - capacity..<?n] else [?n - capacity..<?n])"
  proof (cases "capacity \<le> ?n")
    case False
    then have "st = states db" by (simp add: st_def full)
    with ids False show ?thesis by simp
  next
    case True
    let ?i = "?n - capacity"
    have bt: "by_time db = ?i # [Suc ?i..<?n]" using True c by (simp add: b upt_conv_Cons)
    have "?i \<in> set (map (alloc_id \<circ> snd) (states db))" unfolding ids using True c by simp
    then obtain km where "km \<in> set (states db)" "alloc_id (snd km) = ?i" by auto
    then have "upgrade ?i db \<noteq> None" by (auto simp: upgrade_def find_None_iff)
    then obtain r where r: "upgrade ?i db = Some r" by blast
    then have "r \<in> snd ` set (states db)" "alloc_id r = ?i" unfolding upgrade_def by (auto dest: find_SomeD)
    then obtain k0 where k0: "(k0, r) \<in> set (states db)" "alloc_id r = ?i" by auto
    then have cr: "code r = k0" using codes by blast
    have s: "st = filter (\<lambda>(k, _). k \<noteq> k0) (states db)" using True full bt r cr by (simp add: st_def)
    have "(alloc_id (snd y) \<noteq> ?i) = (fst y \<noteq> k0)" if y: "y \<in> set (states db)" for y
    proof
      assume "alloc_id (snd y) \<noteq> ?i"
      then show "fst y \<noteq> k0" using eq_key_imp_eq_value [OF d(1), of "fst y" "snd y" r] y k0 by auto
    next
      assume "fst y \<noteq> k0"
      show "alloc_id (snd y) \<noteq> ?i"
      proof
        assume "alloc_id (snd y) = ?i"
        then have "y = (k0, r)" using y k0 d(2) by (auto simp: distinct_map inj_on_def)
        with \<open>fst y \<noteq> k0\<close> show False by simp
      qed
    qed
    then have "set (map (alloc_id \<circ> snd) st) = set (map (alloc_id \<circ> snd) (states db)) - {?i}"
      unfolding s by (auto simp: image_iff)
    also have "\<dots> = set (tl [?n - capacity..<?n])" unfolding ids using bt b by auto
    finally show ?thesis using True by simp
  qed
  have kst: "k \<notin> fst ` set st" using sub(1) k by blast
  have nn: "?n \<notin> set (map (alloc_id \<circ> snd) st)"
    unfolding st_ids by (simp add: tl_upt)
  have "code m' = k'" if "(k', m') \<in> set st" for k' m' using that sub(1) codes by blast
  then have "list_all (\<lambda>(k, m). code m = k) (st @ [(k, m)])" by (auto simp: list_all_iff m_def)
  moreover have "(if capacity = length (by_time db) then tl (by_time db) else by_time db) @ [?n] = [Suc ?n - capacity..<Suc ?n]"
    using c unfolding full b upt_next by simp
  ultimately show ?thesis
    using sub kst nn st_ids c unfolding e lobby_ok_def update_new [OF kst] full b
    by (auto simp: m_def comp_def)
qed

lemma lobby_ok_set: "lobby_ok capacity (set_starting_state k st db) = lobby_ok capacity db"
proof -
  have e: "map fst (states (set_starting_state k st db)) = map fst (states db)"
    "map (alloc_id \<circ> snd) (states (set_starting_state k st db)) = map (alloc_id \<circ> snd) (states db)"
    "by_time (set_starting_state k st db) = by_time db" "allocations (set_starting_state k st db) = allocations db"
    "list_all (\<lambda>(k, m). code m = k) (states (set_starting_state k st db)) = list_all (\<lambda>(k, m). code m = k) (states db)"
    by (auto simp: set_starting_state_def list_all_iff split: prod.splits if_splits)
  show ?thesis by (simp only: lobby_ok_def e)
qed

lemma lobby_run_ok: "lobby_run capacity db \<Longrightarrow> 0 < capacity \<Longrightarrow> lobby_ok capacity db"
proof (induction rule: lobby_run.induct)
  case start
  show ?case by (simp add: lobby_ok_def new_game_db_def)
qed (simp_all add: lobby_ok_add lobby_ok_set)

text \<open>C29: The lobby keeps exactly the latest games. When join codes do not repeat, the games that can be
  joined are those of the last capacity ones that were made, each under its own code, so there are never
  more than the queue has room for, and no game is dropped earlier.\<close>

theorem lobby_keeps_latest:
  assumes "lobby_run capacity db" and "0 < capacity"
  shows "alloc_id ` snd ` set (states db) = {allocations db - capacity..<allocations db} \<and>
    length (states db) = min capacity (allocations db) \<and>
    list_all (\<lambda>(k, m). code m = k \<and> map_of (states db) k = Some m) (states db)"
proof -
  have ok: "by_time db = [allocations db - capacity..<allocations db]" "distinct (map fst (states db))"
    "distinct (map (alloc_id \<circ> snd) (states db))" "set (map (alloc_id \<circ> snd) (states db)) = set (by_time db)"
    "list_all (\<lambda>(k, m). code m = k) (states db)"
    using lobby_run_ok [OF assms] by (simp_all add: lobby_ok_def)
  have "length (states db) = card (set (map (alloc_id \<circ> snd) (states db)))" using distinct_card [OF ok(3)] by simp
  also have "\<dots> = min capacity (allocations db)" unfolding ok(4) unfolding ok(1) by simp
  finally show ?thesis using ok by (auto simp: list_all_iff image_image comp_def map_of_is_SomeI)
qed

definition ex_code :: "nat \<Rightarrow> JoinCode" where "ex_code n = JoinCode [n]"

text \<open>A queue for two games, and three of them.\<close>

definition ex_lobby :: NewGameDB where
  "ex_lobby = snd (add_new_game 2 (ex_code 9) (ex_code 3) 30 (snd (add_new_game 2 (ex_code 8) (ex_code 2) 30
     (snd (add_new_game 2 (ex_code 7) (ex_code 1) 30 new_game_db)))))"

theorem lobby_keeps_latest_witness: "length (states ex_lobby) = 2 \<and> alloc_id ` snd ` set (states ex_lobby) = {1, 2}"
proof -
  have "lobby_run 2 ex_lobby" unfolding ex_lobby_def
    by (intro lobby_run.intros) code_simp+
  from lobby_keeps_latest [OF this] have "length (states ex_lobby) = min 2 (allocations ex_lobby)"
    "alloc_id ` snd ` set (states ex_lobby) = {allocations ex_lobby - 2..<allocations ex_lobby}" by simp_all
  moreover have "allocations ex_lobby = 3" by code_simp
  ultimately show ?thesis by auto
qed

section \<open>Players\<close>

definition first_move :: "PlayerEnvelope \<Rightarrow> bool" where
  "first_move p = (case msg p of MoveAction me \<Rightarrow> move_d me = Heartbeat | _ \<Rightarrow> False)"

text \<open>What a state can hold.\<close>

definition starting_ok :: "ParticipantAction Crypto \<Rightarrow> nat \<Rightarrow> GameStartingState \<Rightarrow> bool" where
  "starting_ok c minutes st =
     (let good = list_all (\<lambda>p. get_genesis_hash c p = canonicalized_hash_ref c p \<and> first_move p) in
      case st of
        AddingPlayers v \<Rightarrow> length v < max_players \<and> good v
      | WaitingForSetup v \<Rightarrow> length v = max_players \<and> good v
      | Setup v gs \<Rightarrow> length v \<le> max_players \<and> good v \<and> players gs = map (\<lambda>p. hdr_key (header p)) v \<and>
          setup_finish_time gs = minutes * 60000)"

text \<open>The states of a game: players are added, and the setup is finalized.\<close>

inductive game_run :: "ParticipantAction Crypto \<Rightarrow> nat \<Rightarrow> GameStartingState \<Rightarrow> bool" for c minutes where
  start: "game_run c minutes (AddingPlayers [])"
| add: "game_run c minutes st \<Longrightarrow> game_run c minutes (snd (add_player c p st))"
| finalize: "game_run c minutes st \<Longrightarrow> game_run c minutes (snd (finalize_setup minutes amount st))"

lemma game_run_ok: "game_run c minutes st \<Longrightarrow> starting_ok c minutes st"
proof (induction rule: game_run.induct)
  case start
  show ?case by (simp add: starting_ok_def max_players_def)
next
  case (add st p)
  then show ?case by (cases st) (auto simp: add_player_def starting_ok_def Let_def first_move_def)
next
  case (finalize st amount)
  then show ?case by (cases st) (auto simp: finalize_setup_def starting_ok_def Let_def)
qed

lemma bt_keys_Nil: "bt_keys [] = []"
  by (simp add: bt_keys_def)

lemma shares_keys: "set (bt_keys (fold (\<lambda>k m. bt_put k a m) ks m)) = set (bt_keys m) \<union> set ks"
  by (induction ks arbitrary: m) (auto simp: bt.keys_put)

text \<open>C30: Every game that the lobby sets up can be played and settled. Its players are those whose first
  envelopes were accepted, at most ten, so the setup of the board does not panic and registers exactly
  them, with the finish time that was asked for; and if there is a player, the arguments of the contract
  are made without a panic and name exactly the same players.\<close>

theorem lobby_games_start:
  assumes "game_run c minutes (Setup v gs)" and "start_amount gs < 2 ^ 64" and "\<And>k. from_str k = Inr k"
  shows "(\<exists>g. new_board gs = Some g \<and> board_ok g \<and> keys_ok g (set (map (\<lambda>p. hdr_key (header p)) v)) \<and>
      finish_time g = minutes * 60000) \<and>
    (v \<noteq> [] \<longrightarrow> (\<exists>args. convert_setup_to_contract_args from_str gs key = Some (Inr args) \<and>
      set (bt_keys (kernel_players (arg_kernel args))) = set (map (\<lambda>p. hdr_key (header p)) v) \<and>
      kernel_timeout (arg_kernel args) = minutes * 60000))"
proof -
  have ok: "length v \<le> 10" "players gs = map (\<lambda>p. hdr_key (header p)) v" "setup_finish_time gs = minutes * 60000"
    using game_run_ok [OF assms(1)] by (simp_all add: starting_ok_def max_players_def Let_def)
  have "card (set (players gs)) \<le> length (players gs)" by (rule card_length)
  then have c: "card (set (players gs)) \<le> 10" using ok(1,2) by simp
  have l: "length (players gs) < 2 ^ 60" using ok(1,2) by simp
  have board: "\<exists>g. new_board gs = Some g \<and> board_ok g \<and> keys_ok g (set (map (\<lambda>p. hdr_key (header p)) v)) \<and> finish_time g = minutes * 60000"
    using setup_result [OF assms(2) l] c ok(2,3) by simp
  have cr: "collect_results from_str ks = Inr ks" for ks by (induction ks) (simp_all add: assms(3))
  have "\<exists>args. convert_setup_to_contract_args from_str gs key = Some (Inr args) \<and>
      set (bt_keys (kernel_players (arg_kernel args))) = set (map (\<lambda>p. hdr_key (header p)) v) \<and>
      kernel_timeout (arg_kernel args) = minutes * 60000" if "v \<noteq> []"
    using that ok by (simp add: convert_setup_to_contract_args_def cr shares_keys div_w_def bt_keys_Nil)
  then show ?thesis using board by blast
qed

definition ex_player :: "nat \<Rightarrow> PlayerEnvelope" where
  "ex_player n = \<lparr>header = toy_header\<lparr>hdr_key := toy_public_key n\<rparr>,
     msg = MoveAction \<lparr>move_d = Heartbeat, move_sequence = 0, time_millis = 0\<rparr>, cache = Some (CanonicalEnvelopeHash n)\<rparr>"

definition ex_json :: "ParticipantAction \<Rightarrow> string" where "ex_json a = (case a of Custom t \<Rightarrow> t | _ \<Rightarrow> ''move'')"

definition ex_starting :: GameStartingState where
  "ex_starting = snd (finalize_setup 30 1000 (snd (add_player (typed_crypto ex_json toy_crypto) (ex_player 2)
     (snd (add_player (typed_crypto ex_json toy_crypto) (ex_player 1) (AddingPlayers []))))))"

definition ex_setup :: GameSetup where
  "ex_setup = \<lparr>players = [toy_public_key 1, toy_public_key 2], start_amount = 1000, setup_finish_time = 1800000\<rparr>"

theorem lobby_games_start_witness:
  "\<exists>args. convert_setup_to_contract_args (\<lambda>k. Inr k :: string + XOnlyPublicKey) ex_setup ''oracle'' = Some (Inr args) \<and>
     set (bt_keys (kernel_players (arg_kernel args))) = {toy_public_key 1, toy_public_key 2}"
proof -
  have "ex_starting = Setup [ex_player 1, ex_player 2] ex_setup"
    by (simp add: ex_starting_def add_player_def finalize_setup_def Let_def ex_player_def get_genesis_hash_def
        canonicalized_hash_ref_def toy_header_def max_players_def ex_setup_def)
  moreover have "game_run (typed_crypto ex_json toy_crypto) 30 ex_starting" unfolding ex_starting_def
    by (intro game_run.intros)
  ultimately have r: "game_run (typed_crypto ex_json toy_crypto) 30 (Setup [ex_player 1, ex_player 2] ex_setup)" by simp
  have a: "start_amount ex_setup < 2 ^ 64" by (simp add: ex_setup_def)
  have k: "set (map (\<lambda>p. hdr_key (header p)) [ex_player 1, ex_player 2]) = {toy_public_key 1, toy_public_key 2}"
    by (simp add: ex_player_def)
  show ?thesis
    using lobby_games_start [OF r a, of "\<lambda>k. Inr k" "''oracle''"] unfolding k by blast
qed

section \<open>An envelope that does not authenticate\<close>

lemma set_state_lookup:
  "map_of (states (set_starting_state k st db)) k = map_option (\<lambda>m. m\<lparr>starting_state := st\<rparr>) (map_of (states db) k)"
proof -
  have "map_of (map (\<lambda>(k', m). if k' = k then (k', m\<lparr>starting_state := st\<rparr>) else (k', m)) xs) k =
      map_option (\<lambda>m. m\<lparr>starting_state := st\<rparr>) (map_of xs k)" for xs :: "(JoinCode \<times> Metadata) list"
    by (induction xs) auto
  then show ?thesis by (simp add: set_starting_state_def)
qed

text \<open>Once the passcode is right, a game that could be set up is set up, whatever comes of it.\<close>

lemma finish_lobby:
  assumes "map_of (states (lobby h)) k = Some m" and "admin m = passcode"
    and "finalize_setup (duration_minutes m) amount (starting_state m) = (Inr (), Setup vs gs)"
  shows "lobby (snd (finish_setup v d passcode k amount h)) = set_starting_state k (Setup vs gs) (lobby h)"
proof -
  let ?h = "h\<lparr>lobby := set_starting_state k (Setup vs gs) (lobby h)\<rparr>"
  obtain auth where auth: "collect_results (self_authenticate (player_crypto v)) vs = auth" by simp
  show ?thesis
  proof (cases auth)
    case (Inl e)
    with assms auth show ?thesis by (simp add: finish_setup_def Let_def)
  next
    case a: (Inr authed)
    obtain ir db where i: "insert_players (env_crypto v) (player_json v) (code_hex v) (draw_time d) k 0 authed (host_db h) = (ir, db)"
      by fastforce
    obtain cr db1 where c: "create_new_attestation_chain (env_crypto v) (host_json v) (hash_hex v) d
        (map (canonicalized_hash_ref (player_crypto v)) vs) gs db = (cr, db1)" by fastforce
    show ?thesis
    proof (cases "\<exists>b args tx. ir = Inr () \<and> cr = Inr b \<and>
        convert_setup_to_contract_args (key_of_text v) gs (sequencer_key b) = Some (Inr args) \<and> fund v args = Inr tx")
      case False
      then have "lobby (snd (finish_setup v d passcode k amount h)) = lobby ?h"
        using assms auth a i c by (cases ir; cases cr) (auto simp: finish_setup_def Let_def split: option.splits sum.splits)
      then show ?thesis by simp
    next
      case True
      then obtain b args tx where t: "ir = Inr ()" "cr = Inr b"
        "convert_setup_to_contract_args (key_of_text v) gs (sequencer_key b) = Some (Inr args)" "fund v args = Inr tx" by blast
      obtain lr l where "log_contract (codec v) (draw_time d) (host_module_tag v) (txid_of v) (sequencer_key b)
          \<lparr>contract_args = args, effects = []\<rparr> tx (evlog h) = (lr, l)" by fastforce
      with assms auth a i c t show ?thesis by (cases lr) (simp_all add: finish_setup_def Let_def)
    qed
  qed
qed

lemma finish_marks:
  assumes "map_of (states (lobby h)) k = Some m" and "admin m = passcode"
  shows "\<exists>vs gs. map_of (states (lobby (snd (finish_setup v d passcode k amount h)))) k = Some (m\<lparr>starting_state := Setup vs gs\<rparr>)"
proof (cases "\<exists>vs gs. starting_state m = Setup vs gs")
  case True
  then obtain vs gs where s: "starting_state m = Setup vs gs" by blast
  then have "snd (finish_setup v d passcode k amount h) = h"
    using assms by (simp add: finish_setup_def finalize_setup_def Let_def)
  moreover have "m\<lparr>starting_state := Setup vs gs\<rparr> = m" by (simp flip: s)
  ultimately have "map_of (states (lobby (snd (finish_setup v d passcode k amount h)))) k = Some (m\<lparr>starting_state := Setup vs gs\<rparr>)"
    using assms(1) by simp
  then show ?thesis by blast
next
  case False
  then obtain vs gs where f: "finalize_setup (duration_minutes m) amount (starting_state m) = (Inr (), Setup vs gs)"
    by (cases "starting_state m") (auto simp: finalize_setup_def Let_def)
  have "map_of (states (lobby (snd (finish_setup v d passcode k amount h)))) k = Some (m\<lparr>starting_state := Setup vs gs\<rparr>)"
    unfolding finish_lobby [OF assms f] by (simp add: set_state_lookup assms(1))
  then show ?thesis by blast
qed

lemma set_up_already:
  assumes "map_of (states (lobby h)) k = Some m" and "admin m = passcode" and "starting_state m = Setup vs gs"
  shows "finish_setup v d passcode k amount h = (Inl (PlayerError AlreadySetup), h)"
  using assms by (simp add: finish_setup_def finalize_setup_def Let_def)

text \<open>C31: One player who joins with an envelope that does not authenticate blocks the game for good.
  Joining checks no signature, so his envelope is accepted like any other; the creator's attempt to
  finish the setup marks the game as set up first and then fails at that envelope; every later attempt,
  with whatever amount, fails because the game is set up already, and no game was started.\<close>

theorem bad_player_blocks_the_game:
  assumes "map_of (states (lobby h)) k = Some m" and "starting_state m = AddingPlayers vs" and "length vs < 9"
    and "get_genesis_hash (player_crypto v) p = canonicalized_hash_ref (player_crypto v) p" and "first_move p"
    and "list_all (\<lambda>q. \<exists>a. self_authenticate (player_crypto v) q = Inr a) vs"
    and "self_authenticate (player_crypto v) p = Inl e"
    and "add_player_route (player_crypto v) k p h = (r1, h1)"
    and "finish_setup v d1 (admin m) k amount1 h1 = (r2, h2)"
    and "finish_setup v d2 (admin m) k amount2 h2 = (r3, h3)"
  shows "r1 = Inr () \<and> r2 = Inl (EnvelopeError e) \<and> host_db h2 = host_db h \<and> evlog h2 = evlog h \<and>
    r3 = Inl (PlayerError AlreadySetup) \<and> h3 = h2"
proof -
  have ad: "add_player (player_crypto v) p (AddingPlayers vs) = (Inr (), AddingPlayers (vs @ [p]))"
    using assms(3,4,5) by (simp add: add_player_def first_move_def max_players_def)
  with assms(1,2,8) have h1: "r1 = Inr ()" "h1 = h\<lparr>lobby := set_starting_state k (AddingPlayers (vs @ [p])) (lobby h)\<rparr>"
    by (simp_all add: add_player_route_def)
  let ?m = "m\<lparr>starting_state := AddingPlayers (vs @ [p])\<rparr>"
  have m1: "map_of (states (lobby h1)) k = Some ?m" using assms(1) by (simp add: h1(2) set_state_lookup)
  have "collect_results (self_authenticate (player_crypto v)) (vs @ [p]) = Inl e"
    using assms(6,7) by (induction vs) auto
  then have r2: "r2 = Inl (EnvelopeError e)" "host_db h2 = host_db h1" "evlog h2 = evlog h1"
    using assms(9) m1 by (auto simp: finish_setup_def finalize_setup_def Let_def)
  have "\<exists>us gs. map_of (states (lobby h2)) k = Some (?m\<lparr>starting_state := Setup us gs\<rparr>)"
    using finish_marks [OF m1, of "admin m" v d1 amount1] assms(9) by simp
  then obtain us gs where "map_of (states (lobby h2)) k = Some (?m\<lparr>starting_state := Setup us gs\<rparr>)" by blast
  then have "finish_setup v d2 (admin m) k amount2 h2 = (Inl (PlayerError AlreadySetup), h2)"
    by (rule set_up_already) simp_all
  with h1 r2 assms(10) show ?thesis by simp
qed

text \<open>A signature is on the table for nothing but itself: the player 2 has none.\<close>

definition ex_env :: "(string, unit) HostEnv" where
  "ex_env = \<lparr>env_crypto = toy_crypto, player_json = ex_json, host_json = (\<lambda>_. ''host''), hash_hex = (\<lambda>_. ''h''), code_hex = (\<lambda>_. ''c''),
     key_of_text = Inr, fund = (\<lambda>_. Inr ()), txid_of = (\<lambda>_. ''t''),
     codec = \<lparr>event_json = (\<lambda>_. []), read_event = (\<lambda>_. Inl []), tag_string = (\<lambda>_. []), read_tag = (\<lambda>_. Inl [])\<rparr>,
     host_module_tag = ''m''\<rparr>"

definition ex_host :: "string GameHost" where
  "ex_host = snd (create_new_game_instance 1000 (ex_code 9) (ex_code 1) 30 \<lparr>lobby = new_game_db, host_db = empty_db, evlog = empty_log\<rparr>)"

definition ex_draws :: ChainDraws where
  "ex_draws = \<lparr>draw_keypair = 5, draw_nonce = PrecomittedNonce 6, draw_next = PrecomittedNonce 7, draw_time = 1, draw_name = ''n''\<rparr>"

theorem bad_player_blocks_the_game_witness:
  "fst (finish_setup ex_env ex_draws (ex_code 9) (ex_code 1) 1000
      (snd (finish_setup ex_env ex_draws (ex_code 9) (ex_code 1) 1000
        (snd (add_player_route (player_crypto ex_env) (ex_code 1) (ex_player 2) ex_host))))) = Inl (PlayerError AlreadySetup)"
proof -
  let ?m = "\<lparr>alloc_id = 0, starting_state = AddingPlayers [], code = ex_code 1, admin = ex_code 9, duration_minutes = 30\<rparr>"
  have m: "map_of (states (lobby ex_host)) (ex_code 1) = Some ?m"
    by (simp add: ex_host_def create_new_game_instance_def add_new_game_def new_game_db_def Let_def)
  have g: "get_genesis_hash (player_crypto ex_env) (ex_player 2) = canonicalized_hash_ref (player_crypto ex_env) (ex_player 2)"
    "first_move (ex_player 2)" "self_authenticate (player_crypto ex_env) (ex_player 2) = Inl NoSignature"
    by (simp_all add: get_genesis_hash_def ex_player_def toy_header_def first_move_def self_authenticate_def check_ancestors_def
        envelope_signature_def)
  obtain r1 h1 where a: "add_player_route (player_crypto ex_env) (ex_code 1) (ex_player 2) ex_host = (r1, h1)" by fastforce
  obtain r2 h2 where f: "finish_setup ex_env ex_draws (admin ?m) (ex_code 1) 1000 h1 = (r2, h2)" by fastforce
  obtain r3 h3 where f2: "finish_setup ex_env ex_draws (admin ?m) (ex_code 1) 1000 h2 = (r3, h3)" by fastforce
  have "r3 = Inl (PlayerError AlreadySetup)"
    using bad_player_blocks_the_game [OF m _ _ g(1,2) _ g(3) a f f2] by simp
  with a f f2 show ?thesis by simp
qed

end
