(* ===== verification/Litigator.thy ===== *)
theory Litigator
  imports Litigator_Events Own_Chain Sequencer Lobby
begin

text \<open>
  The event loop of a litigated contract (\<open>common/sapio-litigator/src/litigator_event_log.rs\<close>,
  \<open>ext.rs\<close>, \<open>main.rs\<close>): what each event does to the instance of the contract, and the signing and
  publishing of its transactions. Compiled contracts, modules, JSON schemas and PSBTs are library data:
  what the code uses of them are the fields of \<open>ContractLib\<close>. Texts of errors are left out, and a
  panic is \<open>None\<close>.
\<close>

section \<open>Compiled contracts\<close>

text \<open>
  A continuation point: its path, the filter of its event recompiler, if it has one that parses, and its
  schema.
\<close>

record 'sch ContinuationPoint =
  api_path :: EffectPath
  recompiler_filter :: "EventKey option"
  api_schema :: "'sch option"

text \<open>The templates of a contract are the contracts of their outputs.\<close>

datatype 'sch Compiled = Compiled
  (address: string)
  (continue_apis: "'sch ContinuationPoint list")
  (suggested_txs: "'sch Compiled list list")
  (ctv_to_tx: "'sch Compiled list list")

primrec continuation_points :: "'sch Compiled \<Rightarrow> 'sch ContinuationPoint list" where
  "continuation_points (Compiled a apis sug ctv) =
     apis @ concat (map concat (map (map continuation_points) sug)) @ concat (map concat (map (map continuation_points) ctv))"

record ('j, 'sch, 'mod, 'psbt) ContractLib =
  load_module :: "u8s \<Rightarrow> 'mod option"
  call_module :: "'mod \<Rightarrow> 'j CreateArgs \<Rightarrow> 'sch Compiled option"
  validator :: "'sch \<Rightarrow> ('j \<Rightarrow> bool) option"
  bind_psbt :: "'sch Compiled \<Rightarrow> OutPoint \<Rightarrow> (string \<times> (XOnlyPublicKey \<times> AutBroadcastOptions) list option) list option"
  psbt_of :: "string \<Rightarrow> 'psbt option"
  psbt_text :: "'psbt \<Rightarrow> string"
  sign_psbt :: "nat list \<Rightarrow> 'psbt \<Rightarrow> 'psbt option"
  psbt_txid :: "'psbt \<Rightarrow> string"
  text_hash :: "string \<Rightarrow> string"

section \<open>The state of an instance\<close>

text \<open>What is not loaded yet is an error.\<close>

datatype LitigatorError =
  NoArgsLoaded | NoModuleLoaded | NoCompiledObject | ModuleFailed | FirstRunMustPass | AddressMutated
| LogFailure LogError | NotAModule OccurrenceConversionError | BadPsbt | NoAutoBroadcast | SigningFailed | PublishFailed
| CommitFailed

record ('j, 'sch) Instance =
  bound_to :: "OutPoint option"
  module_bytes :: "u8s option"
  args :: "'j CreateArgs option"
  contract :: "'sch Compiled option"
  event_counter :: u64

definition new_instance :: "('j, 'sch) Instance" where
  "new_instance = \<lparr>bound_to = None, module_bytes = None, args = None, contract = None, event_counter = 0\<rparr>"

definition the_module :: "('j, 'sch, 'mod, 'psbt) ContractLib \<Rightarrow> ('j, 'sch) Instance \<Rightarrow> LitigatorError + 'mod" where
  "the_module lib st = (case module_bytes st of None \<Rightarrow> Inl NoModuleLoaded
     | Some b \<Rightarrow> (case load_module lib b of None \<Rightarrow> Inl ModuleFailed | Some md \<Rightarrow> Inr md))"

section \<open>New information\<close>

definition event_key_filter_hit :: "'sch ContinuationPoint \<Rightarrow> EventKey \<Rightarrow> bool" where
  "event_key_filter_hit api filter_key =
     (case recompiler_filter api of None \<Rightarrow> False | Some f \<Rightarrow> f = filter_key \<or> is_wildcard f)"

definition validate_api :: "('j, 'sch, 'mod, 'psbt) ContractLib \<Rightarrow> 'sch ContinuationPoint \<Rightarrow> 'j \<Rightarrow> bool" where
  "validate_api lib api v =
     (case api_schema api of
        None \<Rightarrow> False
      | Some s \<Rightarrow> (case validator lib s of None \<Rightarrow> False | Some ok \<Rightarrow> ok v))"

text \<open>Recording a value at a path under a key that is new there.\<close>

definition record_effect ::
  "EffectPath \<Rightarrow> string \<Rightarrow> 'j \<Rightarrow> (EffectPath \<times> (string \<times> 'j) list) list \<Rightarrow> (EffectPath \<times> (string \<times> 'j) list) list option" where
  "record_effect path key v eff =
     (let m = (case map_of eff path of None \<Rightarrow> [] | Some m \<Rightarrow> m) in
      if map_of m key \<noteq> None then None else Some (AList.update path (AList.update key v m) eff))"

fun record_effects ::
  "'sch ContinuationPoint list \<Rightarrow> string \<Rightarrow> 'j \<Rightarrow> (EffectPath \<times> (string \<times> 'j) list) list \<Rightarrow> (EffectPath \<times> (string \<times> 'j) list) list option" where
  "record_effects [] key v eff = Some eff"
| "record_effects (api # apis) key v eff = do { eff' \<leftarrow> record_effect (api_path api) key v eff; record_effects apis key v eff' }"

text \<open>A module that rejects the new arguments changes nothing; a changed address is an error.\<close>

definition handle_new_information ::
  "('j, 'sch, 'mod, 'psbt) ContractLib \<Rightarrow> EventKey \<Rightarrow> 'j \<Rightarrow> ('j, 'sch) Instance \<Rightarrow> (LitigatorError + ('j, 'sch) Instance) option" where
  "handle_new_information lib filter_key v st =
     (case args st of
        None \<Rightarrow> Some (Inl NoArgsLoaded)
      | Some a \<Rightarrow>
          (case contract st of
             None \<Rightarrow> Some (Inl NoCompiledObject)
           | Some con \<Rightarrow> do {
               let hits = filter (\<lambda>api. event_key_filter_hit api filter_key \<and> validate_api lib api v) (continuation_points con);
               saved \<leftarrow> record_effects hits (''event'' @ decimal (event_counter st)) v (effects a);
               if hits = [] then Some (Inr st)
               else let a' = a\<lparr>effects := saved\<rparr> in
                 Some (case the_module lib st of
                   Inl e \<Rightarrow> Inl e
                 | Inr md \<Rightarrow>
                     (case call_module lib md a' of
                        None \<Rightarrow> Inr st
                      | Some con' \<Rightarrow>
                          if address con \<noteq> address con' then Inl AddressMutated
                          else Inr (st\<lparr>args := Some a', contract := Some con'\<rparr>)))
             }))"

section \<open>Setting up the contract\<close>

definition handle_rebind :: "OutPoint \<Rightarrow> ('j, 'sch) Instance \<Rightarrow> ('j, 'sch) Instance" where
  "handle_rebind out st = st\<lparr>bound_to := Some out\<rparr>"

definition handle_create_args ::
  "('j, 'sch, 'mod, 'psbt) ContractLib \<Rightarrow> 'j CreateArgs \<Rightarrow> ('j, 'sch) Instance \<Rightarrow> LitigatorError + ('j, 'sch) Instance" where
  "handle_create_args lib a st =
     (case the_module lib st of
        Inl e \<Rightarrow> Inl e
      | Inr md \<Rightarrow>
          (case call_module lib md a of
             None \<Rightarrow> Inl FirstRunMustPass
           | Some con \<Rightarrow> Inr (st\<lparr>contract := Some con, args := Some a\<rparr>)))"

text \<open>The bytes of a module are read now, and loaded when it is called.\<close>

definition handle_module_bytes ::
  "(u8s, 'j) ToOccurrence \<Rightarrow> 'j EventLog \<Rightarrow> string \<Rightarrow> string \<Rightarrow> ('j, 'sch) Instance \<Rightarrow> LitigatorError + ('j, 'sch) Instance" where
  "handle_module_bytes repo l grp tag st =
     (case get_occurrence_group_by_key grp l of
        Inl e \<Rightarrow> Inl (LogFailure e)
      | Inr gid \<Rightarrow>
          (case get_occurrence_for_group_by_tag gid tag l of
             Inl e \<Rightarrow> Inl (LogFailure e)
           | Inr (_, oc) \<Rightarrow>
               (case from_occurrence repo oc of
                  Inl e \<Rightarrow> Inl (NotAModule e)
                | Inr b \<Rightarrow> Inr (st\<lparr>module_bytes := Some b\<rparr>))))"

section \<open>Signing and publishing\<close>

text \<open>The keys of the signers that the template names and that are at hand, in the order of their names.\<close>

definition extract_keys_for_simp ::
  "(XOnlyPublicKey \<times> AutBroadcastOptions) list option \<Rightarrow> (XOnlyPublicKey, nat) btree_map \<Rightarrow> LitigatorError + nat list" where
  "extract_keys_for_simp roles keys =
     (case roles of
        None \<Rightarrow> Inl NoAutoBroadcast
      | Some rs \<Rightarrow> Inr (List.map_filter (\<lambda>(pk, _). bt_get keys pk) (filter (\<lambda>(_, ob). AutBroadcastOptions.sign ob \<and> sign_all ob) rs)))"

definition emit_tag :: "XOnlyPublicKey \<Rightarrow> string \<Rightarrow> Tag" where
  "emit_tag emitter h = ScopedValue ''signed_psbt'' (''emit_by:'' @ emitter @ '':psbt_hash:'' @ h)"

text \<open>
  One signer: the event is entered in the log in a transaction, which is committed when the message is in
  the chain of the signer; an event that is in the log already publishes nothing. A commit that fails
  leaves the log as it was, with the message in the chain. What a signer meets is an argument: whether
  the commit succeeds, and the nonces that are drawn with their times.
\<close>

type_synonym EmitDraw = "bool \<times> (int \<times> PrecomittedNonce) list"

record ('j, 'tx, 'sch, 'mod, 'psbt) LitigatorEnv =
  lit_crypto :: "'j Crypto"
  lit_player_json :: "ParticipantAction \<Rightarrow> 'j"
  lit_codec :: "('j, 'tx) EventCodec"
  contract_lib :: "('j, 'sch, 'mod, 'psbt) ContractLib"
  module_occurrence :: "(u8s, 'j) ToOccurrence"

definition emit_psbt ::
  "('j, 'tx, 'sch, 'mod, 'psbt) LitigatorEnv \<Rightarrow> int \<Rightarrow> EmitDraw \<Rightarrow> nat \<Rightarrow> 'psbt \<Rightarrow> nat \<Rightarrow> 'j EventLog \<times> 'j MsgDB \<Rightarrow>
   (LitigatorError + unit) \<times> 'j EventLog \<times> 'j MsgDB" where
  "emit_psbt v now draws gid spsbt sk s =
     (case s of (l, db) \<Rightarrow>
       let lib = contract_lib v; emitter = public_key (lit_crypto v) sk; txt = psbt_text lib spsbt;
           ev = (EmittedPSBTVia txt emitter, Some (emit_tag emitter (text_hash lib txt))) in
       (case insert_tagged (lit_codec v) now gid ev l of
          (Inl e, _) \<Rightarrow> (Inl (LogFailure e), l, db)
        | (Inr (Inl AlreadyExists), _) \<Rightarrow> (Inr (), l, db)
        | (Inr (Inr _), l') \<Rightarrow>
            (case retry_insert_authenticated_envelope_atomic (lit_crypto v)
                    (lit_player_json v (PsbtSigningCoordination \<lparr>channel_data = txt, channel = psbt_txid lib spsbt\<rparr>))
                    sk None NoTips (snd draws) db of
               None \<Rightarrow> (Inl PublishFailed, l, db)
             | Some (Inl _, db') \<Rightarrow> (Inl PublishFailed, l, db')
             | Some (Inr _, db') \<Rightarrow> (if fst draws then (Inr (), l', db') else (Inl CommitFailed, l, db')))))"

text \<open>All signers are served, one after the other; the first error is reported.\<close>

fun emit_all ::
  "('j, 'tx, 'sch, 'mod, 'psbt) LitigatorEnv \<Rightarrow> int \<Rightarrow> EmitDraw list \<Rightarrow> nat \<Rightarrow> 'psbt \<Rightarrow> nat list \<Rightarrow>
   'j EventLog \<times> 'j MsgDB \<Rightarrow> (LitigatorError + unit) \<times> 'j EventLog \<times> 'j MsgDB" where
  "emit_all v now draws gid spsbt [] s = (Inr (), s)"
| "emit_all v now draws gid spsbt (sk # sks) s =
     (case emit_psbt v now (case draws of [] \<Rightarrow> (True, []) | d # _ \<Rightarrow> d) gid spsbt sk s of
        (r, s1) \<Rightarrow> (case emit_all v now (tl draws) gid spsbt sks s1 of
            (r', s2) \<Rightarrow> (case r of Inl e \<Rightarrow> (Inl e, s2) | Inr _ \<Rightarrow> (r', s2))))"

definition process_psbt_fail_ok ::
  "('j, 'tx, 'sch, 'mod, 'psbt) LitigatorEnv \<Rightarrow> int \<Rightarrow> EmitDraw list \<Rightarrow> (XOnlyPublicKey, nat) btree_map \<Rightarrow>
   string \<times> (XOnlyPublicKey \<times> AutBroadcastOptions) list option \<Rightarrow> nat \<Rightarrow> 'j EventLog \<times> 'j MsgDB \<Rightarrow>
   (LitigatorError + unit) \<times> 'j EventLog \<times> 'j MsgDB" where
  "process_psbt_fail_ok v now draws keys linked gid s =
     (let lib = contract_lib v in
      case psbt_of lib (fst linked) of
        None \<Rightarrow> (Inl BadPsbt, s)
      | Some psbt \<Rightarrow>
          (case extract_keys_for_simp (snd linked) keys of
             Inl e \<Rightarrow> (Inl e, s)
           | Inr skeys \<Rightarrow>
               (case sign_psbt lib skeys psbt of
                  None \<Rightarrow> (Inl SigningFailed, s)
                | Some spsbt \<Rightarrow>
                    (if spsbt = psbt then (Inr (), s)
                     else emit_all v now draws gid spsbt skeys s))))"

text \<open>A PSBT that fails is passed over; without an output, or when it cannot be bound, nothing is done.\<close>

fun process_psbts ::
  "('j, 'tx, 'sch, 'mod, 'psbt) LitigatorEnv \<Rightarrow> int \<Rightarrow> EmitDraw list list \<Rightarrow> (XOnlyPublicKey, nat) btree_map \<Rightarrow>
   (string \<times> (XOnlyPublicKey \<times> AutBroadcastOptions) list option) list \<Rightarrow> nat \<Rightarrow> 'j EventLog \<times> 'j MsgDB \<Rightarrow> 'j EventLog \<times> 'j MsgDB" where
  "process_psbts v now draws keys [] gid s = s"
| "process_psbts v now draws keys (x # xs) gid s =
     process_psbts v now (tl draws) keys xs gid
       (snd (process_psbt_fail_ok v now (case draws of [] \<Rightarrow> [] | d # _ \<Rightarrow> d) keys x gid s))"

definition handle_synthetic_periodic ::
  "('j, 'tx, 'sch, 'mod, 'psbt) LitigatorEnv \<Rightarrow> int \<Rightarrow> EmitDraw list list \<Rightarrow> nat \<Rightarrow> ('j, 'sch) Instance \<Rightarrow>
   'j EventLog \<times> 'j MsgDB \<Rightarrow> (LitigatorError + unit) \<times> 'j EventLog \<times> 'j MsgDB" where
  "handle_synthetic_periodic v now draws gid st s =
     (case bound_to st of
        None \<Rightarrow> (Inr (), s)
      | Some out \<Rightarrow>
          (case contract st of
             None \<Rightarrow> (Inl NoCompiledObject, s)
           | Some con \<Rightarrow>
               (case bind_psbt (contract_lib v) con out of
                  None \<Rightarrow> (Inr (), s)
                | Some txs \<Rightarrow> (Inr (), process_psbts v now draws (get_keymap (snd s)) txs gid s))))"

section \<open>The loop\<close>

text \<open>
  One turn. \<open>recv\<close> gives \<open>None\<close> for ever once the channel is closed, which the loop counts as an event.
  The randomness of the turn is an argument; the outcome is an error that ends the loop, or the next state.
\<close>

definition event_loop_step ::
  "('j, 'tx, 'sch, 'mod, 'psbt) LitigatorEnv \<Rightarrow> int \<Rightarrow> EmitDraw list list \<Rightarrow> nat \<Rightarrow> ('j, 'tx) Event option \<Rightarrow>
   ('j, 'sch) Instance \<times> 'j EventLog \<times> 'j MsgDB \<Rightarrow> (LitigatorError + ('j, 'sch) Instance \<times> 'j EventLog \<times> 'j MsgDB) option" where
  "event_loop_step v now draws gid ev s =
     (case s of (st, l, db) \<Rightarrow> do {
        r \<leftarrow> (case ev of
            None \<Rightarrow> Some (Inr (st, l, db))
          | Some (EmittedPSBTVia _ _) \<Rightarrow> Some (Inr (st, l, db))
          | Some (TransactionFinalized _ _) \<Rightarrow> Some (Inr (st, l, db))
          | Some (SyntheticPeriodicActions _) \<Rightarrow>
              Some (case handle_synthetic_periodic v now draws gid st (l, db) of
                (Inl e, _) \<Rightarrow> Inl e | (Inr _, l', db') \<Rightarrow> Inr (st, l', db'))
          | Some (ModuleBytes grp tag) \<Rightarrow>
              Some (map_sum id (\<lambda>st'. (st', l, db)) (handle_module_bytes (module_occurrence v) l grp tag st))
          | Some (CreateArgsEvent a) \<Rightarrow> Some (map_sum id (\<lambda>st'. (st', l, db)) (handle_create_args (contract_lib v) a st))
          | Some (Rebind out) \<Rightarrow> Some (Inr (handle_rebind out st, l, db))
          | Some (NewRecompileTriggeringObservation x key) \<Rightarrow>
              map_option (map_sum id (\<lambda>st'. (st', l, db))) (handle_new_information (contract_lib v) key x st));
        case r of
          Inl e \<Rightarrow> Some (Inl e)
        | Inr (st', l', db') \<Rightarrow> do { n \<leftarrow> add64 (event_counter st') 1; Some (Inr (st'\<lparr>event_counter := n\<rparr>, l', db')) }
      })"

text \<open>The events that are received, each with the time and the randomness of its turn.\<close>

fun event_loop ::
  "('j, 'tx, 'sch, 'mod, 'psbt) LitigatorEnv \<Rightarrow> nat \<Rightarrow> (int \<times> EmitDraw list list \<times> ('j, 'tx) Event) list \<Rightarrow>
   ('j, 'sch) Instance \<times> 'j EventLog \<times> 'j MsgDB \<Rightarrow> (LitigatorError + ('j, 'sch) Instance \<times> 'j EventLog \<times> 'j MsgDB) option" where
  "event_loop v gid [] s = Some (Inr s)"
| "event_loop v gid ((now, draws, e) # es) s = do {
     r \<leftarrow> event_loop_step v now draws gid (Some e) s;
     case r of Inl er \<Rightarrow> Some (Inl er) | Inr s' \<Rightarrow> event_loop v gid es s'
   }"

end
