(* ===== verification/Extractors.thy ===== *)
theory Extractors
  imports Litigator
begin

text \<open>
  The tasks that feed the event log of a litigated contract
  (\<open>common/sapio-litigator/src/universe/extractors\<close>): the game as it is played, with the snapshot of the
  chain when it ends, PSBTs that become transactions, discovered keys, the passing of time; and the
  scan for new contracts (\<open>main.rs\<close>). Reading JSON as a type may fail; combining PSBTs and verifying
  transactions is library code.
\<close>

section \<open>The game\<close>

datatype SetupError = DatabaseError | NoGenesis | NotGameSetup

definition get_game_setup ::
  "'j Crypto \<Rightarrow> ('j \<Rightarrow> BroadcastByHost Channelized option) \<Rightarrow> XOnlyPublicKey \<Rightarrow> 'j MsgDB \<Rightarrow> SetupError + GameSetup" where
  "get_game_setup c read_host oracle_key db =
     (case get_message_at_height_for_user c oracle_key 0 db of
        None \<Rightarrow> Inl NoGenesis
      | Some a \<Rightarrow>
          (case read_host (msg (inner a)) of
             None \<Rightarrow> Inl DatabaseError
           | Some m \<Rightarrow> (case channel_data m of GameSetupByHost g \<Rightarrow> Inr g | _ \<Rightarrow> Inl NotGameSetup)))"

text \<open>
  \<open>start_game\<close>: the moves are played until the game says that it is finished. The result is the number
  of moves received until then, with the reason.
\<close>

fun start_game :: "(MoveEnvelope \<times> XOnlyPublicKey) list \<Rightarrow> u64 \<Rightarrow> GameBoard \<Rightarrow> ((u64 \<times> FinishReason) option \<times> GameBoard) option" where
  "start_game [] move_count game = Some (None, game)"
| "start_game ((next_move, signed_by) # moves) move_count game = do {
     n \<leftarrow> add64 move_count 1;
     (r, game') \<leftarrow> play next_move signed_by game;
     case r of
       Inl (GameIsFinished f) \<Rightarrow> Some (Some (n, f), game')
     | _ \<Rightarrow> start_game moves n game'
   }"

definition event_for :: "FinishReason \<Rightarrow> EventKey" where
  "event_for r = (case r of TimeExpired \<Rightarrow> ek_game_action_win | DominatingPlayer _ \<Rightarrow> ek_game_action_lose)"

section \<open>The snapshot\<close>

datatype SnapshotError = DatabaseFetchError | SnapshotLogError LogError

text \<open>A row read as an envelope of a type.\<close>

definition typed_envelope :: "('a \<Rightarrow> 'j) \<Rightarrow> ('j \<Rightarrow> 'a option) \<Rightarrow> 'j Crypto \<Rightarrow> 'j GenericEnvelope \<Rightarrow> SnapshotError + 'a GenericEnvelope" where
  "typed_envelope to_json of_json c e =
     (case of_json (msg e) of None \<Rightarrow> Inl DatabaseFetchError
      | Some m \<Rightarrow> Inr (new_envelope (typed_crypto to_json c) (header e) m))"

definition snapshot ::
  "'j Crypto \<Rightarrow> (BroadcastByHost Channelized \<Rightarrow> 'j) \<Rightarrow> ('j \<Rightarrow> BroadcastByHost Channelized option) \<Rightarrow>
   (ParticipantAction \<Rightarrow> 'j) \<Rightarrow> ('j \<Rightarrow> ParticipantAction option) \<Rightarrow> XOnlyPublicKey \<Rightarrow> 'j MsgDB \<Rightarrow>
   SnapshotError + ParticipantAction UnauthenticatedRawSequencer" where
  "snapshot c write_host read_host write_player read_player oracle_key db =
     (case collect_results (typed_envelope write_host read_host c \<circ> inner)
             (load_all_messages_for_user_by_key_connected c oracle_key db) of
        Inl e \<Rightarrow> Inl e
      | Inr es \<Rightarrow>
          (case messages_by_hash c (concat (map (\<lambda>m. case channel_data (msg m) of Sequence d \<Rightarrow> d | _ \<Rightarrow> []) es)) db of
             Inl _ \<Rightarrow> Inl DatabaseFetchError
           | Inr ms \<Rightarrow>
               (case collect_results (typed_envelope write_player read_player c \<circ> inner) ms of
                  Inl e \<Rightarrow> Inl e
                | Inr ps \<Rightarrow> Inr \<lparr>unauth_envelopes = es,
                    unauth_cache = fold (\<lambda>p m. hm_insert (canonicalized_hash_ref (typed_crypto write_player c) p) p m) ps []\<rparr>)))"

text \<open>A value that cannot be written as JSON enters nothing.\<close>

definition make_snapshot ::
  "('j, 'tx) EventCodec \<Rightarrow> (ParticipantAction UnauthenticatedRawSequencer \<Rightarrow> 'j option) \<Rightarrow> int \<Rightarrow> nat \<Rightarrow> u64 \<Rightarrow> EventKey \<Rightarrow>
   SnapshotError + ParticipantAction UnauthenticatedRawSequencer \<Rightarrow> 'j EventLog \<Rightarrow> (SnapshotError + unit) \<times> 'j EventLog" where
  "make_snapshot x raw_json now gid move_count key snap l =
     (case snap of
        Inl e \<Rightarrow> (Inl e, l)
      | Inr v \<Rightarrow>
          (case raw_json v of
             None \<Rightarrow> (Inr (), l)
           | Some j \<Rightarrow>
               (case insert_tagged x now gid (NewRecompileTriggeringObservation j key,
                     Some (ScopedCounter ''game_move'' move_count)) l of
                  (Inl e, l') \<Rightarrow> (Inl (SnapshotLogError e), l')
                | (Inr _, l') \<Rightarrow> (Inr (), l'))))"

section \<open>PSBTs\<close>

record ('psbt, 'tx) PsbtTools =
  combine :: "'psbt \<Rightarrow> 'psbt \<Rightarrow> 'psbt option"
  extract_tx :: "'psbt \<Rightarrow> 'tx"
  verifies :: "'tx \<Rightarrow> bool"

record 'psbt PsbtState =
  psbts :: "(string \<times> 'psbt list) list"
  psbt_counter :: u64

definition new_psbts :: "'psbt PsbtState" where
  "new_psbts = \<lparr>psbts = [], psbt_counter = 0\<rparr>"

text \<open>Everything that combines; what does not combine is passed over.\<close>

definition merge_psbts :: "('psbt, 'tx) PsbtTools \<Rightarrow> 'psbt list \<Rightarrow> 'psbt option" where
  "merge_psbts t ps = fold (\<lambda>new acc. case acc of
       Some a \<Rightarrow> (case combine t a new of Some a' \<Rightarrow> Some a' | None \<Rightarrow> acc)
     | None \<Rightarrow> Some new) ps None"

definition handle_psbt ::
  "('j, 'tx) EventCodec \<Rightarrow> ('psbt, 'tx) PsbtTools \<Rightarrow> int \<Rightarrow> nat \<Rightarrow> 'psbt \<times> string \<Rightarrow> 'psbt PsbtState \<times> 'j EventLog \<Rightarrow>
   ((LogError + unit) \<times> 'psbt PsbtState \<times> 'j EventLog) option" where
  "handle_psbt x t now gid m s =
     (case m of (psbt, name) \<Rightarrow> case s of (st, l) \<Rightarrow>
       let ps = (case map_of (psbts st) name of None \<Rightarrow> [] | Some v \<Rightarrow> v) @ [psbt];
           st1 = st\<lparr>psbts := AList.update name ps (psbts st)\<rparr> in
       case merge_psbts t ps of
         None \<Rightarrow> Some (Inr (), st1, l)
       | Some merged \<Rightarrow>
           (let tx = extract_tx t merged in
            if \<not> verifies t tx then Some (Inr (), st1, l)
            else do {
              n \<leftarrow> add64 (psbt_counter st1) 1;
              let st2 = st1\<lparr>psbt_counter := n\<rparr>;
              Some (case insert_tagged x now gid (TransactionFinalized name tx, Some (ScopedCounter ''psbts'' n)) l of
                (Inl e, l') \<Rightarrow> (Inl e, st2, l')
              | (Inr _, l') \<Rightarrow> (Inr (), st2, l'))
            }))"

section \<open>Discovered keys and time\<close>

definition dlog_event :: "(nat \<Rightarrow> 'j) \<Rightarrow> (nat \<Rightarrow> string) \<Rightarrow> XOnlyPublicKey \<times> nat \<Rightarrow> ('j, 'tx) TaggedEvent" where
  "dlog_event dlog_json secret_hex f =
     (NewRecompileTriggeringObservation (dlog_json (snd f)) (ek_new_dlog (fst f)), Some (ScopedValue ''dlog'' (secret_hex (snd f))))"

fun insert_found ::
  "('j, 'tx) EventCodec \<Rightarrow> (nat \<Rightarrow> 'j) \<Rightarrow> (nat \<Rightarrow> string) \<Rightarrow> int \<Rightarrow> nat \<Rightarrow> (XOnlyPublicKey \<times> nat) list \<Rightarrow> 'j EventLog \<Rightarrow>
   (LogError + unit) \<times> 'j EventLog" where
  "insert_found x dlog_json secret_hex now gid [] l = (Inr (), l)"
| "insert_found x dlog_json secret_hex now gid (f # fs) l =
     (case insert_tagged x now gid (dlog_event dlog_json secret_hex f) l of
        (Inl e, l') \<Rightarrow> (Inl e, l')
      | (Inr _, l') \<Rightarrow> insert_found x dlog_json secret_hex now gid fs l')"

text \<open>A round of the extractor: the stored messages that reuse nonces, and an event for each new key.\<close>

datatype DlogError = DlogText string | DlogLog LogError

definition dlog_extractor_round ::
  "'j Crypto \<Rightarrow> NonceLib \<Rightarrow> ('j, 'tx) EventCodec \<Rightarrow> (nat \<Rightarrow> 'j) \<Rightarrow> (nat \<Rightarrow> string) \<Rightarrow> int \<Rightarrow> nat \<Rightarrow> XOnlyPublicKey list \<Rightarrow> 'j MsgDB \<Rightarrow>
   'j EventLog \<Rightarrow> (DlogError + XOnlyPublicKey list \<times> 'j EventLog) option" where
  "dlog_extractor_round c n x dlog_json secret_hex now gid known db l = do {
     r \<leftarrow> dlog_round c n known (map (read_body c) (reused_nonce_rows db));
     Some (case r of
       Inl e \<Rightarrow> Inl (DlogText e)
     | Inr (known', found) \<Rightarrow>
         (case insert_found x dlog_json secret_hex now gid found l of
            (Inl e, _) \<Rightarrow> Inl (DlogLog e)
          | (Inr _, l') \<Rightarrow> Inr (known', l')))
   }"

definition time_event :: "('j, 'tx) EventCodec \<Rightarrow> int \<Rightarrow> nat \<Rightarrow> 'j EventLog \<Rightarrow> (LogError + Idempotent + nat) \<times> 'j EventLog" where
  "time_event x now gid l = insert_tagged x now gid (SyntheticPeriodicActions now, None) l"

section \<open>The scan for new contracts\<close>

text \<open>
  The instances with whether their task is there still; a task that has finished is dropped, and its
  instance keeps its place, so it is not started again.
\<close>

definition scan_instances ::
  "(string \<Rightarrow> XOnlyPublicKey option) \<Rightarrow> (XOnlyPublicKey \<Rightarrow> bool) \<Rightarrow> 'j EventLog \<Rightarrow> (XOnlyPublicKey, bool) btree_map \<Rightarrow>
   XOnlyPublicKey list \<times> (XOnlyPublicKey, bool) btree_map" where
  "scan_instances read_key finished l instances =
     (let kept = map (\<lambda>(k, running). (k, running \<and> \<not> finished k)) instances;
          new = filter (\<lambda>k. bt_get kept k = None) (List.map_filter (\<lambda>(_, k). read_key k) (get_all_occurrence_groups l))
      in (new, fold (\<lambda>k m. bt_put k True m) new kept))"

end
