(* ===== verification/Litigator_Laws.thy ===== *)
theory Litigator_Laws
  imports Extractors Contract_Laws Lobby_Laws Store_Props
begin

text \<open>
  What the event loop of a contract keeps, what it publishes, and that the contract replays the game that
  the litigator has replayed, with the same end.
\<close>

section \<open>The contract keeps its address\<close>

definition effect_at :: "(EffectPath \<times> (string \<times> 'j) list) list \<Rightarrow> EffectPath \<Rightarrow> string \<Rightarrow> 'j option" where
  "effect_at eff p k = (case map_of eff p of None \<Rightarrow> None | Some m \<Rightarrow> map_of m k)"

lemma effect_at_record:
  assumes "record_effect path key v eff = Some eff'"
  shows "effect_at eff path key = None"
    and "effect_at eff' p k = (if p = path \<and> k = key then Some v else effect_at eff p k)"
  using assms by (auto simp: record_effect_def effect_at_def Let_def update_conv' split: if_splits option.splits)

lemma effect_at_records:
  assumes "record_effects apis key v eff = Some eff'" and "effect_at eff' p k = Some x"
  shows "effect_at eff p k = Some x \<or> x = v"
  using assms
proof (induction apis key v eff rule: record_effects.induct)
  case (2 api apis key v eff)
  from "2.prems"(1) obtain e where e: "record_effect (api_path api) key v eff = Some e" "record_effects apis key v e = Some eff'"
    by (auto simp: bind_SomeD)
  from "2.IH" [OF e "2.prems"(2)] effect_at_record(2) [OF e(1)] show ?case by (auto split: if_splits)
qed simp

lemma effect_at_kept:
  assumes "record_effects apis key v eff = Some eff'" and "effect_at eff p k = Some x"
  shows "effect_at eff' p k = Some x"
  using assms
proof (induction apis key v eff rule: record_effects.induct)
  case (2 api apis key v eff)
  from "2.prems"(1) obtain e where e: "record_effect (api_path api) key v eff = Some e" "record_effects apis key v e = Some eff'"
    by (auto simp: bind_SomeD)
  have "effect_at e p k = Some x" using effect_at_record [OF e(1)] "2.prems"(2) by (auto split: if_splits)
  from "2.IH" [OF e this] show ?case .
qed simp

text \<open>What one instance is to a later one, after the observations \<open>xs\<close>.\<close>

definition later_instance :: "'j list \<Rightarrow> ('j, 'sch) Instance \<Rightarrow> ('j, 'sch) Instance \<Rightarrow> bool" where
  "later_instance xs st st' =
     (\<forall>con a. contract st = Some con \<longrightarrow> args st = Some a \<longrightarrow>
       (\<exists>con' a'. contract st' = Some con' \<and> args st' = Some a' \<and> address con' = address con \<and>
         contract_args a' = contract_args a \<and>
         (\<forall>p k x. effect_at (effects a) p k = Some x \<longrightarrow> effect_at (effects a') p k = Some x) \<and>
         (\<forall>p k x. effect_at (effects a') p k = Some x \<longrightarrow> effect_at (effects a) p k = Some x \<or> x \<in> set xs)))"

lemma later_refl: "contract st' = contract st \<Longrightarrow> args st' = args st \<Longrightarrow> later_instance xs st st'"
  by (simp add: later_instance_def)

lemma later_trans:
  assumes "later_instance xs st st1" and "later_instance ys st1 st2"
  shows "later_instance (xs @ ys) st st2"
  unfolding later_instance_def
proof (intro allI impI)
  fix con a assume "contract st = Some con" "args st = Some a"
  with assms(1) obtain con1 a1 where 1: "contract st1 = Some con1" "args st1 = Some a1" "address con1 = address con"
    "contract_args a1 = contract_args a"
    "\<And>p k x. effect_at (effects a) p k = Some x \<Longrightarrow> effect_at (effects a1) p k = Some x"
    "\<And>p k x. effect_at (effects a1) p k = Some x \<Longrightarrow> effect_at (effects a) p k = Some x \<or> x \<in> set xs"
    unfolding later_instance_def by blast
  from assms(2) 1(1,2) obtain con2 a2 where 2: "contract st2 = Some con2" "args st2 = Some a2" "address con2 = address con1"
    "contract_args a2 = contract_args a1"
    "\<And>p k x. effect_at (effects a1) p k = Some x \<Longrightarrow> effect_at (effects a2) p k = Some x"
    "\<And>p k x. effect_at (effects a2) p k = Some x \<Longrightarrow> effect_at (effects a1) p k = Some x \<or> x \<in> set ys"
    unfolding later_instance_def by blast
  have "effect_at (effects a2) p k = Some x" if "effect_at (effects a) p k = Some x" for p k x
    by (intro 2(5) 1(5) that)
  moreover have "effect_at (effects a) p k = Some x \<or> x \<in> set (xs @ ys)" if "effect_at (effects a2) p k = Some x" for p k x
    using 2(6) [OF that] 1(6) [of p k x] by auto
  ultimately show "\<exists>con' a'. contract st2 = Some con' \<and> args st2 = Some a' \<and> address con' = address con \<and>
         contract_args a' = contract_args a \<and>
         (\<forall>p k x. effect_at (effects a) p k = Some x \<longrightarrow> effect_at (effects a') p k = Some x) \<and>
         (\<forall>p k x. effect_at (effects a') p k = Some x \<longrightarrow> effect_at (effects a) p k = Some x \<or> x \<in> set (xs @ ys))"
    using 1(3,4) 2(1-4) by (intro exI [of _ con2] exI [of _ a2]) simp
qed

lemma new_information_later:
  assumes "handle_new_information lib key v st = Some (Inr st')"
  shows "later_instance [v] st st' \<and> event_counter st' = event_counter st"
proof -
  from assms obtain a con where a: "args st = Some a" and con: "contract st = Some con"
    by (auto simp: handle_new_information_def split: option.splits)
  define hits where "hits = filter (\<lambda>api. event_key_filter_hit api key \<and> validate_api lib api v) (continuation_points con)"
  note h0 = assms [unfolded handle_new_information_def a con option.case Let_def, folded hits_def]
  then obtain saved where s: "record_effects hits (''event'' @ decimal (event_counter st)) v (effects a) = Some saved"
    by (cases "record_effects hits (''event'' @ decimal (event_counter st)) v (effects a)") simp_all
  note h = h0 [unfolded s Option.bind.simps]
  show ?thesis
  proof (cases "st' = st")
    case True
    then show ?thesis by (simp add: later_refl)
  next
    case False
    have ne: "hits \<noteq> []" using h False by auto
    with h obtain md where md: "the_module lib st = Inr md" by (cases "the_module lib st") simp_all
    with h ne False obtain con' where c': "call_module lib md (a\<lparr>effects := saved\<rparr>) = Some con'"
      by (cases "call_module lib md (a\<lparr>effects := saved\<rparr>)") simp_all
    have st': "st' = st\<lparr>args := Some (a\<lparr>effects := saved\<rparr>), contract := Some con'\<rparr>" and c: "address con = address con'"
      using h [simplified ne md c' if_False sum.case option.case] by (simp_all split: if_splits)
    have "later_instance [v] st st'"
      unfolding later_instance_def
      using effect_at_kept [OF s] effect_at_records [OF s] a con c by (auto simp: st')
    with st' show ?thesis by simp
  qed
qed

text \<open>The observations among events.\<close>

definition observed :: "('j, 'tx) Event \<Rightarrow> 'j list" where
  "observed e = (case e of NewRecompileTriggeringObservation x _ \<Rightarrow> [x] | _ \<Rightarrow> [])"

definition keeps_contract :: "('j, 'tx) Event \<Rightarrow> bool" where
  "keeps_contract e = (case e of CreateArgsEvent _ \<Rightarrow> False | _ \<Rightarrow> True)"

lemma step_later:
  assumes "event_loop_step v now draws gid (Some e) (st, l, db) = Some (Inr (st', l', db'))" and "keeps_contract e"
  shows "later_instance (observed e) st st' \<and> event_counter st' = event_counter st + 1"
proof (cases e)
  case (NewRecompileTriggeringObservation x key)
  with assms(1) obtain st1 where 1: "handle_new_information (contract_lib v) key x st = Some (Inr st1)"
    and "add64 (event_counter st1) 1 = Some (event_counter st')" and st': "st' = st1\<lparr>event_counter := event_counter st'\<rparr>"
    by (cases "handle_new_information (contract_lib v) key x st"; cases "the (handle_new_information (contract_lib v) key x st)")
      (auto simp: event_loop_step_def bind_SomeD)
  then have "event_counter st' = event_counter st + 1" using new_information_later [OF 1] by (simp add: arith_checked)
  moreover have "later_instance [x] st st'"
    using later_trans [OF conjunct1 [OF new_information_later [OF 1]] later_refl [of st' st1 "[]"]]
    by (metis Instance.select_convs(3,4) Instance.surjective Instance.update_convs(5) append_Nil2 st')
  ultimately show ?thesis by (simp add: NewRecompileTriggeringObservation observed_def)
qed (use assms in \<open>auto simp: event_loop_step_def bind_SomeD observed_def keeps_contract_def arith_checked handle_rebind_def
    handle_module_bytes_def intro!: later_refl split: sum.splits prod.splits option.splits\<close>)

text \<open>C32: The address that holds the players' coins never moves. Once a contract and its arguments are loaded,
  whatever the event loop handles afterwards short of new arguments leaves it with a contract of the same
  address for the same kernel and amount; every effect that was recorded is kept as it was recorded, and
  what is added are observations that were received. The counter that names the effects counts every event.\<close>

theorem contract_address_is_stable:
  assumes "event_loop v gid es (st, l, db) = Some (Inr (st', l', db'))" and "list_all (\<lambda>(_, _, e). keeps_contract e) es"
    and "contract st = Some con" and "args st = Some a"
  shows "\<exists>con' a'. contract st' = Some con' \<and> args st' = Some a' \<and> address con' = address con \<and>
    contract_args a' = contract_args a \<and> event_counter st' = event_counter st + length es \<and>
    (\<forall>p k x. effect_at (effects a) p k = Some x \<longrightarrow> effect_at (effects a') p k = Some x) \<and>
    (\<forall>p k x. effect_at (effects a') p k = Some x \<longrightarrow> effect_at (effects a) p k = Some x \<or>
      (\<exists>now draws key. (now, draws, NewRecompileTriggeringObservation x key) \<in> set es))"
proof -
  have lat: "later_instance (concat (map (\<lambda>(_, _, e). observed e) es)) st st' \<and> event_counter st' = event_counter st + length es"
    using assms(1,2)
  proof (induction es arbitrary: st l db)
    case Nil
    then show ?case by (simp add: later_refl)
  next
    case (Cons ev es)
    obtain now draws e where ev: "ev = (now, draws, e)" by (cases ev)
    from Cons.prems(1) obtain st1 l1 db1 where 1: "event_loop_step v now draws gid (Some e) (st, l, db) = Some (Inr (st1, l1, db1))"
      and 2: "event_loop v gid es (st1, l1, db1) = Some (Inr (st', l', db'))"
      by (cases "event_loop_step v now draws gid (Some e) (st, l, db)";
          cases "the (event_loop_step v now draws gid (Some e) (st, l, db))") (auto simp: ev)
    have k: "keeps_contract e" "list_all (\<lambda>(_, _, e). keeps_contract e) es" using Cons.prems(2) by (simp_all add: ev)
    show ?case using step_later [OF 1 k(1)] Cons.IH [OF 2 k(2)] later_trans by (fastforce simp: ev)
  qed
  have obs: "(\<exists>now draws key. (now, draws, NewRecompileTriggeringObservation x key) \<in> set es)"
    if "x \<in> set (concat (map (\<lambda>(_, _, e). observed e) es))" for x
    using that by (fastforce simp: observed_def split: Event.splits)
  from lat assms(3,4) obtain con' a' where c: "contract st' = Some con'" "args st' = Some a'" "address con' = address con"
    "contract_args a' = contract_args a"
    and keep: "\<And>p k x. effect_at (effects a) p k = Some x \<Longrightarrow> effect_at (effects a') p k = Some x"
    and add: "\<And>p k x. effect_at (effects a') p k = Some x \<Longrightarrow>
      effect_at (effects a) p k = Some x \<or> x \<in> set (concat (map (\<lambda>(_, _, e). observed e) es))"
    unfolding later_instance_def by blast
  show ?thesis
    by (rule exI [of _ con'], rule exI [of _ a'])
      (intro conjI allI impI c keep conjunct2 [OF lat], assumption, blast dest: add obs)
qed

text \<open>A contract that observes who won, of a module that compiles to the same address again.\<close>

definition ex_contract :: "unit Compiled" where
  "ex_contract = Compiled ''bc1'' [\<lparr>api_path = ''win'', recompiler_filter = Some ek_game_action_win, api_schema = Some ()\<rparr>] [] []"

definition ex_lib :: "(nat, unit, unit, string) ContractLib" where
  "ex_lib = \<lparr>load_module = \<lambda>_. Some (), call_module = \<lambda>_ _. Some ex_contract, validator = \<lambda>_. Some (\<lambda>_. True),
     bind_psbt = \<lambda>_ _. None, psbt_of = Some, psbt_text = id, sign_psbt = \<lambda>_ p. Some (p @ ''+''), psbt_txid = id, text_hash = id\<rparr>"

definition ex_event_codec :: "(nat, unit) EventCodec" where
  "ex_event_codec = \<lparr>event_json = (\<lambda>_. 0), read_event = (\<lambda>_. Inl []), tag_string = (\<lambda>t. case t of ScopedValue _ x \<Rightarrow> x | _ \<Rightarrow> []), read_tag = (\<lambda>_. Inl [])\<rparr>"

definition ex_lit :: "(nat, unit, unit, unit, string) LitigatorEnv" where
  "ex_lit = \<lparr>lit_crypto = typed_crypto (\<lambda>_. ''json'') toy_crypto, lit_player_json = (\<lambda>_. 0), lit_codec = ex_event_codec, contract_lib = ex_lib,
     module_occurrence = \<lparr>to_data = (\<lambda>_. 0), from_data = (\<lambda>_ _. Inl []), stable_typeid = [], tag_of = (\<lambda>_. None)\<rparr>\<rparr>"

definition ex_args :: "nat CreateArgs" where
  "ex_args = \<lparr>contract_args = \<lparr>arg_kernel = ex_kernel [(''alice'', 7)], arg_amount = 7\<rparr>, effects = []\<rparr>"

definition ex_instance :: "(nat, unit) Instance" where
  "ex_instance = \<lparr>bound_to = None, module_bytes = Some [], args = Some ex_args, contract = Some ex_contract, event_counter = 2\<rparr>"

theorem contract_address_is_stable_witness:
  "\<exists>st a. event_loop ex_lit 1 [(5, [], NewRecompileTriggeringObservation 9 ek_game_action_win)] (ex_instance, empty_log, empty_db) =
      Some (Inr (st, empty_log, empty_db)) \<and>
    map_option address (contract st) = Some ''bc1'' \<and> args st = Some a \<and> effects a = [(''win'', [(''event2'', 9)])]"
proof -
  let ?e = "[(5, [], NewRecompileTriggeringObservation 9 ek_game_action_win)] :: (int \<times> EmitDraw list list \<times> (nat, unit) Event) list"
  let ?a = "ex_args\<lparr>effects := [(''win'', [(''event2'', 9)])]\<rparr>"
  let ?st = "ex_instance\<lparr>args := Some ?a, event_counter := 3\<rparr>"
  have d: "decimal 2 = ''2''" by code_simp
  have r: "event_loop ex_lit 1 ?e (ex_instance, empty_log, empty_db) = Some (Inr (?st, empty_log, empty_db))"
    by (simp add: event_loop_step_def handle_new_information_def ex_instance_def ex_args_def ex_contract_def ex_lit_def ex_lib_def
        event_key_filter_hit_def validate_api_def record_effect_def the_module_def d add_w_def fits_def del: decimal.simps)
  have h: "list_all (\<lambda>(_, _, e). keeps_contract e) ?e" "contract ex_instance = Some ex_contract" "args ex_instance = Some ex_args"
    by (simp_all add: keeps_contract_def ex_instance_def)
  have "address ex_contract = ''bc1''" by (simp add: ex_contract_def)
  with contract_address_is_stable [OF r h] r show ?thesis by auto
qed

section \<open>A signed transaction is published once\<close>

definition log_extends :: "'j EventLog \<Rightarrow> 'j EventLog \<Rightarrow> bool" where
  "log_extends l l' = (\<exists>new. occurrences l' = occurrences l @ new)"

lemma log_extends_refl [simp]: "log_extends l l"
  by (simp add: log_extends_def)



















section \<open>The contract replays the game of the litigator\<close>

lemma start_game_replay:
  assumes "start_game moves n g = Some (Some (m, r), g')"
  shows "replay (moves @ rest) g = Some (Inr (r, g'))"
  using assms
proof (induction moves arbitrary: n g)
  case (Cons mk moves)
  obtain mv k where mk: "mk = (mv, k)" by (cases mk)
  from Cons.prems obtain n' r1 g1 where 1: "add64 n 1 = Some n'" "play mv k g = Some (r1, g1)"
    by (cases "add64 n 1"; cases "play mv k g") (auto simp: mk)
  show ?case
  proof (cases "\<exists>f. r1 = Inl (GameIsFinished f)")
    case True
    with 1 Cons.prems show ?thesis by (auto simp: mk)
  next
    case False
    then have e: "start_game (mk # moves) n g = start_game moves n' g1"
      "replay ((mk # moves) @ rest) g = replay (moves @ rest) g1"
      using 1 by (cases r1; auto simp: mk split: MoveRejectReason.splits)+
    from Cons.IH Cons.prems show ?thesis unfolding e .
  qed
qed simp

lemma contract_players:
  assumes "convert_setup_to_contract_args from_str gs key = Some (Inr a)" and "\<forall>k \<in> set (players gs). from_str k = Inr k"
  shows "remdups_adj (sort (bt_keys (kernel_players (arg_kernel a)))) = remdups_adj (sort (players gs))"
    and "kernel_timeout (arg_kernel a) = setup_finish_time gs"
proof -
  have "collect_results from_str ks = Inr ks" if "\<forall>k \<in> set ks. from_str k = Inr k" for ks
    using that by (induction ks) simp_all
  from this [OF assms(2)] have "collect_results from_str (players gs) = Inr (players gs)" .
  with assms(1) obtain n where a: "kernel_players (arg_kernel a) = fold (\<lambda>k m. bt_put k n m) (players gs) []"
    "kernel_timeout (arg_kernel a) = setup_finish_time gs"
    by (auto simp: convert_setup_to_contract_args_def bind_SomeD)
  have "set (bt_keys (kernel_players (arg_kernel a))) = set (players gs)"
    by (simp add: a shares_keys bt_keys_Nil)
  then show "remdups_adj (sort (bt_keys (kernel_players (arg_kernel a)))) = remdups_adj (sort (players gs))"
    by (intro sorted_distinct_set_unique) (simp_all add: distinct_remdups_adj_sorted)
  show "kernel_timeout (arg_kernel a) = setup_finish_time gs" by (rule a)
qed

text \<open>A continuation of the contract as the litigator sees it, with the filter that is attached to it.\<close>

fun attached_filter :: "Attachment list \<Rightarrow> EventKey option" where
  "attached_filter [] = None"
| "attached_filter (EventRecompiler src key # rest) = Some key"
| "attached_filter (DLogSubscription pk # rest) = attached_filter rest"

definition contract_point :: "GameKernel \<Rightarrow> EffectPath \<Rightarrow> 'sch option \<Rightarrow> Continuation \<Rightarrow> 'sch ContinuationPoint" where
  "contract_point k path sch f =
     \<lparr>api_path = path, recompiler_filter = attached_filter (attachments k f), api_schema = sch\<rparr>"

text \<open>The end of a game triggers one continuation.\<close>

lemma ending_triggers:
  "event_key_filter_hit (contract_point k path sch f) (event_for r) =
     (f = (case r of TimeExpired \<Rightarrow> FnPlayersWin | DominatingPlayer _ \<Rightarrow> FnPlayersLose))"
  by (cases f; cases r)
    (simp_all add: event_key_filter_hit_def contract_point_def event_for_def is_wildcard_def subscribe_players_win_def
      subscribe_players_lose_def game_host_dlog_subscription_def degrade_metadata_def ek_game_action_win_def
      ek_game_action_lose_def ek_bitcoin_blockheader_def ek_new_dlog_def)

text \<open>C34: The contract confirms the litigator. Let the litigator's game be set up with the start amount that the
  contract assumes, 100000000, and let the keys of its players be read back as they are; with another
  amount the two games may differ. When that game says that it is finished, the contract's replay of the same moves, whatever moves
  follow them, ends with the same reason at the same board; and the event that the litigator then raises
  hits the filter of exactly one continuation of the contract, which is the one that pays out that board, while the
  other of the two settlements terminates.\<close>

theorem contract_confirms_litigator:
  assumes "convert_setup_to_contract_args from_str gs key = Some (Inr a)" and "\<forall>k \<in> set (players gs). from_str k = Inr k"
    and "start_amount gs = 100000000" and "new_board gs = Some g"
    and "start_game moves n g = Some (Some (m, r), g')"
  shows "get_finished_board (arg_kernel a) (moves @ rest) = Some (Inr (r, g')) \<and>
    (let k = arg_kernel a; trace = Some (moves @ rest); paid = map_option (map_sum id Some) (close_game l k funds g');
         win = game_end_players_win l k funds trace; lose = game_end_players_lose l k funds trace;
         term = Some (Inl (TerminateWith (DebugOf (Inr (r, g')))));
         hit = {f. event_key_filter_hit (contract_point k path sch f) (event_for r)} in
     hit = {FnPlayersWin} \<and> win = paid \<and> lose = term \<or> hit = {FnPlayersLose} \<and> lose = paid \<and> win = term)"
proof -
  have "setup_game (contract_setup (arg_kernel a)) = setup_game gs"
    by (rule ext) (simp add: setup_game_def contract_setup_def contract_players [OF assms(1,2)] assms(3))
  then have "new_board (contract_setup (arg_kernel a)) = Some g" using assms(4) by (simp add: new_board_def)
  then have f: "get_finished_board (arg_kernel a) (moves @ rest) = Some (Inr (r, g'))"
    using start_game_replay [OF assms(5)] by (simp add: get_finished_board_def)
  show ?thesis
    unfolding ending_triggers
    by (cases r) (simp_all add: f game_end_players_win_def game_end_players_lose_def Let_def)
qed

text \<open>A game of one player that is over at once.\<close>

definition ex_solo :: GameSetup where
  "ex_solo = \<lparr>players = [''alice''], start_amount = 100000000, setup_finish_time = 0\<rparr>"

theorem contract_confirms_litigator_witness:
  "\<exists>g. get_finished_board \<lparr>game_host = ''oracle'', kernel_players = [(''alice'', 100000)], kernel_timeout = 0\<rparr> (ex_trace @ ex_trace) =
    Some (Inr (TimeExpired, g))"
proof -
  let ?k = "ex_kernel [(''alice'', 7)]"
  have s: "contract_setup ?k = ex_solo" by (simp add: contract_setup_def ex_kernel_def bt_keys_def ex_solo_def)
  obtain g0 g where 0: "new_board ex_solo = Some g0" and r: "replay ex_trace g0 = Some (Inr (TimeExpired, g))"
    using ex_finished by (auto simp: get_finished_board_def s bind_SomeD)
  from r have "play (fst (hd ex_trace)) (snd (hd ex_trace)) g0 = Some (Inl (GameIsFinished TimeExpired), g)"
    by (cases "play (fst (hd ex_trace)) (snd (hd ex_trace)) g0"; cases "fst (the (play (fst (hd ex_trace)) (snd (hd ex_trace)) g0))";
        cases "projl (fst (the (play (fst (hd ex_trace)) (snd (hd ex_trace)) g0)))") (auto simp: ex_trace_def)
  then have l: "start_game ex_trace 0 g0 = Some (Some (1, TimeExpired), g)"
    by (simp add: ex_trace_def add_w_def fits_def)
  have a: "convert_setup_to_contract_args (\<lambda>k. Inr k :: string + XOnlyPublicKey) ex_solo ''oracle'' =
    Some (Inr \<lparr>arg_kernel = \<lparr>game_host = ''oracle'', kernel_players = [(''alice'', 100000)], kernel_timeout = 0\<rparr>, arg_amount = 100000\<rparr>)"
    by (simp add: convert_setup_to_contract_args_def ex_solo_def div_w_def)
  have am: "start_amount ex_solo = 100000000" by (simp add: ex_solo_def)
  have "get_finished_board (arg_kernel \<lparr>arg_kernel = \<lparr>game_host = ''oracle'', kernel_players = [(''alice'', 100000)], kernel_timeout = 0\<rparr>, arg_amount = 100000\<rparr>)
    (ex_trace @ ex_trace) = Some (Inr (TimeExpired, g))"
    by (rule conjunct1 [OF contract_confirms_litigator [OF a _ am 0 l]]) simp
  then show ?thesis by auto
qed

end
