(* ===== verification/Attest_Protocol.thy ===== *)
theory Attest_Protocol
  imports Own_Chain
begin

text \<open>
  What two nodes say to each other over a web socket
  (\<open>common/attest/src/attestations/server/protocol.rs\<close> and \<open>protocol/authentication_handshake.rs\<close>): the
  jar of challenges that wait for their secrets, the handshake that ties a socket to a service, and the
  session of requests and responses that follows. What comes from outside is an argument: what the socket
  receives, whether sending works, secrets, times. A channel for one answer is a number. JSON, hex and
  hashes are library code, the fields of \<open>AttestLib\<close>; the texts of errors are left out; a panic is \<open>None\<close>.
\<close>

section \<open>Messages\<close>

type_synonym ServiceUrl = "string \<times> nat"
type_synonym Secret = u8s
type_synonym Challenge = nat

datatype WsMessage = TextMessage string | BinaryMessage | Ping | Pong | CloseMessage

text \<open>What \<open>t_recv\<close> gives: the stream has ended, an error, or a message.\<close>

datatype Recv = StreamEnded | StreamError | Received WsMessage

datatype 'm AttestRequest =
  LatestTips
| SpecificTips "CanonicalEnvelopeHash list"
| Post "'m GenericEnvelope list"

datatype 'm AttestResponse =
  LatestTipsResponse "'m GenericEnvelope list"
| SpecificTipsResponse "'m GenericEnvelope list"
| PostResponse "bool list"

datatype 'm AttestSocketProtocol = Request u64 "'m AttestRequest" | Response u64 "'m AttestResponse"

datatype AttestProtocolError =
  JsonError | SocketError | HostnameUnknown | NonZeroSync | IncorrectMessageOwned | CookieMissMatch | TimedOut
| SocketClosed | FailedToAuthenticate | AlreadyConnected | InvalidSetup | DatabaseError | ResponseTypeIncorrect
| UnrequestedResponse | InvalidChallengeHashString | SelfConnection

definition request_code :: "'m AttestRequest \<Rightarrow> u64" where
  "request_code r = (case r of LatestTips \<Rightarrow> 0 | SpecificTips _ \<Rightarrow> 1 | Post _ \<Rightarrow> 2)"

definition response_code :: "'m AttestResponse \<Rightarrow> u64" where
  "response_code r = (case r of LatestTipsResponse _ \<Rightarrow> 0 | SpecificTipsResponse _ \<Rightarrow> 1 | PostResponse _ \<Rightarrow> 2)"

record 'm AttestLib =
  service_json :: "ServiceUrl \<Rightarrow> string"
  read_service :: "string \<Rightarrow> ServiceUrl option"
  secret_hash :: "Secret \<Rightarrow> Challenge"
  challenge_hex :: "Challenge \<Rightarrow> string"
  read_challenge :: "string \<Rightarrow> Challenge option"
  secret_hex :: "Secret \<Rightarrow> string"
  write_protocol :: "'m AttestSocketProtocol \<Rightarrow> string option"
  read_protocol :: "string \<Rightarrow> 'm AttestSocketProtocol option"

text \<open>What is documented of it: what is written is read back.\<close>

definition attest_lib_ok :: "'m AttestLib \<Rightarrow> bool" where
  "attest_lib_ok lib =
     ((\<forall>s. read_service lib (service_json lib s) = Some s) \<and> (\<forall>h. read_challenge lib (challenge_hex lib h) = Some h) \<and>
      inj (secret_hex lib) \<and> (\<forall>p t. write_protocol lib p = Some t \<longrightarrow> read_protocol lib t = Some p))"

definition only_text :: "WsMessage \<Rightarrow> AttestProtocolError + string" where
  "only_text m = (case m of TextMessage t \<Rightarrow> Inr t | _ \<Rightarrow> Inl IncorrectMessageOwned)"

definition recv_text :: "Recv \<Rightarrow> AttestProtocolError + string" where
  "recv_text r = (case r of StreamEnded \<Rightarrow> Inl SocketClosed | StreamError \<Rightarrow> Inl SocketError | Received m \<Rightarrow> only_text m)"

section \<open>The jar of challenges\<close>

text \<open>A challenge waits with the channel for its secret and the time at which it came.\<close>

record GlobalSocketState =
  cookies :: "(Challenge, nat \<times> int) btree_map"
  resolved :: "(nat \<times> Secret) list"

definition expect_a_cookie :: "int \<Rightarrow> nat \<Rightarrow> Challenge \<Rightarrow> GlobalSocketState \<Rightarrow> GlobalSocketState" where
  "expect_a_cookie now rx h g =
     (let jar = cookies g;
          jar1 = (if 100 < length jar
            then (let fresh = filter (\<lambda>(_, _, t). now - 1000 * 20 < t) jar in if 100 < length fresh then tl fresh else fresh)
            else jar)
      in g\<lparr>cookies := bt_put h (rx, now) jar1\<rparr>)"

definition add_a_cookie :: "'m AttestLib \<Rightarrow> Secret \<Rightarrow> GlobalSocketState \<Rightarrow> GlobalSocketState" where
  "add_a_cookie lib sec g =
     (case bt_get (cookies g) (secret_hash lib sec) of
        None \<Rightarrow> g
      | Some (rx, _) \<Rightarrow> g\<lparr>cookies := bt_del (secret_hash lib sec) (cookies g), resolved := resolved g @ [(rx, sec)]\<rparr>)"

section \<open>The handshake\<close>

datatype Role = Server | Client

text \<open>The hostname of the hidden service, when Tor is used; reading it may fail.\<close>

record NodeConfig =
  tor_hostname :: "ServiceUrl option option"
  attestation_port :: nat

definition get_my_name :: "NodeConfig \<Rightarrow> AttestProtocolError + ServiceUrl" where
  "get_my_name g = (case tor_hostname g of
     Some None \<Rightarrow> Inl HostnameUnknown | Some (Some p) \<Rightarrow> Inr p | None \<Rightarrow> Inr (''127.0.0.1'', attestation_port g))"

definition service_less :: "ServiceUrl \<Rightarrow> ServiceUrl \<Rightarrow> bool" where
  "service_less a b = (fst a < fst b \<or> fst a = fst b \<and> snd a < snd b)"

definition preferred_role :: "NodeConfig \<Rightarrow> ServiceUrl \<Rightarrow> AttestProtocolError + Role" where
  "preferred_role g peer_name =
     (case get_my_name g of
        Inl e \<Rightarrow> Inl e
      | Inr my_name \<Rightarrow>
          (if service_less my_name peer_name then Inr Client
           else if my_name = peer_name then Inl SelfConnection
           else Inr Server))"

text \<open>What a side does besides receiving: it sends a text, or posts a secret to a service.\<close>

datatype HandshakeAct = SendText string | AuthenticateAt ServiceUrl Secret

text \<open>\<open>ok1\<close>: the challenge is sent; \<open>ok2\<close>: the post is answered; \<open>timely\<close>: the answer comes within a minute.\<close>

definition handshake_protocol_server ::
  "'m AttestLib \<Rightarrow> Secret \<Rightarrow> Recv \<Rightarrow> bool \<Rightarrow> Recv \<Rightarrow> bool \<Rightarrow> bool \<Rightarrow> Recv \<Rightarrow>
   (AttestProtocolError + ServiceUrl) \<times> HandshakeAct list" where
  "handshake_protocol_server lib challenge_secret r1 ok1 r2 ok2 timely r3 =
     (case recv_text r1 of
        Inl e \<Rightarrow> (Inl e, [])
      | Inr t \<Rightarrow>
          (case read_service lib t of
             None \<Rightarrow> (Inl JsonError, [])
           | Some s \<Rightarrow>
               (let sent = [SendText (challenge_hex lib (secret_hash lib challenge_secret))] in
                if \<not> ok1 then (Inl SocketClosed, sent)
                else case recv_text r2 of
                  Inl e \<Rightarrow> (Inl e, sent)
                | Inr challenge_ack \<Rightarrow>
                    (if challenge_ack \<noteq> [] then (Inl NonZeroSync, sent)
                     else let posted = sent @ [AuthenticateAt s challenge_secret] in
                       if \<not> ok2 then (Inl FailedToAuthenticate, posted)
                       else if \<not> timely then (Inl TimedOut, posted)
                       else case recv_text r3 of
                         Inl e \<Rightarrow> (Inl e, posted)
                       | Inr c \<Rightarrow> (if c = secret_hex lib challenge_secret then Inr s else Inl CookieMissMatch, posted)))))"

text \<open>
  The client in two parts, before and after it waits for the secret of the challenge; \<open>learned\<close> is what
  comes out of its channel within a minute.
\<close>

definition handshake_client_start ::
  "'m AttestLib \<Rightarrow> NodeConfig \<Rightarrow> bool \<Rightarrow> Recv \<Rightarrow> int \<Rightarrow> nat \<Rightarrow> bool \<Rightarrow> GlobalSocketState \<Rightarrow>
   (AttestProtocolError + Challenge) \<times> HandshakeAct list \<times> GlobalSocketState" where
  "handshake_client_start lib cfg ok1 r1 now rx ok2 g =
     (case get_my_name cfg of
        Inl e \<Rightarrow> (Inl e, [], g)
      | Inr me \<Rightarrow>
          (let sent = [SendText (service_json lib me)] in
           if \<not> ok1 then (Inl SocketClosed, sent, g)
           else case recv_text r1 of
             Inl e \<Rightarrow> (Inl e, sent, g)
           | Inr challenge_hash_string \<Rightarrow>
               (case read_challenge lib challenge_hash_string of
                  None \<Rightarrow> (Inl InvalidChallengeHashString, sent, g)
                | Some h \<Rightarrow>
                    (let g' = expect_a_cookie now rx h g in
                     if \<not> ok2 then (Inl TimedOut, sent @ [SendText []], g') else (Inr h, sent @ [SendText []], g')))))"

definition handshake_client_end :: "'m AttestLib \<Rightarrow> Secret option \<Rightarrow> bool \<Rightarrow> (AttestProtocolError + unit) \<times> HandshakeAct list" where
  "handshake_client_end lib learned ok3 =
     (case learned of
        None \<Rightarrow> (Inl TimedOut, [])
      | Some cookie \<Rightarrow> (if ok3 then Inr () else Inl SocketClosed, [SendText (secret_hex lib cookie)]))"

section \<open>A session\<close>

datatype AnySender = LatestTipsSender nat | SpecificTipsSender nat | PostSender nat

record ResponseRouter =
  router_code :: u64
  router_sender :: AnySender

text \<open>\<open>wire\<close> and \<open>answered\<close> are what the session has sent to the peer and to those who asked.\<close>

record 'm Session =
  defecit :: int
  inflight_requests :: "(u64, ResponseRouter) btree_map"
  seq :: u64
  wire :: "'m AttestSocketProtocol list"
  answered :: "(AnySender \<times> 'm AttestResponse) list"

definition new_session :: "'m Session" where
  "new_session = \<lparr>defecit = 0, inflight_requests = [], seq = 0, wire = [], answered = []\<rparr>"

definition max_message_defecit :: int where "max_message_defecit = 10"

text \<open>The protocol text and the sending of it; \<open>ok\<close> says whether the socket takes it.\<close>

definition send_protocol :: "'m AttestLib \<Rightarrow> bool \<Rightarrow> AttestProtocolError \<Rightarrow> 'm AttestSocketProtocol \<Rightarrow> 'm Session \<Rightarrow> AttestProtocolError + 'm Session" where
  "send_protocol lib ok failure p s =
     (case write_protocol lib p of
        None \<Rightarrow> Inl JsonError
      | Some _ \<Rightarrow> if ok then Inr (s\<lparr>wire := wire s @ [p]\<rparr>) else Inl failure)"

definition handle_internal_request ::
  "'m AttestLib \<Rightarrow> bool \<Rightarrow> 'm AttestRequest \<Rightarrow> AnySender \<Rightarrow> 'm Session \<Rightarrow> AttestProtocolError + 'm Session" where
  "handle_internal_request lib ok req response_chan s =
     send_protocol lib ok SocketError (Request (seq s) req)
       (s\<lparr>inflight_requests := bt_put (seq s) \<lparr>router_code = request_code req, router_sender = response_chan\<rparr> (inflight_requests s),
          defecit := defecit s + 1\<rparr>)"

subsection \<open>Serving requests\<close>

text \<open>Posted envelopes are taken up to the first one that does not authenticate.\<close>

fun authenticated_prefix :: "'m Crypto \<Rightarrow> 'm GenericEnvelope list \<Rightarrow> 'm GenericEnvelope Authenticated list" where
  "authenticated_prefix c [] = []"
| "authenticated_prefix c (e # es) =
     (case self_authenticate c e of Inl _ \<Rightarrow> [] | Inr a \<Rightarrow> a # authenticated_prefix c es)"

fun insert_posted ::
  "'m Crypto \<Rightarrow> int \<Rightarrow> 'm GenericEnvelope Authenticated list \<Rightarrow> 'm MsgDB \<Rightarrow> (bool list \<times> 'm MsgDB) option" where
  "insert_posted c now [] db = Some ([], db)"
| "insert_posted c now (a # as) db = do {
     (r, db1) \<leftarrow> try_insert_authenticated_envelope c now False a db;
     (rest, db2) \<leftarrow> insert_posted c now as db1;
     Some ((case r of Inr _ \<Rightarrow> True | Inl _ \<Rightarrow> False) # rest, db2)
   }"

definition post_envelope ::
  "'m Crypto \<Rightarrow> int \<Rightarrow> 'm GenericEnvelope list \<Rightarrow> 'm MsgDB \<Rightarrow> ('m AttestResponse \<times> 'm MsgDB) option" where
  "post_envelope c now envelopes db = do {
     (outcomes, db') \<leftarrow> insert_posted c now (authenticated_prefix c envelopes) db;
     Some (PostResponse outcomes, db')
   }"

text \<open>A hash that is not stored is a database error.\<close>

definition fetch_specific_tips ::
  "'m Crypto \<Rightarrow> CanonicalEnvelopeHash list \<Rightarrow> 'm MsgDB \<Rightarrow> AttestProtocolError + 'm AttestResponse" where
  "fetch_specific_tips c ts db =
     (case messages_by_hash c (remdups_adj (sort ts)) db of
        Inl _ \<Rightarrow> Inl DatabaseError
      | Inr es \<Rightarrow> Inr (SpecificTipsResponse (map inner es)))"

definition fetch_latest_tips :: "'m Crypto \<Rightarrow> 'm MsgDB \<Rightarrow> 'm AttestResponse" where
  "fetch_latest_tips c db = LatestTipsResponse (map inner (get_tips_for_all_users c db))"

subsection \<open>Messages of the peer\<close>

definition handle_response :: "u64 \<Rightarrow> 'm AttestResponse \<Rightarrow> 'm Session \<Rightarrow> AttestProtocolError + 'm Session" where
  "handle_response n r s =
     (case bt_get (inflight_requests s) n of
        None \<Rightarrow> Inl UnrequestedResponse
      | Some k \<Rightarrow>
          (if response_code r \<noteq> router_code k then Inl ResponseTypeIncorrect
           else let s' = s\<lparr>defecit := defecit s - 1, inflight_requests := bt_del n (inflight_requests s),
                  answered := answered s @ [(router_sender k, r)]\<rparr> in
             (case (router_sender k, r) of
                (LatestTipsSender _, LatestTipsResponse _) \<Rightarrow> Inr s'
              | (PostSender _, PostResponse _) \<Rightarrow> Inr s'
              | (SpecificTipsSender _, SpecificTipsResponse _) \<Rightarrow> Inr s'
              | _ \<Rightarrow> Inl ResponseTypeIncorrect)))"

definition handle_message_from_peer ::
  "'m Crypto \<Rightarrow> 'm AttestLib \<Rightarrow> int \<Rightarrow> bool \<Rightarrow> WsMessage \<Rightarrow> 'm Session \<times> 'm MsgDB \<Rightarrow>
   (AttestProtocolError + 'm Session \<times> 'm MsgDB) option" where
  "handle_message_from_peer c lib now ok m sdb =
     (case sdb of (s, db) \<Rightarrow>
        (case only_text m of
           Inl e \<Rightarrow> Some (Inl e)
         | Inr t \<Rightarrow>
             (case read_protocol lib t of
                None \<Rightarrow> Some (Inl JsonError)
              | Some (Request n LatestTips) \<Rightarrow>
                  Some (map_sum id (\<lambda>s'. (s', db)) (send_protocol lib ok SocketClosed (Response n (fetch_latest_tips c db)) s))
              | Some (Request n (SpecificTips ts)) \<Rightarrow>
                  (case fetch_specific_tips c ts db of
                     Inl e \<Rightarrow> Some (Inl e)
                   | Inr r \<Rightarrow> Some (map_sum id (\<lambda>s'. (s', db)) (send_protocol lib ok SocketClosed (Response n r) s)))
              | Some (Request n (Post envelopes)) \<Rightarrow> do {
                  (r, db') \<leftarrow> post_envelope c now envelopes db;
                  Some (map_sum id (\<lambda>s'. (s', db')) (send_protocol lib ok SocketClosed (Response n r) s))
                }
              | Some (Response n r) \<Rightarrow> Some (map_sum id (\<lambda>s'. (s', db)) (handle_response n r s)))))"

subsection \<open>The loop\<close>

datatype SessionEnd = PeerDisconnected | ProtocolFailed AttestProtocolError

text \<open>What the loop waits for: the peer, or one of its three channels of requests.\<close>

datatype 'm SessionEvent =
  FromPeer Recv
| InternalPost "'m GenericEnvelope list" nat
| InternalSpecificTips "CanonicalEnvelopeHash list" nat
| InternalLatestTips nat

text \<open>Requests of its own are taken while there are fewer than ten without an answer.\<close>

definition event_enabled :: "'m Session \<Rightarrow> 'm SessionEvent \<Rightarrow> bool" where
  "event_enabled s e = (case e of FromPeer _ \<Rightarrow> True | _ \<Rightarrow> defecit s < max_message_defecit)"

definition session_step ::
  "'m Crypto \<Rightarrow> 'm AttestLib \<Rightarrow> int \<Rightarrow> bool \<Rightarrow> 'm SessionEvent \<Rightarrow> 'm Session \<times> 'm MsgDB \<Rightarrow>
   (SessionEnd + 'm Session \<times> 'm MsgDB) option" where
  "session_step c lib now ok e sdb =
     (case sdb of (s0, db) \<Rightarrow> do {
        n \<leftarrow> add64 (seq s0) 1;
        let s = s0\<lparr>seq := n\<rparr>; internal = (\<lambda>req chan. Some (map_sum ProtocolFailed (\<lambda>s'. (s', db)) (handle_internal_request lib ok req chan s))) in
        case e of
          FromPeer (Received m) \<Rightarrow> map_option (map_sum ProtocolFailed id) (handle_message_from_peer c lib now ok m (s, db))
        | FromPeer _ \<Rightarrow> Some (Inl PeerDisconnected)
        | InternalPost es rx \<Rightarrow> internal (Post es) (PostSender rx)
        | InternalSpecificTips ts rx \<Rightarrow> internal (SpecificTips ts) (SpecificTipsSender rx)
        | InternalLatestTips rx \<Rightarrow> internal LatestTips (LatestTipsSender rx)
      })"

end
