(* ===== verification/Attest_Laws.thy ===== *)
theory Attest_Laws
  imports Attest_Protocol "HOL-Library.Multiset"
begin

text \<open>
  The handshake proves that the peer answers at the service that it names, the jar of challenges stays
  small, and a session gives every answer to the one who asked for it.
\<close>

section \<open>The jar of challenges\<close>

lemma set_tl_subset: "set (tl xs) \<subseteq> set xs"
  by (cases xs) auto

text \<open>
  A jar with its history: the challenges that handshakes wait for, each with its channel, and the secrets
  that were posted to the node.
\<close>

inductive jar_run :: "'m AttestLib \<Rightarrow> (nat \<times> Challenge) list \<Rightarrow> Secret list \<Rightarrow> GlobalSocketState \<Rightarrow> bool" for lib where
  start: "jar_run lib [] [] \<lparr>cookies = [], resolved = []\<rparr>"
| expect: "jar_run lib ex ps g \<Longrightarrow> jar_run lib ((rx, h) # ex) ps (expect_a_cookie now rx h g)"
| posted: "jar_run lib ex ps g \<Longrightarrow> jar_run lib ex (sec # ps) (add_a_cookie lib sec g)"

definition jar_ok :: "'m AttestLib \<Rightarrow> (nat \<times> Challenge) list \<Rightarrow> Secret list \<Rightarrow> GlobalSocketState \<Rightarrow> bool" where
  "jar_ok lib ex ps g =
     (length (cookies g) \<le> 101 \<and> (\<forall>(h, rx, t) \<in> set (cookies g). (rx, h) \<in> set ex) \<and>
      (\<forall>(rx, sec) \<in> set (resolved g). sec \<in> set ps \<and> (rx, secret_hash lib sec) \<in> set ex))"

lemma bt_put_bounds: "length (bt_put k v m) \<le> Suc (length m)" "set (bt_put k v m) \<subseteq> insert (k, v) (set m)"
  by (induction m) auto

lemma jar_run_ok: "jar_run lib ex ps g \<Longrightarrow> jar_ok lib ex ps g"
proof (induction rule: jar_run.induct)
  case start
  show ?case by (simp add: jar_ok_def)
next
  case (expect ex ps g rx h now)
  define jar where "jar = (if 100 < length (cookies g)
    then (let fresh = filter (\<lambda>(_, _, t). now - 1000 * 20 < t) (cookies g) in if 100 < length fresh then tl fresh else fresh)
    else cookies g)"
  have e: "expect_a_cookie now rx h g = g\<lparr>cookies := bt_put h (rx, now) jar\<rparr>"
    by (simp add: expect_a_cookie_def jar_def Let_def)
  have l: "length (cookies g) \<le> 101" and c: "\<And>h rx t. (h, rx, t) \<in> set (cookies g) \<Longrightarrow> (rx, h) \<in> set ex"
    using expect.IH by (auto simp: jar_ok_def)
  have "length (filter (\<lambda>(_, _, t). now - 1000 * 20 < t) (cookies g)) \<le> 101"
    using l le_trans [OF length_filter_le] by blast
  then have "length jar \<le> 100" using l by (auto simp: jar_def Let_def)
  then have "length (bt_put h (rx, now) jar) \<le> 101" using bt_put_bounds(1) [of h "(rx, now)" jar] by linarith
  moreover have "set jar \<subseteq> set (cookies g)" by (auto simp: jar_def Let_def split: if_splits dest!: set_mp [OF set_tl_subset])
  ultimately show ?case
    using expect.IH bt_put_bounds(2) [of h "(rx, now)" jar] c unfolding e jar_ok_def by (auto; blast)
next
  case (posted ex ps g sec)
  show ?case
  proof (cases "bt_get (cookies g) (secret_hash lib sec)")
    case None
    with posted.IH show ?thesis by (auto simp: jar_ok_def add_a_cookie_def)
  next
    case (Some v)
    obtain rx t where v: "v = (rx, t)" by (cases v)
    have m: "(secret_hash lib sec, rx, t) \<in> set (cookies g)" using Some v by (simp add: bt_get_def map_of_SomeD)
    have "length (bt_del (secret_hash lib sec) (cookies g)) \<le> 101"
      using posted.IH length_filter_le [of _ "cookies g"] unfolding jar_ok_def bt_del_def by (meson le_trans)
    with posted.IH Some v m show ?thesis by (auto simp: jar_ok_def add_a_cookie_def bt_del_def)
  qed
qed

section \<open>The handshake\<close>

text \<open>What the peer must have sent for the server to accept it as \<open>s\<close>, and what the server does in
  every run: the peer is only ever sent the hash, and the secret goes to the named service only.\<close>

lemma server_accepts:
  "(handshake_protocol_server lib sec r1 ok1 r2 ok2 timely r3 = (Inr s, acts)) =
    ((\<exists>t. r1 = Received (TextMessage t) \<and> read_service lib t = Some s) \<and> ok1 \<and> r2 = Received (TextMessage []) \<and> ok2 \<and> timely \<and>
     r3 = Received (TextMessage (secret_hex lib sec)) \<and>
     acts = [SendText (challenge_hex lib (secret_hash lib sec)), AuthenticateAt s sec])"
  by (auto simp: handshake_protocol_server_def recv_text_def only_text_def Let_def
      split: sum.splits option.splits Recv.splits WsMessage.splits if_splits)

lemma server_acts:
  assumes "handshake_protocol_server lib sec r1 ok1 r2 ok2 timely r3 = (r, acts)" and "x \<in> set acts"
  shows "x = SendText (challenge_hex lib (secret_hash lib sec)) \<or>
    (\<exists>t s. r1 = Received (TextMessage t) \<and> read_service lib t = Some s \<and> x = AuthenticateAt s sec)"
  using assms
  by (auto simp: handshake_protocol_server_def recv_text_def only_text_def Let_def
      split: sum.splits option.splits Recv.splits WsMessage.splits if_splits)

text \<open>C35: Whatever the peer is and does, the server accepts it as a service exactly when the peer's first
  message is a text that names that service, its second an empty text, and its last, in time, the text of the
  server's secret, and the sending of the challenge and the posting of the secret have succeeded. In every run, accepted or not, what the server sends to the peer is the hash of
  the secret only, and the secret itself is posted to the service that the peer has named and to no other. So a peer that is accepted has
  shown a secret that only the named service was given. If moreover its last message was sent by a node's client,
  from what its channel received, then the secret was posted to that very node, and its client was waiting for the
  challenge of this secret. The jar in which a node keeps what it waits for never holds more than 101 challenges. Of the
  library it is assumed that what is written is read back, and that different secrets have different texts.\<close>

theorem handshake_proves_the_service:
  assumes "attest_lib_ok lib" and "handshake_protocol_server lib sec r1 ok1 r2 ok2 timely r3 = (r, acts)"
    and "jar_run lib ex ps g"
  shows "(r = Inr s) =
      ((\<exists>t. r1 = Received (TextMessage t) \<and> read_service lib t = Some s) \<and> ok1 \<and> r2 = Received (TextMessage []) \<and> ok2 \<and>
       timely \<and> r3 = Received (TextMessage (secret_hex lib sec))) \<and>
    (\<forall>x \<in> set acts. x = SendText (challenge_hex lib (secret_hash lib sec)) \<or>
      (\<exists>t s. r1 = Received (TextMessage t) \<and> read_service lib t = Some s \<and> x = AuthenticateAt s sec)) \<and>
    (r = Inr s \<longrightarrow> acts = [SendText (challenge_hex lib (secret_hash lib sec)), AuthenticateAt s sec]) \<and>
    (\<forall>rx sec' ok3 res t. r = Inr s \<and> (rx, sec') \<in> set (resolved g) \<and>
      handshake_client_end lib (Some sec') ok3 = (res, [SendText t]) \<and> r3 = Received (TextMessage t) \<longrightarrow>
      sec' = sec \<and> sec \<in> set ps \<and> (rx, secret_hash lib sec) \<in> set ex) \<and>
    length (cookies g) \<le> 101"
proof -
  note acc = server_accepts [of lib sec r1 ok1 r2 ok2 timely r3 s, unfolded assms(2)]
  have "sec' = sec \<and> sec \<in> set ps \<and> (rx, secret_hash lib sec) \<in> set ex"
    if "r = Inr s" "(rx, sec') \<in> set (resolved g)" "handshake_client_end lib (Some sec') ok3 = (res, [SendText t])"
      "r3 = Received (TextMessage t)" for rx sec' ok3 res t
  proof -
    have "secret_hex lib sec' = secret_hex lib sec"
      using that acc [of acts] by (simp add: handshake_client_end_def)
    then have "sec' = sec" using assms(1) by (simp add: attest_lib_ok_def inj_eq)
    with jar_run_ok [OF assms(3)] that(2) show ?thesis by (auto simp: jar_ok_def)
  qed
  moreover have "(r = Inr s) =
      ((\<exists>t. r1 = Received (TextMessage t) \<and> read_service lib t = Some s) \<and> ok1 \<and> r2 = Received (TextMessage []) \<and> ok2 \<and>
       timely \<and> r3 = Received (TextMessage (secret_hex lib sec)))"
    using acc [of acts] server_accepts [of lib sec r1 ok1 r2 ok2 timely r3 s] assms(2) by auto
  moreover have "length (cookies g) \<le> 101" using jar_run_ok [OF assms(3)] by (simp add: jar_ok_def)
  ultimately show ?thesis using acc [of acts] server_acts [OF assms(2)] by blast
qed

text \<open>A library in which a text is a number of its characters.\<close>

definition ex_attest_lib :: "string AttestLib" where
  "ex_attest_lib = \<lparr>service_json = (\<lambda>s. replicate (snd s) CHR ''p'' @ CHR '':'' # fst s),
     read_service = (\<lambda>t. Some (tl (dropWhile (\<lambda>x. x = CHR ''p'') t), length (takeWhile (\<lambda>x. x = CHR ''p'') t))),
     secret_hash = sum_list, challenge_hex = (\<lambda>n. replicate n CHR ''h''), read_challenge = (\<lambda>t. Some (length t)),
     secret_hex = concat \<circ> map (\<lambda>n. replicate n CHR ''s'' @ [CHR ''.'']),
     write_protocol = (\<lambda>p. None), read_protocol = (\<lambda>t. None)\<rparr>"

lemma ex_hex_inj: "concat (map (\<lambda>n. replicate n CHR ''s'' @ [CHR ''.'']) xs) = concat (map (\<lambda>n. replicate n CHR ''s'' @ [CHR ''.'']) ys) \<Longrightarrow> xs = ys"
proof (induction xs arbitrary: ys)
  case Nil
  then show ?case by (cases ys) auto
next
  case (Cons x xs)
  then obtain y ys' where ys: "ys = y # ys'" by (cases ys) auto
  have len: "length (takeWhile (\<lambda>z. z = CHR ''s'') (replicate n CHR ''s'' @ CHR ''.'' # zs)) = n" for n zs by (induction n) auto
  have "replicate x CHR ''s'' @ CHR ''.'' # concat (map (\<lambda>n. replicate n CHR ''s'' @ [CHR ''.'']) xs) =
    replicate y CHR ''s'' @ CHR ''.'' # concat (map (\<lambda>n. replicate n CHR ''s'' @ [CHR ''.'']) ys')"
    using Cons.prems by (simp add: ys)
  moreover from this have "x = y" by (metis len)
  ultimately show ?case using Cons.IH by (simp add: ys)
qed

lemma ex_attest_lib_ok: "attest_lib_ok ex_attest_lib"
proof -
  have "takeWhile (\<lambda>x. x = CHR ''p'') (replicate n CHR ''p'' @ CHR '':'' # a) = replicate n CHR ''p''"
    "dropWhile (\<lambda>x. x = CHR ''p'') (replicate n CHR ''p'' @ CHR '':'' # a) = CHR '':'' # a" for n a
    by (induction n) auto
  moreover have "inj (concat \<circ> map (\<lambda>n. replicate n CHR ''s'' @ [CHR ''.'']))"
    by (intro injI) (auto dest: ex_hex_inj)
  ultimately show ?thesis by (simp add: attest_lib_ok_def ex_attest_lib_def)
qed

theorem handshake_proves_the_service_witness:
  "let t1 = service_json ex_attest_lib (''node'', 3); t3 = secret_hex ex_attest_lib [1, 2];
       g = add_a_cookie ex_attest_lib [1, 2] (expect_a_cookie 5 8 3 \<lparr>cookies = [], resolved = []\<rparr>);
       run = (\<lambda>r3. handshake_protocol_server ex_attest_lib [1, 2] (Received (TextMessage t1)) True (Received (TextMessage [])) True True r3) in
   run (Received (TextMessage t3)) = (Inr (''node'', 3), [SendText ''hhh'', AuthenticateAt (''node'', 3) [1, 2]]) \<and>
   (\<forall>s. fst (run (Received (TextMessage ''guess''))) \<noteq> Inr s) \<and>
   resolved g = [(8, [1, 2])] \<and> length (cookies g) \<le> 101"
proof -
  let ?g = "add_a_cookie ex_attest_lib [1, 2] (expect_a_cookie 5 8 3 \<lparr>cookies = [], resolved = []\<rparr>)"
  let ?t3 = "secret_hex ex_attest_lib [1, 2]"
  let ?run = "\<lambda>r3. handshake_protocol_server ex_attest_lib [1, 2] (Received (TextMessage (service_json ex_attest_lib (''node'', 3)))) True
     (Received (TextMessage [])) True True r3"
  have s: "?run (Received (TextMessage ?t3)) = (Inr (''node'', 3), [SendText ''hhh'', AuthenticateAt (''node'', 3) [1, 2]])" by code_simp
  have g: "jar_run ex_attest_lib [(8, 3)] [[1, 2]] ?g" by (intro jar_run.intros)
  have r: "resolved ?g = [(8, [1, 2])]" by code_simp
  have n: "''guess'' \<noteq> ?t3" by code_simp
  obtain r' acts' where bad: "?run (Received (TextMessage ''guess'')) = (r', acts')" by fastforce
  have "r' \<noteq> Inr s" for s using handshake_proves_the_service [OF ex_attest_lib_ok bad g, of s] n by simp
  with handshake_proves_the_service [OF ex_attest_lib_ok s g, of "(''node'', 3)"] s r bad show ?thesis by (simp add: Let_def)
qed

text \<open>Two honest nodes come together. Whatever else the client's node is waiting for, when the server's
  challenge arrives, its secret is posted to the client's node and nothing is lost on the way, the
  client's channel receives the secret, both sides succeed, and the server knows the client by its name.\<close>

theorem handshake_succeeds:
  assumes "attest_lib_ok lib" and "get_my_name cfg = Inr me"
  shows "\<exists>g'. handshake_client_start lib cfg True (Received (TextMessage (challenge_hex lib (secret_hash lib sec)))) now rx True g =
      (Inr (secret_hash lib sec), [SendText (service_json lib me), SendText []], g') \<and>
    resolved (add_a_cookie lib sec g') = resolved g @ [(rx, sec)] \<and>
    handshake_client_end lib (Some sec) True = (Inr (), [SendText (secret_hex lib sec)]) \<and>
    handshake_protocol_server lib sec (Received (TextMessage (service_json lib me))) True (Received (TextMessage [])) True True
      (Received (TextMessage (secret_hex lib sec))) =
      (Inr me, [SendText (challenge_hex lib (secret_hash lib sec)), AuthenticateAt me sec])"
proof -
  let ?g = "expect_a_cookie now rx (secret_hash lib sec) g"
  have "resolved (add_a_cookie lib sec ?g) = resolved g @ [(rx, sec)]"
    by (simp add: add_a_cookie_def expect_a_cookie_def Let_def)
  then show ?thesis using assms
    by (cases me) (auto simp: attest_lib_ok_def handshake_client_start_def handshake_client_end_def handshake_protocol_server_def
        recv_text_def only_text_def Let_def)
qed

theorem handshake_succeeds_witness:
  "handshake_protocol_server ex_attest_lib [7] (Received (TextMessage (service_json ex_attest_lib (''127.0.0.1'', 9)))) True
     (Received (TextMessage [])) True True (Received (TextMessage (secret_hex ex_attest_lib [7]))) =
   (Inr (''127.0.0.1'', 9), [SendText ''hhhhhhh'', AuthenticateAt (''127.0.0.1'', 9) [7]])"
proof -
  have n: "get_my_name \<lparr>tor_hostname = None, attestation_port = 9\<rparr> = Inr (''127.0.0.1'', 9)" by (simp add: get_my_name_def)
  have h: "challenge_hex ex_attest_lib (secret_hash ex_attest_lib [7]) = ''hhhhhhh''" by code_simp
  show ?thesis
    using handshake_succeeds [OF ex_attest_lib_ok n, of "[7]"] unfolding h by blast
qed

section \<open>A session\<close>

definition request_of :: "'m SessionEvent \<Rightarrow> ('m AttestRequest \<times> AnySender) option" where
  "request_of e = (case e of
     FromPeer _ \<Rightarrow> None
   | InternalPost es rx \<Rightarrow> Some (Post es, PostSender rx)
   | InternalSpecificTips ts rx \<Rightarrow> Some (SpecificTips ts, SpecificTipsSender rx)
   | InternalLatestTips rx \<Rightarrow> Some (LatestTips, LatestTipsSender rx))"

definition reply_in :: "'m AttestLib \<Rightarrow> 'm SessionEvent \<Rightarrow> (u64 \<times> 'm AttestResponse) option" where
  "reply_in lib e = (case e of
     FromPeer (Received (TextMessage t)) \<Rightarrow> (case read_protocol lib t of Some (Response n r) \<Rightarrow> Some (n, r) | _ \<Rightarrow> None)
   | _ \<Rightarrow> None)"

text \<open>
  A session with its history: what was asked, with the number of the request and who asked, and the
  numbered replies of the peer. Other tasks write the store at any time.
\<close>

inductive session_run ::
  "'m Crypto \<Rightarrow> 'm AttestLib \<Rightarrow> (u64 \<times> 'm AttestRequest \<times> AnySender) list \<Rightarrow> (u64 \<times> 'm AttestResponse) list \<Rightarrow>
   'm Session \<times> 'm MsgDB \<Rightarrow> bool" for c lib where
  start: "session_run c lib [] [] (new_session, db)"
| store: "session_run c lib asked replies (s, db) \<Longrightarrow> session_run c lib asked replies (s, db')"
| turn: "session_run c lib asked replies (s, db) \<Longrightarrow> event_enabled s e \<Longrightarrow>
    session_step c lib now ok e (s, db) = Some (Inr (s', db')) \<Longrightarrow>
    session_run c lib (asked @ (case request_of e of None \<Rightarrow> [] | Some q \<Rightarrow> [(seq s', q)]))
      (replies @ (case reply_in lib e of None \<Rightarrow> [] | Some r \<Rightarrow> [r])) (s', db')"

text \<open>What a step does to the part of the session that routes answers.\<close>

lemma ask_step:
  assumes "session_step c lib now ok e (s, db) = Some (Inr (s', db'))" and "request_of e = Some (req, chan)"
  shows "seq s' = seq s + 1 \<and> defecit s' = defecit s + 1 \<and> answered s' = answered s \<and> reply_in lib e = None \<and>
    inflight_requests s' = bt_put (seq s') \<lparr>router_code = request_code req, router_sender = chan\<rparr> (inflight_requests s) \<and>
    wire s' = wire s @ [Request (seq s') req]"
  using assms
  by (cases e) (auto simp: session_step_def request_of_def reply_in_def handle_internal_request_def send_protocol_def bind_SomeD
      arith_checked Let_def split: option.splits if_splits)

lemma reply_step:
  assumes "session_step c lib now ok e (s, db) = Some (Inr (s', db'))" and "reply_in lib e = Some (n, r)"
  shows "\<exists>k. bt_get (inflight_requests s) n = Some k \<and> response_code r = router_code k \<and> seq s' = seq s + 1 \<and>
    defecit s' = defecit s - 1 \<and> answered s' = answered s @ [(router_sender k, r)] \<and> request_of e = None \<and>
    inflight_requests s' = bt_del n (inflight_requests s)"
proof -
  from assms(2) obtain t where t: "e = FromPeer (Received (TextMessage t))" "read_protocol lib t = Some (Response n r)"
    by (auto simp: reply_in_def split: SessionEvent.splits Recv.splits WsMessage.splits option.splits AttestSocketProtocol.splits)
  with assms(1) obtain m where m: "seq s + 1 = m" "handle_response n r (s\<lparr>seq := m\<rparr>) = Inr s'"
    by (cases "handle_response n r (s\<lparr>seq := seq s + 1\<rparr>)")
      (auto simp: session_step_def handle_message_from_peer_def only_text_def bind_SomeD arith_checked)
  then obtain k where "bt_get (inflight_requests s) n = Some k" by (auto simp: handle_response_def split: option.splits)
  with m t show ?thesis
    by (cases "router_sender k"; cases r) (auto simp: handle_response_def request_of_def Let_def split: if_splits)
qed

lemma other_step:
  assumes "session_step c lib now ok e (s, db) = Some (Inr (s', db'))" and "request_of e = None" and "reply_in lib e = None"
  shows "seq s' = seq s + 1 \<and> defecit s' = defecit s \<and> answered s' = answered s \<and> inflight_requests s' = inflight_requests s"
proof -
  have send: "send_protocol lib ok f p s1 = Inr s2 \<Longrightarrow> s2 = s1\<lparr>wire := wire s1 @ [p]\<rparr>" for f p and s1 s2 :: "'a Session"
    by (auto simp: send_protocol_def split: option.splits if_splits)
  have ms: "map_sum id (\<lambda>s'. (s', d)) x = Inr (s', d') \<Longrightarrow> x = Inr s'" for x :: "AttestProtocolError + 'a Session" and d d'
    by (cases x) auto
  obtain m where m: "e = FromPeer (Received m)"
    using assms(1,2) by (auto simp: session_step_def request_of_def bind_SomeD split: SessionEvent.splits Recv.splits)
  obtain r where r: "handle_message_from_peer c lib now ok m (s\<lparr>seq := seq s + 1\<rparr>, db) = Some (Inr (s', db'))"
    using assms(1)
    by (cases "the (handle_message_from_peer c lib now ok m (s\<lparr>seq := seq s + 1\<rparr>, db))")
      (auto simp: m session_step_def bind_SomeD arith_checked)
  then obtain t p where t: "m = TextMessage t" "read_protocol lib t = Some p"
    by (auto simp: handle_message_from_peer_def only_text_def split: sum.splits WsMessage.splits option.splits)
  with assms(3) m obtain n req where p: "p = Request n req"
    by (cases p) (auto simp: reply_in_def)
  have "\<exists>q. s' = (s\<lparr>seq := seq s + 1\<rparr>)\<lparr>wire := wire s @ [q]\<rparr>"
    using r t p
    by (cases req) (auto simp: handle_message_from_peer_def only_text_def bind_SomeD dest!: ms send split: sum.splits)
  then show ?thesis by auto
qed

text \<open>The table of requests that a session implements.\<close>

definition routed ::
  "(u64 \<times> 'm AttestRequest \<times> AnySender) list \<Rightarrow> (u64 \<times> 'm AttestResponse) list \<Rightarrow> (AnySender \<times> 'm AttestResponse) list" where
  "routed asked replies = map (\<lambda>(n, r). (snd (the (map_of asked n)), r)) replies"

definition session_ok ::
  "(u64 \<times> 'm AttestRequest \<times> AnySender) list \<Rightarrow> (u64 \<times> 'm AttestResponse) list \<Rightarrow> 'm Session \<Rightarrow> bool" where
  "session_ok asked replies s =
     (distinct (map fst asked) \<and> (\<forall>n \<in> fst ` set asked. n \<le> seq s) \<and>
      (\<forall>n. bt_get (inflight_requests s) n = (if n \<in> fst ` set replies then None
        else map_option (\<lambda>(req, to). \<lparr>router_code = request_code req, router_sender = to\<rparr>) (map_of asked n))) \<and>
      distinct (map fst replies) \<and> answered s = routed asked replies \<and>
      (\<forall>(n, r) \<in> set replies. \<exists>req to. map_of asked n = Some (req, to) \<and> request_code req = response_code r) \<and>
      defecit s = int (length asked) - int (length replies) \<and> defecit s \<le> 10)"

lemma routed_ask:
  assumes "\<forall>(n, r) \<in> set replies. map_of asked n \<noteq> None"
  shows "routed (asked @ more_asked) replies = routed asked replies"
  using assms by (auto simp: routed_def map_add_def split: option.splits)

lemma session_run_ok: "session_run c lib asked replies sdb \<Longrightarrow> session_ok asked replies (fst sdb)"
proof (induction rule: session_run.induct)
  case (start db)
  show ?case by (simp add: session_ok_def new_session_def routed_def bt_get_def)
next
  case (store asked replies s db db')
  then show ?case by simp
next
  case (turn asked replies s db e now ok s' db')
  have ih: "session_ok asked replies s" using turn.IH by simp
  show ?case
  proof (cases "request_of e")
    case (Some q)
    then obtain req chan where q: "request_of e = Some (req, chan)" by (cases q) auto
    note st = ask_step [OF turn.hyps(3) q]
    have new: "seq s' \<notin> fst ` set asked" using ih st by (force simp: session_ok_def)
    then have none: "map_of asked (seq s') = None" by (simp add: map_of_eq_None_iff)
    have r: "\<forall>(n, r) \<in> set replies. map_of asked n \<noteq> None" using ih by (fastforce simp: session_ok_def)
    then have "seq s' \<notin> fst ` set replies" using none by auto
    moreover have "defecit s < 10" using turn.hyps(2) q
      by (cases e) (simp_all add: event_enabled_def max_message_defecit_def request_of_def)
    ultimately show ?thesis
      using ih st new none q routed_ask [OF r]
      by (auto simp: session_ok_def map_add_def le_SucI split: option.splits)
  next
    case None
    show ?thesis
    proof (cases "reply_in lib e")
      case None
      note st = other_step [OF turn.hyps(3) \<open>request_of e = None\<close> None]
      with ih None \<open>request_of e = None\<close> show ?thesis by (auto simp: session_ok_def le_SucI simp del: map_of_eq_Some_iff)
    next
      case (Some nr)
      then obtain n r where nr: "reply_in lib e = Some (n, r)" by (cases nr) auto
      from reply_step [OF turn.hyps(3) nr] obtain k where k: "bt_get (inflight_requests s) n = Some k" "response_code r = router_code k"
        "seq s' = seq s + 1" "defecit s' = defecit s - 1" "answered s' = answered s @ [(router_sender k, r)]"
        "inflight_requests s' = bt_del n (inflight_requests s)" by blast
      from k(1) ih have n: "n \<notin> fst ` set replies" by (auto simp: session_ok_def split: if_splits)
      with k(1) ih obtain req to where a: "map_of asked n = Some (req, to)" "k = \<lparr>router_code = request_code req, router_sender = to\<rparr>"
        by (auto simp: session_ok_def)
      show ?thesis
        using ih k n a nr \<open>request_of e = None\<close> by (auto simp: session_ok_def routed_def le_SucI simp del: map_of_eq_Some_iff)
    qed
  qed
qed

text \<open>C36: A session gives every answer to the one who asked for it. Whatever the peer sends, and however its
  own requests, the peer's and other tasks' writes interleave, at most ten requests are without a reply;
  each request has a number of its own; each reply that is taken carries the number of a request that had
  none yet and is of its kind; and what the askers have received are exactly these replies, in order, each
  handed to the asker of the request with its number. Anything else the peer replies ends the session.\<close>

theorem session_routes_replies:
  assumes "session_run c lib asked replies (s, db)"
  shows "distinct (map fst asked) \<and> distinct (map fst replies) \<and>
    (\<forall>(n, r) \<in> set replies. \<exists>req to. map_of asked n = Some (req, to) \<and> request_code req = response_code r) \<and>
    answered s = routed asked replies \<and> length replies \<le> length asked \<and> length asked \<le> length replies + 10"
proof -
  have ok: "session_ok asked replies s" using session_run_ok [OF assms] by simp
  then have "fst ` set replies \<subseteq> fst ` set asked" and d: "distinct (map fst asked)" "distinct (map fst replies)"
    by (force simp: session_ok_def dest: map_of_SomeD)+
  then have "card (set (map fst replies)) \<le> card (set (map fst asked))" by (intro card_mono) auto
  then have "length replies \<le> length asked" using d distinct_card by (metis length_map)
  with ok show ?thesis by (auto simp: session_ok_def)
qed

text \<open>A library that can write two messages: the request for the latest tips and the reply to it.\<close>

definition ex_wire_lib :: "string AttestLib" where
  "ex_wire_lib = ex_attest_lib\<lparr>
     write_protocol := (\<lambda>p. case p of Request n _ \<Rightarrow> Some [] | Response _ _ \<Rightarrow> None),
     read_protocol := (\<lambda>t. if t = [] then Some (Response 1 (LatestTipsResponse [])) else None)\<rparr>"

definition ex_asked :: "string Session" where
  "ex_asked = \<lparr>defecit = 0, inflight_requests = [], seq = 2, wire = [Request 1 LatestTips],
     answered = [(LatestTipsSender 5, LatestTipsResponse [])]\<rparr>"

lemma ex_session: "session_run toy_crypto ex_wire_lib [(1, LatestTips, LatestTipsSender 5)] [(1, LatestTipsResponse [])] (ex_asked, empty_db)"
proof -
  let ?s = "\<lparr>defecit = 1, inflight_requests = [(1, \<lparr>router_code = 0, router_sender = LatestTipsSender 5\<rparr>)], seq = 1,
    wire = [Request 1 LatestTips], answered = []\<rparr> :: string Session"
  have 1: "session_step toy_crypto ex_wire_lib 0 True (InternalLatestTips 5) (new_session, empty_db) = Some (Inr (?s, empty_db))"
    by (simp add: session_step_def new_session_def add_w_def fits_def handle_internal_request_def send_protocol_def ex_wire_lib_def request_code_def)
  have 2: "session_step toy_crypto ex_wire_lib 0 True (FromPeer (Received (TextMessage []))) (?s, empty_db) = Some (Inr (ex_asked, empty_db))"
    by (simp add: session_step_def add_w_def fits_def handle_message_from_peer_def only_text_def ex_wire_lib_def handle_response_def
        bt_get_def bt_del_def response_code_def ex_asked_def)
  have "session_run toy_crypto ex_wire_lib [(1, LatestTips, LatestTipsSender 5)] [] (?s, empty_db)"
    using session_run.turn [OF session_run.start _ 1]
    by (simp add: event_enabled_def new_session_def max_message_defecit_def request_of_def reply_in_def)
  from session_run.turn [OF this _ 2] show ?thesis
    by (simp add: event_enabled_def request_of_def reply_in_def ex_wire_lib_def)
qed

theorem session_routes_replies_witness:
  "answered ex_asked = routed [(1, LatestTips, LatestTipsSender 5)] [(1, LatestTipsResponse [])]"
  using session_routes_replies [OF ex_session] by blast

end
