(* ===== verification/Peer_Services.thy ===== *)
theory Peer_Services
  imports Attest_Protocol
begin

text \<open>
  What a node does with its peers (\<open>common/attest/src/peer_services\<close>, \<open>attestations/client.rs\<close> and
  \<open>client/connection_creation.rs\<close>, \<open>client/ws_methods.rs\<close>): the state of its connections, the fetching of
  envelopes, the pushing of its own, and which tasks run for which peer. A channel is a number; whether it
  is closed, whether a task has finished and times are arguments. The flag that shuts the node down is
  never set here. Texts of errors are left out; a panic is \<open>None\<close>.
\<close>

section \<open>Connections\<close>

datatype PeerState = Open nat Role | Closed | Pending u64

record AttestationClient =
  connections :: "(ServiceUrl \<times> PeerState) list"
  pending_cookie :: u64

definition conn_already_exists :: "(nat \<Rightarrow> bool) \<Rightarrow> ServiceUrl \<Rightarrow> AttestationClient \<Rightarrow> PeerState" where
  "conn_already_exists is_closed svc cl =
     (case map_of (connections cl) svc of
        Some Closed \<Rightarrow> Closed
      | Some (Open p role) \<Rightarrow> (if \<not> is_closed p then Open p role else Closed)
      | Some (Pending k) \<Rightarrow> Pending k
      | None \<Rightarrow> Closed)"

definition set_conn :: "ServiceUrl \<Rightarrow> PeerState \<Rightarrow> AttestationClient \<Rightarrow> AttestationClient" where
  "set_conn svc st cl = cl\<lparr>connections := AList.update svc st (connections cl)\<rparr>"

definition set_conn_closed_from_pending :: "ServiceUrl \<Rightarrow> u64 \<Rightarrow> AttestationClient \<Rightarrow> AttestationClient option" where
  "set_conn_closed_from_pending svc current_cookie cl =
     (case map_of (connections cl) svc of
        None \<Rightarrow> None
      | Some (Pending u) \<Rightarrow> Some (if u = current_cookie then set_conn svc Closed cl else cl)
      | Some _ \<Rightarrow> Some cl)"

text \<open>The receiver of a new channel, if a connection is opened; an open one is not looked at further.\<close>

definition set_conn_open_prob :: "ServiceUrl \<Rightarrow> Role \<Rightarrow> nat \<Rightarrow> AttestationClient \<Rightarrow> nat option \<times> AttestationClient" where
  "set_conn_open_prob svc role chan cl =
     (case map_of (connections cl) svc of
        Some (Open _ _) \<Rightarrow> (None, cl)
      | _ \<Rightarrow> (Some chan, set_conn svc (Open chan role) cl))"

text \<open>The counter of cookies wraps.\<close>

definition set_conn_pending :: "(nat \<Rightarrow> bool) \<Rightarrow> ServiceUrl \<Rightarrow> bool \<Rightarrow> AttestationClient \<Rightarrow> u64 option \<times> AttestationClient" where
  "set_conn_pending is_closed svc force cl =
     (let k = pending_cookie cl;
          fresh = (Some k, set_conn svc (Pending k) (cl\<lparr>pending_cookie := (k + 1) mod 2 ^ 64\<rparr>)) in
      case map_of (connections cl) svc of
        None \<Rightarrow> fresh
      | Some Closed \<Rightarrow> fresh
      | Some (Open p _) \<Rightarrow> (if \<not> is_closed p then (None, cl) else fresh)
      | Some (Pending _) \<Rightarrow> (if force then fresh else (None, cl)))"

text \<open>
  A turn of \<open>get_conn\<close>: it has the channel, it sleeps or goes on, or it starts a task that opens a socket.
  The caller keeps its cookie and whether it waits for a task.
\<close>

datatype GetConn = GotConn nat | Waits | StartsTask u64

record ConnRequest =
  my_cookie :: "u64 option"
  has_task :: bool

definition get_conn_turn ::
  "(nat \<Rightarrow> bool) \<Rightarrow> bool \<Rightarrow> ServiceUrl \<Rightarrow> ConnRequest \<Rightarrow> AttestationClient \<Rightarrow> (GetConn \<times> ConnRequest \<times> AttestationClient) option" where
  "get_conn_turn is_closed task_finished svc q cl =
     (let finished_or_not_owner = (has_task q \<longrightarrow> task_finished);
          q1 = q\<lparr>has_task := has_task q \<and> \<not> task_finished\<rparr> in
      case conn_already_exists is_closed svc cl of
        Open s _ \<Rightarrow> Some (GotConn s, q1, cl)
      | Pending current_cookie \<Rightarrow>
          (if finished_or_not_owner \<and> Some current_cookie = my_cookie q
           then map_option (\<lambda>cl'. (Waits, q1, cl')) (set_conn_closed_from_pending svc current_cookie cl)
           else Some (Waits, q1, cl))
      | Closed \<Rightarrow>
          (case set_conn_pending is_closed svc True cl of
             (None, cl') \<Rightarrow> Some (Waits, q1\<lparr>my_cookie := None\<rparr>, cl')
           | (Some k, cl') \<Rightarrow> Some (StartsTask k, q1\<lparr>my_cookie := Some k, has_task := True\<rparr>, cl')))"

text \<open>Which side of a new session the channel goes to, in \<open>run_protocol_inner\<close>.\<close>

definition session_peer :: "Role \<Rightarrow> ServiceUrl option \<Rightarrow> ServiceUrl option \<Rightarrow> AttestProtocolError + ServiceUrl" where
  "session_peer role shaken given =
     (case (role, shaken, given) of
        (Server, Some p, None) \<Rightarrow> Inr p
      | (Client, None, Some p) \<Rightarrow> Inr p
      | _ \<Rightarrow> Inl InvalidSetup)"

definition open_session ::
  "NodeConfig \<Rightarrow> Role \<Rightarrow> ServiceUrl option \<Rightarrow> ServiceUrl option \<Rightarrow> nat \<Rightarrow> AttestationClient \<Rightarrow>
   (AttestProtocolError + ServiceUrl \<times> nat) \<times> AttestationClient" where
  "open_session cfg role shaken given chan cl =
     (case session_peer role shaken given of
        Inl e \<Rightarrow> (Inl e, cl)
      | Inr p \<Rightarrow>
          (case preferred_role cfg p of
             Inl e \<Rightarrow> (Inl e, cl)
           | Inr _ \<Rightarrow>
               (case set_conn_open_prob p role chan cl of
                  (None, cl') \<Rightarrow> (Inl AlreadyConnected, cl')
                | (Some rx, cl') \<Rightarrow> (Inr (p, rx), cl'))))"

section \<open>Fetching\<close>

text \<open>
  \<open>get_tips\<close>: hashes that are being fetched already are taken out of the request, from the last to the
  first, and the others are noted; they are released when the answer has been processed.
\<close>

fun skip_inflight ::
  "nat \<Rightarrow> CanonicalEnvelopeHash list \<Rightarrow> CanonicalEnvelopeHash list \<Rightarrow> CanonicalEnvelopeHash list \<times> CanonicalEnvelopeHash list" where
  "skip_inflight 0 ts inflight = (ts, inflight)"
| "skip_inflight (Suc i) ts inflight =
     (let h = ts ! i in
      if h \<in> set inflight then skip_inflight i (swap_remove i ts) inflight
      else skip_inflight i ts (h # inflight))"

definition get_tips ::
  "bool \<Rightarrow> CanonicalEnvelopeHash list \<Rightarrow> CanonicalEnvelopeHash list \<Rightarrow> CanonicalEnvelopeHash list \<times> CanonicalEnvelopeHash list" where
  "get_tips use_cache ts inflight = (if use_cache then skip_inflight (length ts) ts inflight else (ts, inflight))"

definition release_inflight :: "CanonicalEnvelopeHash list \<Rightarrow> CanonicalEnvelopeHash list \<Rightarrow> CanonicalEnvelopeHash list" where
  "release_inflight ts inflight = filter (\<lambda>h. h \<notin> set ts) inflight"

datatype FetchError = OtherSqlError SqliteFail | TipsNotFetched

text \<open>What an envelope refers to: the tips of other chains and its parent.\<close>

definition dep_tips :: "'m GenericEnvelope \<Rightarrow> CanonicalEnvelopeHash list" where
  "dep_tips e = map (\<lambda>(_, _, v). v) (tips (header e)) @
     (case ancestors (header e) of None \<Rightarrow> [] | Some a \<Rightarrow> [prev_msg a])"

text \<open>One envelope of a response: it is stored if it can be, and the hashes that it refers to are noted.\<close>

definition process_envelope ::
  "'m Crypto \<Rightarrow> int \<Rightarrow> bool \<Rightarrow> 'm GenericEnvelope \<Rightarrow> 'm MsgDB \<Rightarrow>
   ((FetchError + CanonicalEnvelopeHash list) \<times> 'm MsgDB) option" where
  "process_envelope c now allow envelope db =
     (case self_authenticate c envelope of
        Inl _ \<Rightarrow> Some (Inr [], db)
      | Inr authentic \<Rightarrow>
          (if ancestors (header (inner authentic)) = None \<and> height (header (inner authentic)) = 0
           then do {
             (r, db1) \<leftarrow> insert_user_by_genesis_envelope c now (''user-'' @ decimal (nat now)) authentic db;
             Some (case r of
               Inr _ \<Rightarrow> (Inr (dep_tips envelope), db1)
             | Inl SqliteConstraintUnique \<Rightarrow> (Inr (dep_tips envelope), db1)
             | Inl e \<Rightarrow> (Inl (OtherSqlError e), db1))
           }
           else do {
             (r, db1) \<leftarrow> try_insert_authenticated_envelope c now False authentic db;
             let missing_genesis = (if allow then [get_genesis_hash c envelope] else []);
             Some (case r of
               Inl SqliteConstraintCheck \<Rightarrow> (Inr (missing_genesis @ dep_tips envelope), db1)
             | Inl SqliteConstraintNotNull \<Rightarrow> (Inr (missing_genesis @ dep_tips envelope), db1)
             | _ \<Rightarrow> (Inr (dep_tips envelope), db1))
           }))"

fun process_envelopes ::
  "'m Crypto \<Rightarrow> int \<Rightarrow> bool \<Rightarrow> 'm GenericEnvelope list \<Rightarrow> CanonicalEnvelopeHash list \<Rightarrow> 'm MsgDB \<Rightarrow>
   ((FetchError + CanonicalEnvelopeHash list) \<times> 'm MsgDB) option" where
  "process_envelopes c now allow [] all_tips db = Some (Inr all_tips, db)"
| "process_envelopes c now allow (e # es) all_tips db = do {
     (r, db1) \<leftarrow> process_envelope c now allow e db;
     case r of
       Inl err \<Rightarrow> Some (Inl err, db1)
     | Inr ts \<Rightarrow> process_envelopes c now allow es (all_tips @ ts) db1
   }"

text \<open>The result are the hashes to request, those that are not stored.\<close>

definition handle_envelope ::
  "'m Crypto \<Rightarrow> int \<Rightarrow> bool \<Rightarrow> 'm GenericEnvelope list \<Rightarrow> 'm MsgDB \<Rightarrow>
   ((FetchError + CanonicalEnvelopeHash list) \<times> 'm MsgDB) option" where
  "handle_envelope c now allow resp db = do {
     (r, db1) \<leftarrow> process_envelopes c now allow resp [] db;
     Some (case r of
       Inl err \<Rightarrow> (Inl err, db1)
     | Inr all_tips \<Rightarrow> (Inr (message_not_exists_it (remdups_adj (sort all_tips)) db1), db1))
   }"

text \<open>
  A round of \<open>fetch_from_peer\<close> with a peer whose store is \<open>peer\<close>: the envelopes are processed, and what is
  missing is asked for, if anything is; an answer that does not come ends the fetching. The set of hashes
  in flight is shared by the tasks of all peers: \<open>busy\<close> are those that the other tasks fetch at the time.
\<close>

definition fetch_round ::
  "'m Crypto \<Rightarrow> int \<Rightarrow> bool \<Rightarrow> CanonicalEnvelopeHash list \<Rightarrow> 'm MsgDB \<Rightarrow> 'm GenericEnvelope list \<times> 'm MsgDB \<Rightarrow>
   (FetchError + 'm GenericEnvelope list \<times> 'm MsgDB) option" where
  "fetch_round c now allow busy peer s =
     (case s of (resp, db) \<Rightarrow> do {
        (r, db1) \<leftarrow> handle_envelope c now allow resp db;
        Some (case r of
          Inl err \<Rightarrow> Inl err
        | Inr [] \<Rightarrow> Inr ([], db1)
        | Inr unknown \<Rightarrow>
            (case fetch_specific_tips c (fst (get_tips True unknown busy)) peer of
               Inr (SpecificTipsResponse es) \<Rightarrow> Inr (es, db1)
             | _ \<Rightarrow> Inl TipsNotFetched))
      })"

text \<open>Rounds one after the other, while no other task is fetching.\<close>

fun fetch_rounds ::
  "'m Crypto \<Rightarrow> int \<Rightarrow> bool \<Rightarrow> 'm MsgDB \<Rightarrow> nat \<Rightarrow> 'm GenericEnvelope list \<times> 'm MsgDB \<Rightarrow>
   (FetchError + 'm GenericEnvelope list \<times> 'm MsgDB) option" where
  "fetch_rounds c now allow peer 0 s = Some (Inr s)"
| "fetch_rounds c now allow peer (Suc n) s = do {
     r \<leftarrow> fetch_round c now allow [] peer s;
     case r of Inl err \<Rightarrow> Some (Inl err) | Inr s' \<Rightarrow> fetch_rounds c now allow peer n s'
   }"

section \<open>Pushing\<close>

text \<open>The tips that the peer has claimed, by the genesis of their chain; only a higher one replaces one.\<close>

type_synonym 'm tip_tracker = "(CanonicalEnvelopeHash \<times> 'm GenericEnvelope Authenticated) list"

definition track_tip :: "'m Crypto \<Rightarrow> 'm GenericEnvelope Authenticated \<Rightarrow> 'm tip_tracker \<Rightarrow> 'm tip_tracker" where
  "track_tip c t tracker =
     (let genesis = get_genesis_hash c (inner t) in
      case map_of tracker genesis of
        None \<Rightarrow> AList.update genesis t tracker
      | Some previous \<Rightarrow>
          (if height (header (inner t)) > height (header (inner previous)) then AList.update genesis t tracker else tracker))"

definition track_tips :: "'m Crypto \<Rightarrow> 'm GenericEnvelope list \<Rightarrow> 'm tip_tracker \<Rightarrow> 'm tip_tracker" where
  "track_tips c claimed tracker = fold (track_tip c)
     (List.map_filter (\<lambda>e. case self_authenticate c e of Inl _ \<Rightarrow> None | Inr a \<Rightarrow> Some a) claimed) tracker"

text \<open>What is posted: what is newer than the tracked tips, and the genesis of every other chain.\<close>

definition to_broadcast :: "'m Crypto \<Rightarrow> 'm tip_tracker \<Rightarrow> 'm MsgDB \<Rightarrow> 'm GenericEnvelope Authenticated list" where
  "to_broadcast c tracker db =
     (let msgs = get_connected_messages_newer_than_envelopes c (map snd tracker) db;
          following_chains = (\<lambda>e. get_genesis_hash c (inner e)) ` set msgs
      in msgs @ filter (\<lambda>e. get_genesis_hash c (inner e) \<notin> following_chains) (get_all_genesis c db))"

text \<open>A round of \<open>push_to_peer\<close>: the peer's tips are tracked and what it lacks is posted to it.\<close>

definition push_round ::
  "'m Crypto \<Rightarrow> int \<Rightarrow> 'm MsgDB \<Rightarrow> 'm tip_tracker \<Rightarrow> 'm MsgDB \<Rightarrow> ('m tip_tracker \<times> bool list \<times> 'm MsgDB) option" where
  "push_round c now db tracker peer =
     (let tracker' = track_tips c (map inner (get_tips_for_all_users c peer)) tracker;
          msgs = to_broadcast c tracker' db in
      if msgs = [] then Some (tracker', [], peer)
      else do {
        (r, peer') \<leftarrow> post_envelope c now (map inner msgs) peer;
        case r of PostResponse outcomes \<Rightarrow> Some (tracker', outcomes, peer') | _ \<Rightarrow> None
      })"

section \<open>Which tasks run\<close>

datatype PeerType = Push | Fetch

type_synonym TaskID = "ServiceUrl \<times> PeerType \<times> bool"

definition wanted_tasks :: "PeerInfo list \<Rightarrow> TaskID list" where
  "wanted_tasks ps = remdups (concat (map (\<lambda>p. let service = (service_url p, port p) in
     (if fetch_from p then [(service, Fetch, allow_unsolicited_tips p)] else []) @
     (if push_to p then [(service, Push, allow_unsolicited_tips p)] else [])) ps))"

text \<open>
  Finished tasks are dropped, those that are not wanted any more are aborted, and what is wanted and does
  not run is started: the tasks that are started, aborted, and that run then.
\<close>

definition refresh_tasks :: "(TaskID \<Rightarrow> bool) \<Rightarrow> 'm MsgDB \<Rightarrow> TaskID list \<Rightarrow> TaskID list \<times> TaskID list \<times> TaskID list" where
  "refresh_tasks is_finished db task_set =
     (let create = wanted_tasks (get_all_hidden_services db);
          running = filter (\<lambda>k. \<not> is_finished k) task_set;
          kept = filter (\<lambda>k. k \<in> set create) running;
          started = filter (\<lambda>k. k \<notin> set kept) create
      in (started, filter (\<lambda>k. k \<notin> set create) running, kept @ started))"

end
