(* ===== verification/Peer_Laws.thy ===== *)
theory Peer_Laws
  imports Peer_Services Store_Props
begin

text \<open>
  What fetching from a peer reaches: the envelopes of a chain that the peer holds are all stored and
  connected after as many rounds as it has messages, when the own part of the chain has no gap, and a gap
  below messages that are stored is never asked for.
\<close>

declare decimal.simps [simp del]

section \<open>Stores that grow\<close>

definition hashes :: "'m MsgDB \<Rightarrow> CanonicalEnvelopeHash set" where
  "hashes db = row_hash ` set (messages db)"

definition user_keys :: "'m MsgDB \<Rightarrow> XOnlyPublicKey set" where
  "user_keys db = db_key ` set (db_users db)"

text \<open>Equal hashes are of equal bodies.\<close>

definition agrees :: "'m MsgDB \<Rightarrow> 'm MsgDB \<Rightarrow> bool" where
  "agrees a b = (\<forall>r \<in> set (messages a). \<forall>q \<in> set (messages b). row_hash r = row_hash q \<longrightarrow> body r = body q)"

text \<open>The store \<open>b\<close> knows the author of a row and has the genesis of its chain.\<close>

definition expects :: "'m MsgDB \<Rightarrow> 'm Row \<Rightarrow> bool" where
  "expects b r = (hdr_key (fst (body r)) \<in> user_keys b \<and> row_genesis r \<in> hashes b)"

definition row_envelope :: "'m Crypto \<Rightarrow> 'm Row \<Rightarrow> 'm GenericEnvelope" where
  "row_envelope c r = inner (read_body c r)"

lemma found_hash: "(find_hash db h \<noteq> None) = (h \<in> hashes db)"
  by (simp add: hashes_def find_hash_None)

lemma found_user: "(find_user db k \<noteq> None) = (k \<in> user_keys db)"
  by (auto simp: user_keys_def find_user_def find_None_iff)

lemma row_envelope_fields:
  "header (row_envelope c r) = fst (body r)" "msg (row_envelope c r) = snd (body r)"
  "inner (read_body c r) = row_envelope c r" "read_body c r = Authenticated (row_envelope c r)"
  by (simp_all add: row_envelope_def read_body_def new_envelope_def)

text \<open>What a row of a store is.\<close>

lemma stored_row:
  assumes "stored c db" and "r \<in> set (messages db)"
  shows "proper c (Authenticated (row_envelope c r))" and "canonicalized_hash_ref c (row_envelope c r) = row_hash r"
    and "\<exists>sig. envelope_signature (row_envelope c r) = Some sig" and "get_genesis_hash c (row_envelope c r) = row_genesis r"
    and "height (fst (body r)) = row_height r" and "0 \<le> row_height r"
    and "(ancestors (fst (body r)) = None) = (row_height r = 0)"
    and "ancestors (fst (body r)) = Some anc \<Longrightarrow> prev_msg anc = row_prev r"
    and "row_height r = 0 \<Longrightarrow> row_prev r = genesis_hash"
    and "row_height r \<noteq> 0 \<Longrightarrow> row_genesis r \<in> hashes db" and "row_height r = 0 \<Longrightarrow> row_genesis r = row_hash r"
proof -
  have ok: "store_ok c db" by (rule stored_ok [OF assms(1)])
  have rok: "row_ok c (db_users db) r" by (rule users_okD(3) [OF store_okD(2) [OF ok] assms(2)])
  have chk: "row_check r" by (rule db_okD(3) [OF store_okD(1) [OF ok] assms(2)])
  have anc: "check_ancestors (fst (body r)) = Inr ()" using rok by (simp add: row_ok_def)
  show "proper c (Authenticated (row_envelope c r))" using anc
    by (simp add: proper_def row_envelope_def read_body_def cache_ok_new new_envelope_def) (simp add: cache_ok_def canonicalized_hash_ref_def compute_hash_def)
  show h: "canonicalized_hash_ref c (row_envelope c r) = row_hash r" using rok by (simp add: row_ok_def row_envelope_def)
  show "\<exists>sig. envelope_signature (row_envelope c r) = Some sig" using rok
    by (auto simp: row_ok_def envelope_signature_def row_envelope_fields)
  show "get_genesis_hash c (row_envelope c r) = row_genesis r" using chk h
    by (auto simp: row_check_def get_genesis_hash_def row_envelope_fields split: option.splits)
  show hh: "height (fst (body r)) = row_height r" and pos: "0 \<le> row_height r" using chk by (auto simp: row_check_def)
  show a: "(ancestors (fst (body r)) = None) = (row_height r = 0)" using anc hh pos
    by (auto simp: check_ancestors_def split: if_splits)
  show "prev_msg anc = row_prev r" if "ancestors (fst (body r)) = Some anc" using chk that by (simp add: row_check_def)
  show "row_prev r = genesis_hash" if "row_height r = 0" using chk that by (auto simp: row_check_def)
  show "row_genesis r \<in> hashes db" if "row_height r \<noteq> 0"
    using db_okD(6) [OF store_okD(1) [OF ok] assms(2) that] found_hash by blast
  show "row_genesis r = row_hash r" if "row_height r = 0" using chk a that by (simp add: row_check_def)
qed

lemma stored_same_row:
  "stored c db \<Longrightarrow> r \<in> set (messages db) \<Longrightarrow> q \<in> set (messages db) \<Longrightarrow> row_hash r = row_hash q \<Longrightarrow> r = q"
  using db_okD(1) [OF store_okD(1) [OF stored_ok]] by (auto simp: distinct_map inj_on_def)

section \<open>Processing one envelope\<close>

lemma new_row_check:
  assumes "stored c a" and "r \<in> set (messages a)" and "row_height r = 0 \<or> row_genesis r \<in> hashes b"
  shows "row_check (new_row c now (row_envelope c r) sig uid b)"
proof (cases "ancestors (fst (body r))")
  case None
  note f = stored_row [OF assms(1,2)]
  from None have "row_height r = 0" using f(7) by simp
  then show ?thesis using f None
    by (auto simp: row_check_def new_row_def Let_def row_envelope_fields)
next
  case (Some anc)
  note f = stored_row [OF assms(1,2)]
  from Some have h: "row_height r > 0" using f(6,7) by auto
  then obtain q where "find_hash b (row_genesis r) = Some q" using assms(3) found_hash [of b] by auto
  moreover have "anc_genesis anc = row_genesis r" using f(4) Some by (simp add: get_genesis_hash_def row_envelope_fields)
  ultimately show ?thesis using h f Some
    by (auto simp: row_check_def new_row_def Let_def row_envelope_fields split: option.splits)
qed

lemma trigger_bodies: "(\<lambda>q. (row_hash q, body q)) ` set (message_parents r ms) = (\<lambda>q. (row_hash q, body q)) ` set ms"
  unfolding message_parents_def set_map image_image by (rule image_cong [OF refl]) simp

lemma agrees_bodies:
  "agrees a b = (\<forall>r \<in> set (messages a). \<forall>(h, v) \<in> (\<lambda>q. (row_hash q, body q)) ` set (messages b). row_hash r = h \<longrightarrow> body r = v)"
  by (simp add: agrees_def)

lemma insert_row:
  assumes a: "stored c a" "r \<in> set (messages a)" and ag: "agrees a b"
  obtains res b1 where
    "try_insert_authenticated_envelope_with_txn c now (Authenticated (row_envelope c r)) b = Some (res, b1)"
    "hashes b \<subseteq> hashes b1" "hashes b1 \<subseteq> insert (row_hash r) (hashes b)" "db_users b1 = db_users b" "agrees a b1"
    "hdr_key (fst (body r)) \<in> user_keys b \<and> (row_height r = 0 \<or> row_genesis r \<in> hashes b) \<longrightarrow>
       row_hash r \<in> hashes b1 \<and> (res = Inr () \<or> res = Inl SqliteConstraintUnique)"
    "row_hash r \<in> hashes b \<longrightarrow> b1 = b"
proof -
  note f = stored_row [OF a]
  obtain sig where sig: "envelope_signature (row_envelope c r) = Some sig" using f(3) by blast
  show ?thesis
  proof (cases "find_user b (hdr_key (fst (body r)))")
    case None
    then have "hdr_key (fst (body r)) \<notin> user_keys b" using found_user [of b] by blast
    with None sig show ?thesis
      by (intro that [of "Inl SqliteConstraintNotNull" b])
        (simp_all add: try_insert_authenticated_envelope_with_txn_def row_envelope_fields ag subset_insertI)
  next
    case (Some u)
    let ?r = "new_row c now (row_envelope c r) sig (user_id u) b"
    let ?b = "b\<lparr>messages := message_parents ?r (messages b @ [?r])\<rparr>"
    have h: "row_hash ?r = row_hash r" "body ?r = body r"
      by (simp_all add: new_row_def Let_def f(2) row_envelope_fields)
    have chk: "row_height r = 0 \<or> row_genesis r \<in> hashes b \<Longrightarrow> row_check ?r" by (rule new_row_check [OF a])
    have t: "try_insert_authenticated_envelope_with_txn c now (Authenticated (row_envelope c r)) b = Some
      (if \<not> row_check ?r then (Inl SqliteConstraintCheck, b) else if row_hash r \<in> hashes b then (Inl SqliteConstraintUnique, b)
       else (Inr (), ?b))"
      using sig Some h found_hash [of b "row_hash r"]
      by (simp add: try_insert_authenticated_envelope_with_txn_def row_envelope_fields Let_def)
    have hs: "hashes ?b = insert (row_hash r) (hashes b)"
      using arg_cong [OF trigger_fields(1) [of ?r "messages b @ [?r]"], of set] h by (simp add: hashes_def)
    have "agrees a ?b" unfolding agrees_bodies
      using ag stored_same_row [OF a(1) _ a(2)] h by (auto simp: trigger_bodies agrees_def)
    consider "\<not> row_check ?r" | "row_check ?r" "row_hash r \<in> hashes b" | "row_check ?r" "row_hash r \<notin> hashes b" by blast
    then show ?thesis
    proof cases
      case 1
      with chk t ag show ?thesis by (intro that [of "Inl SqliteConstraintCheck" b]) auto
    next
      case 2
      with t ag show ?thesis by (intro that [of "Inl SqliteConstraintUnique" b]) auto
    next
      case 3
      with t hs \<open>agrees a ?b\<close> show ?thesis by (intro that [of "Inr ()" ?b]) (simp_all add: subset_insertI)
    qed
  qed
qed

text \<open>What processing may do to the store, with the hashes that may be new.\<close>

definition grown :: "'m Crypto \<Rightarrow> 'm MsgDB \<Rightarrow> CanonicalEnvelopeHash set \<Rightarrow> 'm MsgDB \<Rightarrow> 'm MsgDB \<Rightarrow> bool" where
  "grown c a hs b b1 = (stored c b1 \<and> agrees a b1 \<and> hashes b \<subseteq> hashes b1 \<and> hashes b1 \<subseteq> hashes b \<union> hs \<and>
     user_keys b \<subseteq> user_keys b1)"

lemma grown_trans: "grown c a hs b b1 \<Longrightarrow> grown c a ks b1 b2 \<Longrightarrow> grown c a (hs \<union> ks) b b2"
  by (auto simp: grown_def)

lemma expects_grown: "grown c a hs b b1 \<Longrightarrow> expects b r \<Longrightarrow> expects b1 r"
  by (auto simp: grown_def expects_def)

lemma process_row:
  assumes a: "stored c a" "r \<in> set (messages a)" and b: "stored c b" "agrees a b"
    and auth: "self_authenticate c (row_envelope c r) = Inr (Authenticated (row_envelope c r))"
  obtains ts b1 where "process_envelope c now allow (row_envelope c r) b = Some (Inr ts, b1)"
    "grown c a {row_hash r} b b1" "expects b r \<Longrightarrow> row_hash r \<in> hashes b1"
    "set (dep_tips (row_envelope c r)) \<subseteq> set ts" "set ts \<subseteq> insert (row_genesis r) (set (dep_tips (row_envelope c r)))"
    "row_hash r \<in> hashes b \<Longrightarrow> expects b r \<Longrightarrow> b1 = b"
proof (cases "row_height r = 0")
  case True
  note f = stored_row [OF a]
  define nick where "nick = ''user-'' @ decimal (nat now)"
  let ?k = "hdr_key (fst (body r))"
  let ?b = "insert_user nick ?k b"
  have u: "?k \<in> user_keys ?b" "user_keys b \<subseteq> user_keys ?b" "messages ?b = messages b"
    using found_user [of b ?k] by (auto simp: insert_user_def user_keys_def)
  have ag: "agrees a ?b" using b(2) by (simp add: agrees_def u(3))
  obtain res b1 where i:
    "try_insert_authenticated_envelope_with_txn c now (Authenticated (row_envelope c r)) ?b = Some (res, b1)"
    "hashes ?b \<subseteq> hashes b1" "hashes b1 \<subseteq> insert (row_hash r) (hashes ?b)" "db_users b1 = db_users ?b" "agrees a b1"
    "hdr_key (fst (body r)) \<in> user_keys ?b \<and> (row_height r = 0 \<or> row_genesis r \<in> hashes ?b) \<longrightarrow>
      row_hash r \<in> hashes b1 \<and> (res = Inr () \<or> res = Inl SqliteConstraintUnique)"
    "row_hash r \<in> hashes ?b \<longrightarrow> b1 = ?b"
    by (rule insert_row [where now = now, OF a ag])
  note i6 = mp [OF i(6) conjI [OF u(1) disjI1 [OF True]]]
  have ins: "insert_user_by_genesis_envelope c now nick (Authenticated (row_envelope c r)) b = Some (map_sum id (\<lambda>_. ?k) res, b1)"
    by (simp add: insert_user_by_genesis_envelope_def Let_def row_envelope_fields i(1))
  have st: "stored c b1" by (rule stored.genesis [OF b(1) f(1) ins])
  have hb: "hashes ?b = hashes b" by (simp add: hashes_def u(3))
  have uk: "user_keys b \<subseteq> user_keys b1" using u(2) i(4) by (simp add: user_keys_def)
  have g: "grown c a {row_hash r} b b1" using i(2,3,5) hb st uk by (auto simp: grown_def)
  have "ancestors (fst (body r)) = None" "height (fst (body r)) = 0" using True f(5,7) by simp_all
  then have p: "process_envelope c now allow (row_envelope c r) b = Some (Inr (dep_tips (row_envelope c r)), b1)"
    using ins i6 auth by (auto simp: process_envelope_def row_envelope_fields nick_def)
  show ?thesis by (rule that [OF p g]) (use i6 i(7) hb found_user [of b ?k] in \<open>auto simp: expects_def insert_user_def\<close>)
next
  case False
  note f = stored_row [OF a]
  obtain res b1 where i:
    "try_insert_authenticated_envelope_with_txn c now (Authenticated (row_envelope c r)) b = Some (res, b1)"
    "hashes b \<subseteq> hashes b1" "hashes b1 \<subseteq> insert (row_hash r) (hashes b)" "db_users b1 = db_users b" "agrees a b1"
    "hdr_key (fst (body r)) \<in> user_keys b \<and> (row_height r = 0 \<or> row_genesis r \<in> hashes b) \<longrightarrow>
      row_hash r \<in> hashes b1 \<and> (res = Inr () \<or> res = Inl SqliteConstraintUnique)"
    "row_hash r \<in> hashes b \<longrightarrow> b1 = b"
    by (rule insert_row [where now = now, OF a b(2)])
  have ins: "try_insert_authenticated_envelope c now False (Authenticated (row_envelope c r)) b = Some (res, b1)"
    using i(1) by (simp add: try_insert_authenticated_envelope_def split: option.splits)
  have st: "stored c b1" by (rule stored.envelope [OF b(1) f(1) ins])
  have g: "grown c a {row_hash r} b b1" using i st by (auto simp: grown_def user_keys_def)
  have e: "row_hash r \<in> hashes b1" if "expects b r" using i(6) that by (simp add: expects_def)
  obtain anc where anc: "ancestors (fst (body r)) = Some anc" using False f(7) by auto
  let ?ts = "(if allow \<and> (res = Inl SqliteConstraintCheck \<or> res = Inl SqliteConstraintNotNull) then [row_genesis r] else [])
     @ dep_tips (row_envelope c r)"
  have p: "process_envelope c now allow (row_envelope c r) b = Some (Inr ?ts, b1)"
  proof (cases res)
    case (Inl er)
    then show ?thesis by (cases er) (simp_all add: process_envelope_def auth row_envelope_fields anc ins f(4))
  qed (simp add: process_envelope_def auth row_envelope_fields anc ins f(4))
  show ?thesis by (rule that [OF p g e]) (use i(7) in auto)
qed

section \<open>A round\<close>

text \<open>A peer that serves what it holds: its messages authenticate, and it has all that they refer to.\<close>

definition serves :: "'m Crypto \<Rightarrow> 'm MsgDB \<Rightarrow> bool" where
  "serves c a = (stored c a \<and> (\<forall>r \<in> set (messages a).
     self_authenticate c (row_envelope c r) = Inr (Authenticated (row_envelope c r)) \<and>
     set (dep_tips (row_envelope c r)) \<subseteq> hashes a))"

lemma servesD:
  assumes "serves c a"
  shows "stored c a" and "r \<in> set (messages a) \<Longrightarrow> set (dep_tips (row_envelope c r)) \<subseteq> hashes a"
    and "r \<in> set (messages a) \<Longrightarrow> self_authenticate c (row_envelope c r) = Inr (Authenticated (row_envelope c r))"
    and "r \<in> set (messages a) \<Longrightarrow> row_genesis r \<in> hashes a"
proof -
  show st: "stored c a" using assms by (simp add: serves_def)
  show "row_genesis r \<in> hashes a" if "r \<in> set (messages a)"
    using stored_row(10,11) [OF st that] that by (cases "row_height r = 0") (simp_all add: hashes_def)
qed (use assms in \<open>simp_all add: serves_def\<close>)

lemma process_rows:
  assumes a: "serves c a"
  shows "set qs \<subseteq> set (messages a) \<Longrightarrow> stored c b \<Longrightarrow> agrees a b \<Longrightarrow>
    \<exists>ts b1. process_envelopes c now allow (map (row_envelope c) qs) acc b = Some (Inr ts, b1) \<and>
      grown c a (row_hash ` set qs) b b1 \<and> (\<forall>r \<in> set qs. expects b r \<longrightarrow> row_hash r \<in> hashes b1) \<and>
      (\<forall>r \<in> set qs. set (dep_tips (row_envelope c r)) \<subseteq> set ts) \<and> set acc \<subseteq> set ts \<and> set ts \<subseteq> set acc \<union> hashes a"
proof (induction qs arbitrary: acc b)
  case Nil
  then show ?case by (simp add: grown_def)
next
  case (Cons r qs)
  then have r: "r \<in> set (messages a)" by simp
  obtain us b1 where p: "process_envelope c now allow (row_envelope c r) b = Some (Inr us, b1)"
    "grown c a {row_hash r} b b1" "expects b r \<longrightarrow> row_hash r \<in> hashes b1"
    "set (dep_tips (row_envelope c r)) \<subseteq> set us" "set us \<subseteq> hashes a"
    by (rule process_row [where now = now and allow = allow, OF servesD(1) [OF a] r Cons.prems(2,3) servesD(3) [OF a r]])
      (use servesD(2,4) [OF a r] in auto)
  from p(2) have b1: "stored c b1" "agrees a b1" by (simp_all add: grown_def)
  from Cons.IH [OF _ b1, of "acc @ us"] Cons.prems(1) obtain ts b2 where
    q: "process_envelopes c now allow (map (row_envelope c) qs) (acc @ us) b1 = Some (Inr ts, b2)"
    "grown c a (row_hash ` set qs) b1 b2" "\<forall>r \<in> set qs. expects b1 r \<longrightarrow> row_hash r \<in> hashes b2"
    "\<forall>r \<in> set qs. set (dep_tips (row_envelope c r)) \<subseteq> set ts" "set (acc @ us) \<subseteq> set ts" "set ts \<subseteq> set (acc @ us) \<union> hashes a"
    by auto
  have "grown c a (row_hash ` set (r # qs)) b b2" using grown_trans [OF p(2) q(2)] by simp
  moreover have "\<forall>q \<in> set (r # qs). expects b q \<longrightarrow> row_hash q \<in> hashes b2"
    using p(3) q(2,3) expects_grown [OF p(2)] by (auto simp: grown_def)
  ultimately show ?case using p(1,4,5) q(1,4,5,6) by (intro exI [of _ ts] exI [of _ b2]) auto
qed

text \<open>The row of a hash.\<close>

definition row_at :: "'m MsgDB \<Rightarrow> CanonicalEnvelopeHash \<Rightarrow> 'm Row" where
  "row_at db h = the (find_hash db h)"

lemma row_at_hash: "h \<in> hashes db \<Longrightarrow> row_at db h \<in> set (messages db) \<and> row_hash (row_at db h) = h"
  using found_hash [of db h] find_hash_Some by (fastforce simp: row_at_def)

lemma fetch_specific_tips_found:
  assumes "set ts \<subseteq> hashes a"
  shows "fetch_specific_tips c ts a = Inr (SpecificTipsResponse (map (row_envelope c) (map (row_at a) (remdups_adj (sort ts)))))"
proof -
  have "collect_results (\<lambda>h. case find_hash a h of None \<Rightarrow> Inl QueryReturnedNoRows | Some r \<Rightarrow> Inr (read_body c r))
      (remdups_adj (sort ts)) = Inr (map (\<lambda>h. read_body c (row_at a h)) (remdups_adj (sort ts)))"
    by (rule collect_results_Inr) (use assms found_hash [of a] in \<open>fastforce simp: row_at_def split: option.split\<close>)
  then show ?thesis by (simp add: fetch_specific_tips_def messages_by_hash_def row_envelope_def)
qed

lemma skip_inflight_fresh:
  "i \<le> length ts \<Longrightarrow> distinct (take i ts) \<Longrightarrow> set (take i ts) \<inter> set inflight = {} \<Longrightarrow> fst (skip_inflight i ts inflight) = ts"
proof (induction i arbitrary: inflight)
  case (Suc i)
  then have t: "take (Suc i) ts = take i ts @ [ts ! i]" by (simp add: take_Suc_conv_app_nth)
  show ?case using Suc.IH [of "ts ! i # inflight"] Suc.prems by (simp add: t Let_def)
qed simp

lemma get_tips_fresh: "distinct ts \<Longrightarrow> fst (get_tips True ts []) = ts"
  by (simp add: get_tips_def skip_inflight_fresh)

lemma fetch_round_rows:
  assumes a: "serves c a" and qs: "set qs \<subseteq> set (messages a)" and b: "stored c b" "agrees a b"
  obtains ps b1 where "fetch_round c now allow [] a (map (row_envelope c) qs, b) = Some (Inr (map (row_envelope c) ps, b1))"
    "set ps \<subseteq> set (messages a)" "grown c a (row_hash ` set qs) b b1"
    "\<forall>r \<in> set qs. expects b r \<longrightarrow> row_hash r \<in> hashes b1"
    "\<forall>r \<in> set qs. set (dep_tips (row_envelope c r)) \<subseteq> hashes b1 \<union> row_hash ` set ps"
proof -
  from process_rows [OF a qs b, of now allow "[]"] obtain ts b1 where
    p: "process_envelopes c now allow (map (row_envelope c) qs) [] b = Some (Inr ts, b1)"
    "grown c a (row_hash ` set qs) b b1" "\<forall>r \<in> set qs. expects b r \<longrightarrow> row_hash r \<in> hashes b1"
    "\<forall>r \<in> set qs. set (dep_tips (row_envelope c r)) \<subseteq> set ts" "set ts \<subseteq> hashes a" by auto
  let ?us = "message_not_exists_it (remdups_adj (sort ts)) b1"
  have us: "set ?us = set ts - hashes b1" "distinct ?us"
    using found_hash [of b1] by (auto simp: message_not_exists_it_def message_exists_def distinct_remdups_adj_sorted)
  let ?ps = "map (row_at a) (remdups_adj (sort ?us))"
  have h: "handle_envelope c now allow (map (row_envelope c) qs) b = Some (Inr ?us, b1)"
    by (simp add: handle_envelope_def p(1))
  have f: "fetch_specific_tips c (fst (get_tips True ?us [])) a = Inr (SpecificTipsResponse (map (row_envelope c) ?ps))"
    unfolding get_tips_fresh [OF us(2)] by (rule fetch_specific_tips_found) (use us(1) p(5) in blast)
  have r: "fetch_round c now allow [] a (map (row_envelope c) qs, b) = Some (Inr (map (row_envelope c) ?ps, b1))"
    using f by (cases ?us) (simp_all add: fetch_round_def h del: list.map_comp map_map)
  have hs: "row_hash (row_at a h) = h \<and> row_at a h \<in> set (messages a)" if "h \<in> set ?us" for h
    using row_at_hash [of h a] that us(1) p(5) by blast
  have set_ps: "set ?ps = row_at a ` set ?us" by simp
  show ?thesis
  proof (rule that [OF r _ p(2,3)])
    show "set ?ps \<subseteq> set (messages a)" unfolding set_ps using hs by blast
    have "row_hash ` set ?ps = set ?us" unfolding set_ps image_image using hs by simp
    then show "\<forall>r \<in> set qs. set (dep_tips (row_envelope c r)) \<subseteq> hashes b1 \<union> row_hash ` set ?ps"
      using p(4) us(1) by blast
  qed
qed

section \<open>Catching up\<close>

text \<open>A message, its parent and so on down to a genesis message.\<close>

fun lineage :: "'m Row list \<Rightarrow> bool" where
  "lineage [] = False"
| "lineage [r] = (row_height r = 0)"
| "lineage (r # q # rs) = (row_height r \<noteq> 0 \<and> row_prev r = row_hash q \<and> lineage (q # rs))"

lemma lineage_parent: "lineage rs \<Longrightarrow> r \<in> set rs \<Longrightarrow> row_height r \<noteq> 0 \<Longrightarrow> row_prev r \<in> row_hash ` set rs"
  by (induction rs rule: lineage.induct) auto

text \<open>The store \<open>b\<close> has the parents of the messages \<open>rs\<close> that it has, or they come with \<open>qs\<close>.\<close>

definition no_gap :: "'m MsgDB \<Rightarrow> 'm Row list \<Rightarrow> 'm Row list \<Rightarrow> bool" where
  "no_gap b qs rs = (\<forall>r \<in> set rs. row_hash r \<in> hashes b \<longrightarrow> row_height r \<noteq> 0 \<longrightarrow> row_prev r \<in> hashes b \<union> row_hash ` set qs)"

lemma parent_dep:
  assumes "stored c a" and "r \<in> set (messages a)" and "row_height r \<noteq> 0"
  shows "row_prev r \<in> set (dep_tips (row_envelope c r))"
proof -
  obtain anc where "ancestors (fst (body r)) = Some anc" using stored_row(7) [OF assms(1,2)] assms(3) by auto
  with stored_row(8) [OF assms(1,2) this] show ?thesis by (simp add: dep_tips_def row_envelope_fields)
qed

lemma rounds_total:
  assumes "serves c a"
  shows "set qs \<subseteq> set (messages a) \<Longrightarrow> stored c b \<Longrightarrow> agrees a b \<Longrightarrow>
    \<exists>ps b1. fetch_rounds c now allow a m (map (row_envelope c) qs, b) = Some (Inr (map (row_envelope c) ps, b1)) \<and>
      stored c b1 \<and> agrees a b1 \<and> hashes b \<subseteq> hashes b1"
proof (induction m arbitrary: qs b)
  case (Suc m)
  obtain ps b1 where r: "fetch_round c now allow [] a (map (row_envelope c) qs, b) = Some (Inr (map (row_envelope c) ps, b1))"
    "set ps \<subseteq> set (messages a)" "grown c a (row_hash ` set qs) b b1"
    by (rule fetch_round_rows [where now = now and allow = allow, OF assms Suc.prems])
  from r(3) have "stored c b1" "agrees a b1" "hashes b \<subseteq> hashes b1" by (simp_all add: grown_def)
  with Suc.IH [OF r(2)] show ?case using r(1) by (fastforce simp del: list.map_comp map_map)
qed fastforce

lemma catching_up:
  assumes "serves c a"
  shows "set rs \<subseteq> set (messages a) \<Longrightarrow> lineage rs \<Longrightarrow> length rs \<le> m \<Longrightarrow> set qs \<subseteq> set (messages a) \<Longrightarrow>
    stored c b \<Longrightarrow> agrees a b \<Longrightarrow> \<forall>r \<in> set rs. expects b r \<Longrightarrow> no_gap b qs rs \<Longrightarrow>
    row_hash (hd rs) \<in> hashes b \<union> row_hash ` set qs \<Longrightarrow>
    \<exists>ps b1. fetch_rounds c now allow a m (map (row_envelope c) qs, b) = Some (Inr (map (row_envelope c) ps, b1)) \<and>
      stored c b1 \<and> agrees a b1 \<and> hashes b \<subseteq> hashes b1 \<and> row_hash ` set rs \<subseteq> hashes b1"
proof (induction rs arbitrary: m qs b)
  case (Cons r rest)
  note st = servesD(1) [OF assms]
  from Cons.prems(3) obtain k where m: "m = Suc k" by (cases m) simp_all
  obtain ps b1 where f: "fetch_round c now allow [] a (map (row_envelope c) qs, b) = Some (Inr (map (row_envelope c) ps, b1))"
    "set ps \<subseteq> set (messages a)" "grown c a (row_hash ` set qs) b b1"
    "\<forall>r \<in> set qs. expects b r \<longrightarrow> row_hash r \<in> hashes b1"
    "\<forall>r \<in> set qs. set (dep_tips (row_envelope c r)) \<subseteq> hashes b1 \<union> row_hash ` set ps"
    by (rule fetch_round_rows [where now = now and allow = allow, OF assms Cons.prems(4,5,6)])
  from f(3) have b1: "stored c b1" "agrees a b1" "hashes b \<subseteq> hashes b1" "hashes b1 \<subseteq> hashes b \<union> row_hash ` set qs"
    by (simp_all add: grown_def)
  have asked: "row_hash x \<in> hashes b1" "x \<in> set qs" if "x \<in> set (r # rest)" "row_hash x \<in> row_hash ` set qs" for x
  proof -
    from that(2) obtain q where q: "q \<in> set qs" "row_hash x = row_hash q" by blast
    then have "x = q" using stored_same_row [OF st] that(1) Cons.prems(1,4) by blast
    with q(1) show "x \<in> set qs" by simp
    with f(4) that(1) Cons.prems(7) show "row_hash x \<in> hashes b1" by blast
  qed
  have head: "row_hash r \<in> hashes b1" using Cons.prems(9) b1(3) asked(1) [of r] by auto
  have gap: "row_prev x \<in> hashes b1 \<union> row_hash ` set ps"
    if x: "x \<in> set (r # rest)" "row_hash x \<in> hashes b1" "row_height x \<noteq> 0" for x
  proof (cases "row_hash x \<in> hashes b")
    case True
    obtain y where y: "y \<in> set (r # rest)" "row_prev x = row_hash y" using lineage_parent [OF Cons.prems(2) x(1,3)] by blast
    have "row_prev x \<in> hashes b \<union> row_hash ` set qs" using Cons.prems(8) True x(1,3) unfolding no_gap_def by blast
    then have "row_prev x \<in> hashes b1" using b1(3) asked(1) [OF y(1)] unfolding y(2) by blast
    then show ?thesis by blast
  next
    case False
    then have "x \<in> set qs" using b1(4) x(1,2) asked(2) by blast
    then show ?thesis using f(5) parent_dep [OF st _ x(3)] x(1) Cons.prems(1) by blast
  qed
  show ?case
  proof (cases rest)
    case Nil
    from rounds_total [where now = now and allow = allow and m = k, OF assms f(2) b1(1,2)] show ?thesis
      using f(1) b1(3) head by (fastforce simp: m Nil simp del: list.map_comp map_map)
  next
    case (Cons q rest')
    have "\<forall>r \<in> set rest. expects b1 r" using Cons.prems(7) expects_grown [OF f(3)] by simp
    moreover have "no_gap b1 ps rest" using gap by (simp add: no_gap_def)
    moreover have "row_hash (hd rest) \<in> hashes b1 \<union> row_hash ` set ps"
      using gap [of r] head Cons.prems(2) by (simp add: Cons)
    moreover have "lineage rest" "length rest \<le> k" "set rest \<subseteq> set (messages a)" using Cons.prems(1,2,3) by (simp_all add: Cons m)
    ultimately obtain ps' b2 where
      g: "fetch_rounds c now allow a k (map (row_envelope c) ps, b1) = Some (Inr (map (row_envelope c) ps', b2))"
      "stored c b2" "agrees a b2" "hashes b1 \<subseteq> hashes b2" "row_hash ` set rest \<subseteq> hashes b2"
      using Cons.IH [OF _ _ _ f(2) b1(1,2)] by blast
    have "fetch_rounds c now allow a m (map (row_envelope c) qs, b) = Some (Inr (map (row_envelope c) ps', b2))"
      using f(1) g(1) by (simp add: m)
    moreover have "hashes b \<subseteq> hashes b2" "row_hash ` set (r # rest) \<subseteq> hashes b2" using g(4,5) b1(3) head by auto
    ultimately show ?thesis using g(2,3) by blast
  qed
qed simp

text \<open>A lineage that is stored is connected to its genesis message.\<close>

lemma lineage_rooted:
  assumes "stored c a" and "stored c b" and "agrees a b"
  shows "lineage rs \<Longrightarrow> set rs \<subseteq> set (messages a) \<Longrightarrow> row_hash ` set rs \<subseteq> hashes b \<Longrightarrow>
    r \<in> set rs \<Longrightarrow> rooted (links (messages b)) (row_hash r)"
proof -
  have same: "(row_hash r, row_prev r, row_height r) \<in> links (messages b)"
    if r: "r \<in> set (messages a)" "row_hash r \<in> hashes b" for r
  proof -
    from r(2) obtain q where q: "q \<in> set (messages b)" "row_hash r = row_hash q" by (auto simp: hashes_def)
    then have e: "body r = body q" using assms(3) r(1) by (simp add: agrees_def)
    have h: "row_height r = row_height q" using stored_row(5) [OF assms(1) r(1)] stored_row(5) [OF assms(2) q(1)] e by simp
    have "row_prev r = row_prev q"
    proof (cases "ancestors (fst (body q))")
      case None
      then show ?thesis using stored_row(7,9) [OF assms(1) r(1)] stored_row(7,9) [OF assms(2) q(1)] e h by simp
    next
      case (Some anc)
      then show ?thesis using stored_row(8) [OF assms(1) r(1), of anc] stored_row(8) [OF assms(2) q(1), of anc] e by simp
    qed
    with h q links_mem [OF q(1)] show ?thesis by simp
  qed
  show "lineage rs \<Longrightarrow> set rs \<subseteq> set (messages a) \<Longrightarrow> row_hash ` set rs \<subseteq> hashes b \<Longrightarrow>
    r \<in> set rs \<Longrightarrow> rooted (links (messages b)) (row_hash r)"
  proof (induction rs arbitrary: r rule: lineage.induct)
    case (2 x)
    then show ?case using same [of x] rooted.root by fastforce
  next
    case (3 x q rs)
    have "rooted (links (messages b)) (row_hash q)" using 3 by simp
    then have "rooted (links (messages b)) (row_hash x)" using same [of x] "3.prems" by (auto intro: rooted.child)
    with 3 show ?case by auto
  qed simp
qed

text \<open>A message that is stored is of a known author and a stored genesis.\<close>

lemma stored_expects:
  assumes "stored c a" "r \<in> set (messages a)" and "stored c b" "agrees a b" and "row_hash r \<in> hashes b"
  shows "expects b r"
proof -
  obtain q where q: "q \<in> set (messages b)" "row_hash r = row_hash q" using assms(5) by (auto simp: hashes_def)
  then have e: "body r = body q" using assms(2,4) by (simp add: agrees_def)
  then have g: "row_genesis r = row_genesis q" using stored_row(4) [OF assms(1,2)] stored_row(4) [OF assms(3) q(1)]
    by (simp add: row_envelope_def read_body_def)
  have "row_genesis q \<in> hashes b" using stored_row(10,11) [OF assms(3) q(1)] q(1)
    by (cases "row_height q = 0") (simp_all add: hashes_def)
  moreover obtain u where "u \<in> set (db_users b)" "db_key u = hdr_key (fst (body q))"
    using users_okD(3) [OF store_okD(2) [OF stored_ok [OF assms(3)]] q(1)] by (auto simp: row_ok_def)
  ultimately show ?thesis using e g by (auto simp: expects_def user_keys_def intro: rev_image_eqI)
qed

lemma latest_tips_rows:
  assumes "fetch_latest_tips c a = LatestTipsResponse es"
  obtains ps where "ps = tips_by_user (filter connected (messages a))" "es = map (row_envelope c) ps" "set ps \<subseteq> set (messages a)"
proof (rule that [OF refl])
  show "es = map (row_envelope c) (tips_by_user (filter connected (messages a)))"
    using assms by (auto simp: fetch_latest_tips_def get_tips_for_all_users_def row_envelope_def)
  show "set (tips_by_user (filter connected (messages a))) \<subseteq> set (messages a)"
  proof
    fix r
    assume "r \<in> set (tips_by_user (filter connected (messages a)))"
    then obtain u where "highest (filter (\<lambda>r. row_user r = u) (filter connected (messages a))) = Some r"
      by (auto simp: tips_by_user_def map_filter_def)
    from highest_mem [OF this] show "r \<in> set (messages a)" by simp
  qed
qed

text \<open>C37: Fetching catches up. A peer that serves what it holds answers with its latest tips. When one of
  them is the end of a chain of which this node knows the authors and the genesis, has no message without
  having its parent, and holds no message with an equal hash and another body, then as many rounds as the chain
  has messages, or more, while no other peer's task has hashes in flight, end without an error, and attaching the tips then connects the whole chain.\<close>

theorem fetching_catches_up:
  assumes "serves c a" and "stored c b" and "agrees a b"
    and "set rs \<subseteq> set (messages a)" and "lineage rs" and "list_all (expects b) rs" and "no_gap b [] rs"
    and "fetch_latest_tips c a = LatestTipsResponse es" and "row_envelope c (hd rs) \<in> set es" and "length rs \<le> m"
  shows "\<exists>es1 b1. fetch_rounds c now allow a m (es, b) = Some (Inr (es1, b1)) \<and> stored c b1 \<and>
    row_hash ` set rs \<subseteq> row_hash ` set (filter connected (messages (snd (attach_tips b1))))"
proof -
  note st = servesD(1) [OF assms(1)]
  obtain qs where qs: "es = map (row_envelope c) qs" "set qs \<subseteq> set (messages a)"
    by (rule latest_tips_rows [OF assms(8)])
  obtain q where q: "q \<in> set qs" "row_envelope c (hd rs) = row_envelope c q" using assms(9) qs(1) by auto
  have hd: "hd rs \<in> set (messages a)" using assms(4,5) by (cases rs) auto
  have "row_hash (hd rs) = row_hash q" using stored_row(2) [OF st hd] stored_row(2) [OF st, of q] q qs(2) by auto
  then have "row_hash (hd rs) \<in> hashes b \<union> row_hash ` set qs" using q(1) by simp
  moreover have "no_gap b qs rs" using assms(7) by (auto simp: no_gap_def)
  moreover have "\<forall>r \<in> set rs. expects b r" using assms(6) by (simp add: list_all_iff)
  ultimately obtain ps b1 where f:
    "fetch_rounds c now allow a m (map (row_envelope c) qs, b) = Some (Inr (map (row_envelope c) ps, b1))"
    "stored c b1" "agrees a b1" "row_hash ` set rs \<subseteq> hashes b1"
    using catching_up [OF assms(1,4,5,10) qs(2) assms(2,3)] by blast
  have "row_hash ` set rs \<subseteq> Collect (rooted (links (messages b1)))"
    using lineage_rooted [OF st f(2,3) assms(5,4) f(4)] by blast
  then show ?thesis using f(1,2) qs(1) attached_hashes [OF f(2)] by blast
qed

section \<open>Gaps\<close>

lemma process_stored:
  assumes "serves c a" and "stored c b" and "agrees a b"
  shows "set qs \<subseteq> set (messages a) \<Longrightarrow> \<forall>r \<in> set qs. row_hash r \<in> hashes b \<Longrightarrow>
    \<forall>r \<in> set qs. set (dep_tips (row_envelope c r)) \<subseteq> hashes b \<Longrightarrow> set acc \<subseteq> hashes b \<Longrightarrow>
    \<exists>ts. process_envelopes c now allow (map (row_envelope c) qs) acc b = Some (Inr ts, b) \<and> set ts \<subseteq> hashes b"
proof (induction qs arbitrary: acc)
  case (Cons r qs)
  then have r: "r \<in> set (messages a)" "row_hash r \<in> hashes b" by simp_all
  have ex: "expects b r" by (rule stored_expects [OF servesD(1) [OF assms(1)] r(1) assms(2,3) r(2)])
  obtain us b1 where p: "process_envelope c now allow (row_envelope c r) b = Some (Inr us, b1)"
    "set us \<subseteq> insert (row_genesis r) (set (dep_tips (row_envelope c r)))" "b1 = b"
    by (rule process_row [where now = now and allow = allow, OF servesD(1) [OF assms(1)] r(1) assms(2,3) servesD(3) [OF assms(1) r(1)]])
      (use r(2) ex in blast)
  have "set us \<subseteq> hashes b" using p(2) Cons.prems(3) ex by (auto simp: expects_def)
  with Cons.IH [of "acc @ us"] Cons.prems p(1,3) show ?case by auto
qed simp

text \<open>C39: A gap below the tips is never fetched. When a node has every latest tip of a peer and the messages
  that the tips refer to, a round of fetching, whatever other tasks are fetching, asks for nothing and changes nothing, so a message further down that
  is missing, as after a fetch that was cut off, is not asked for however often the tips are fetched; the
  messages above it stay unconnected.\<close>

theorem gap_is_never_fetched:
  assumes "serves c a" and "stored c b" and "agrees a b" and "fetch_latest_tips c a = LatestTipsResponse es"
    and "list_all (\<lambda>e. message_exists (canonicalized_hash_ref c e) b \<and> list_all (\<lambda>h. message_exists h b) (dep_tips e)) es"
  shows "fetch_round c now allow busy a (es, b) = Some (Inr ([], b))"
proof -
  obtain qs where qs: "es = map (row_envelope c) qs" "set qs \<subseteq> set (messages a)"
    by (rule latest_tips_rows [OF assms(4)])
  have ex: "message_exists h b = (h \<in> hashes b)" for h using found_hash [of b h] by (simp add: message_exists_def)
  have "row_hash r \<in> hashes b \<and> set (dep_tips (row_envelope c r)) \<subseteq> hashes b" if r: "r \<in> set qs" for r
  proof -
    have "r \<in> set (messages a)" using r qs(2) by blast
    from stored_row(2) [OF servesD(1) [OF assms(1)] this] show ?thesis using assms(5) r by (auto simp: list_all_iff ex qs(1))
  qed
  with process_stored [OF assms(1-3) qs(2), of "[]" now allow] obtain ts where
    ts: "process_envelopes c now allow es [] b = Some (Inr ts, b)" "set ts \<subseteq> hashes b"
    unfolding qs(1) by auto
  have "message_not_exists_it (remdups_adj (sort ts)) b = []"
    using ts(2) by (auto simp: message_not_exists_it_def ex filter_empty_conv)
  then show ?thesis by (simp add: fetch_round_def handle_envelope_def ts(1))
qed

section \<open>Pushing\<close>

lemma insert_posted_rows:
  assumes a: "stored c a"
  shows "set qs \<subseteq> set (messages a) \<Longrightarrow> stored c b \<Longrightarrow> agrees a b \<Longrightarrow>
    \<exists>outs b1. insert_posted c now (map (read_body c) qs) b = Some (outs, b1) \<and>
      grown c a (row_hash ` set qs) b b1 \<and> (\<forall>r \<in> set qs. expects b r \<longrightarrow> row_hash r \<in> hashes b1)"
proof (induction qs arbitrary: b)
  case Nil
  then show ?case by (simp add: grown_def)
next
  case (Cons r qs)
  then have r: "r \<in> set (messages a)" by simp
  obtain res b1 where i:
    "try_insert_authenticated_envelope_with_txn c now (Authenticated (row_envelope c r)) b = Some (res, b1)"
    "hashes b \<subseteq> hashes b1" "hashes b1 \<subseteq> insert (row_hash r) (hashes b)" "db_users b1 = db_users b" "agrees a b1"
    "hdr_key (fst (body r)) \<in> user_keys b \<and> (row_height r = 0 \<or> row_genesis r \<in> hashes b) \<longrightarrow>
      row_hash r \<in> hashes b1 \<and> (res = Inr () \<or> res = Inl SqliteConstraintUnique)"
    "row_hash r \<in> hashes b \<longrightarrow> b1 = b"
    by (rule insert_row [where now = now, OF a r Cons.prems(3)])
  have t: "try_insert_authenticated_envelope c now False (read_body c r) b = Some (res, b1)"
    using i(1) by (simp add: try_insert_authenticated_envelope_def row_envelope_fields split: option.splits)
  have st: "stored c b1" using stored.envelope [OF Cons.prems(2) stored_row(1) [OF a r]] t by (simp add: row_envelope_fields)
  have g: "grown c a {row_hash r} b b1" using i st by (auto simp: grown_def user_keys_def)
  from Cons.IH [OF _ st i(5)] Cons.prems(1) obtain outs b2 where
    q: "insert_posted c now (map (read_body c) qs) b1 = Some (outs, b2)" "grown c a (row_hash ` set qs) b1 b2"
    "\<forall>r \<in> set qs. expects b1 r \<longrightarrow> row_hash r \<in> hashes b2" by auto
  have "grown c a (row_hash ` set (r # qs)) b b2" using grown_trans [OF g q(2)] by simp
  moreover have "\<forall>x \<in> set (r # qs). expects b x \<longrightarrow> row_hash x \<in> hashes b2"
    using i(6) q(2,3) expects_grown [OF g] by (auto simp: grown_def expects_def)
  ultimately show ?case using t q(1) by simp
qed

lemma authenticated_rows:
  "serves c a \<Longrightarrow> set qs \<subseteq> set (messages a) \<Longrightarrow> authenticated_prefix c (map (row_envelope c) qs) = map (read_body c) qs"
  by (induction qs) (simp_all add: servesD(3) row_envelope_fields(4))

text \<open>What is posted are stored messages, among them the connected ones that are newer than a tracked tip.\<close>

lemma to_broadcast_rows:
  obtains qs where "to_broadcast c tracker db = map (read_body c) qs" "set qs \<subseteq> set (messages db)"
    "\<And>r g t. r \<in> set (messages db) \<Longrightarrow> connected r \<Longrightarrow> (g, t) \<in> set tracker \<Longrightarrow>
       get_genesis_hash c (inner t) = row_genesis r \<Longrightarrow> height (header (inner t)) < row_height r \<Longrightarrow> r \<in> set qs"
proof -
  define newer where "newer e = sort_key row_height (filter (\<lambda>r. row_genesis r = get_genesis_hash c (inner e) \<and> connected r \<and>
    height (header (inner e)) < row_height r) (messages db))" for e
  let ?ms = "concat (map newer (map snd tracker))"
  have m: "get_connected_messages_newer_than_envelopes c (map snd tracker) db = map (read_body c) ?ms"
    by (simp add: get_connected_messages_newer_than_envelopes_def newer_def map_concat comp_def)
  have f: "filter P (map h xs) = map h (filter (\<lambda>x. P (h x)) xs)" for P :: "'b \<Rightarrow> bool" and h :: "'c \<Rightarrow> 'b" and xs
    by (simp add: filter_map comp_def)
  obtain gs where gs: "to_broadcast c tracker db = map (read_body c) (?ms @ gs)" "set gs \<subseteq> set (messages db)"
    unfolding to_broadcast_def m Let_def get_all_genesis_def f map_append [symmetric] by (metis (no_types, lifting) filter_is_subset order_trans)
  show ?thesis
  proof (rule that [OF gs(1)])
    show "set (?ms @ gs) \<subseteq> set (messages db)" using gs(2) by (auto simp: newer_def)
    show "r \<in> set (?ms @ gs)" if "r \<in> set (messages db)" "connected r" "(g, t) \<in> set tracker"
      "get_genesis_hash c (inner t) = row_genesis r" "height (header (inner t)) < row_height r" for r g t
      using that by (force simp: newer_def)
  qed
qed

text \<open>C38: Pushing delivers. A round of pushing to a peer does not panic, and afterwards the peer still has what it had and
  has every connected message of this node that is higher than a tip that is tracked for its chain, when
  the peer knows its author and has its genesis.\<close>

theorem pushing_delivers:
  assumes "serves c db" and "stored c peer" and "agrees db peer"
  shows "\<exists>tr outs peer'. push_round c now db tracker peer = Some (tr, outs, peer') \<and> stored c peer' \<and>
    row_hash ` set (messages peer) \<subseteq> row_hash ` set (messages peer') \<and>
    list_all (\<lambda>r. connected r \<and> expects peer r \<and>
        list_ex (\<lambda>(_, t). get_genesis_hash c (inner t) = row_genesis r \<and> height (header (inner t)) < row_height r) tr
      \<longrightarrow> message_exists (row_hash r) peer') (messages db)"
proof -
  let ?tr = "track_tips c (map inner (get_tips_for_all_users c peer)) tracker"
  note st = servesD(1) [OF assms(1)]
  have ex: "message_exists h d = (h \<in> hashes d)" for h and d :: "'a MsgDB" using found_hash [of d h] by (simp add: message_exists_def)
  obtain qs where qs: "to_broadcast c ?tr db = map (read_body c) qs" "set qs \<subseteq> set (messages db)"
    "\<And>r g t. r \<in> set (messages db) \<Longrightarrow> connected r \<Longrightarrow> (g, t) \<in> set ?tr \<Longrightarrow>
       get_genesis_hash c (inner t) = row_genesis r \<Longrightarrow> height (header (inner t)) < row_height r \<Longrightarrow> r \<in> set qs"
    by (rule to_broadcast_rows [where c = c and db = db and tracker = ?tr]) blast
  from insert_posted_rows [OF st qs(2) assms(2,3), of now] obtain outs peer' where
    i: "insert_posted c now (map (read_body c) qs) peer = Some (outs, peer')"
    "grown c db (row_hash ` set qs) peer peer'" "\<forall>r \<in> set qs. expects peer r \<longrightarrow> row_hash r \<in> hashes peer'" by blast
  have e: "map inner (map (read_body c) qs) = map (row_envelope c) qs" by (simp add: row_envelope_def)
  have "push_round c now db tracker peer = Some (?tr, (if qs = [] then [] else outs), peer')"
    using i(1) by (simp add: push_round_def Let_def qs(1) e post_envelope_def authenticated_rows [OF assms(1) qs(2)] del: map_map list.map_comp)
      (cases qs; simp)
  moreover have "list_all (\<lambda>r. connected r \<and> expects peer r \<and>
        list_ex (\<lambda>(_, t). get_genesis_hash c (inner t) = row_genesis r \<and> height (header (inner t)) < row_height r) ?tr
      \<longrightarrow> message_exists (row_hash r) peer') (messages db)"
    using qs(3) i(3) by (auto simp: list_all_iff list_ex_iff ex)
  ultimately show ?thesis using i(2) by (auto simp: grown_def hashes_def)
qed

section \<open>Examples\<close>

text \<open>A peer with four messages of one chain, a node that has the genesis only, and one that misses the second.\<close>

definition ex_c3 :: "string GenericEnvelope" where "ex_c3 = ex_message ''c--3'' (Some (3, 1)) 3"
definition ex_peer :: "string MsgDB" where "ex_peer = snd (attach_tips (ex_add ex_c3 ex_db1))"
definition ex_gap :: "string MsgDB" where "ex_gap = ex_add ex_c3 (ex_add ex_c2 ex_base)"

lemma ex_peer_stored: "stored toy_crypto ex_peer" "stored toy_crypto ex_gap"
  by (simp_all add: ex_peer_def ex_gap_def ex_c3_def stored.attach ex_add_stored ex_db_stored ex_base_stored ex_message_proper ex_proper)

lemma ex_peer_serves: "serves toy_crypto ex_peer"
proof -
  have "list_all (\<lambda>r. self_authenticate toy_crypto (row_envelope toy_crypto r) = Inr (Authenticated (row_envelope toy_crypto r)) \<and>
     list_all (\<lambda>h. h \<in> hashes ex_peer) (dep_tips (row_envelope toy_crypto r))) (messages ex_peer)" by code_simp
  then show ?thesis using ex_peer_stored(1) by (auto simp: serves_def list_all_iff)
qed

lemma ex_agrees: "agrees ex_peer ex_base" "agrees ex_peer ex_gap"
  by code_simp+

theorem fetching_catches_up_witness:
  "\<exists>es1 b1. fetch_rounds toy_crypto 9 True ex_peer 4 (map inner (get_tips_for_all_users toy_crypto ex_peer), ex_base) = Some (Inr (es1, b1)) \<and>
     stored toy_crypto b1 \<and> CanonicalEnvelopeHash 4 \<in> row_hash ` set (filter connected (messages (snd (attach_tips b1)))) \<and>
     CanonicalEnvelopeHash 4 \<notin> hashes ex_base"
proof -
  have "set (rev (messages ex_peer)) \<subseteq> set (messages ex_peer)" "lineage (rev (messages ex_peer))"
    "list_all (expects ex_base) (rev (messages ex_peer))" "no_gap ex_base [] (rev (messages ex_peer))"
    "fetch_latest_tips toy_crypto ex_peer = LatestTipsResponse (map inner (get_tips_for_all_users toy_crypto ex_peer))"
    "row_envelope toy_crypto (hd (rev (messages ex_peer))) \<in> set (map inner (get_tips_for_all_users toy_crypto ex_peer))"
    "length (rev (messages ex_peer)) \<le> 4"
    by code_simp+
  from fetching_catches_up [OF ex_peer_serves ex_base_stored ex_agrees(1) this, of 9 True]
  obtain es1 b1 where
    "fetch_rounds toy_crypto 9 True ex_peer 4 (map inner (get_tips_for_all_users toy_crypto ex_peer), ex_base) = Some (Inr (es1, b1))"
    "stored toy_crypto b1"
    "row_hash ` set (rev (messages ex_peer)) \<subseteq> row_hash ` set (filter connected (messages (snd (attach_tips b1))))" by blast
  moreover have "CanonicalEnvelopeHash 4 \<in> row_hash ` set (rev (messages ex_peer))" "CanonicalEnvelopeHash 4 \<notin> hashes ex_base"
    by code_simp+
  ultimately show ?thesis by blast
qed

theorem gap_is_never_fetched_witness:
  "fetch_round toy_crypto 9 True [] ex_peer (map inner (get_tips_for_all_users toy_crypto ex_peer), ex_gap) = Some (Inr ([], ex_gap)) \<and>
   CanonicalEnvelopeHash 2 \<in> hashes ex_peer \<and> CanonicalEnvelopeHash 2 \<notin> hashes ex_gap"
proof -
  have "fetch_latest_tips toy_crypto ex_peer = LatestTipsResponse (map inner (get_tips_for_all_users toy_crypto ex_peer))"
    "list_all (\<lambda>e. message_exists (canonicalized_hash_ref toy_crypto e) ex_gap \<and> list_all (\<lambda>h. message_exists h ex_gap) (dep_tips e))
       (map inner (get_tips_for_all_users toy_crypto ex_peer))"
    by code_simp+
  moreover have "CanonicalEnvelopeHash 2 \<in> hashes ex_peer" "CanonicalEnvelopeHash 2 \<notin> hashes ex_gap" by code_simp+
  ultimately show ?thesis using gap_is_never_fetched [OF ex_peer_serves ex_peer_stored(2) ex_agrees(2), of _ 9 True] by blast
qed

theorem pushing_delivers_witness:
  "\<exists>tr outs peer'. push_round toy_crypto 9 ex_peer [] ex_base = Some (tr, outs, peer') \<and>
     list_all (\<lambda>r. message_exists (row_hash r) peer') (messages ex_peer)"
proof -
  obtain tr outs peer' where p: "push_round toy_crypto 9 ex_peer [] ex_base = Some (tr, outs, peer')"
    "row_hash ` set (messages ex_base) \<subseteq> row_hash ` set (messages peer')"
    "list_all (\<lambda>r. connected r \<and> expects ex_base r \<and>
        list_ex (\<lambda>(_, t). get_genesis_hash toy_crypto (inner t) = row_genesis r \<and> height (header (inner t)) < row_height r) tr
      \<longrightarrow> message_exists (row_hash r) peer') (messages ex_peer)"
    using pushing_delivers [OF ex_peer_serves ex_base_stored ex_agrees(1), of 9 "[]"] by blast
  have "map_option fst (push_round toy_crypto 9 ex_peer [] ex_base) = Some [(CanonicalEnvelopeHash 1, Authenticated ex_g)]" by code_simp
  then have tr: "tr = [(CanonicalEnvelopeHash 1, Authenticated ex_g)]" using p(1) by simp
  have rows: "list_all (\<lambda>r. row_hash r \<in> hashes ex_base \<or> connected r \<and> expects ex_base r \<and>
      list_ex (\<lambda>(_, t). get_genesis_hash toy_crypto (inner t) = row_genesis r \<and> height (header (inner t)) < row_height r)
        [(CanonicalEnvelopeHash 1, Authenticated ex_g)]) (messages ex_peer)" by code_simp
  have "message_exists h d = (h \<in> hashes d)" for h and d :: "string MsgDB" using found_hash [of d h] by (simp add: message_exists_def)
  with p(2) have kept: "message_exists h peer'" if "h \<in> hashes ex_base" for h using that by (auto simp: hashes_def)
  have "list_all (\<lambda>r. message_exists (row_hash r) peer') (messages ex_peer)"
    unfolding list_all_iff
  proof
    fix r assume r: "r \<in> set (messages ex_peer)"
    note new = bspec [OF p(3) [unfolded tr list_all_iff] r]
    from bspec [OF rows [unfolded list_all_iff] r] show "message_exists (row_hash r) peer'"
      by (rule disjE) (erule kept, erule mp [OF new])
  qed
  with p(1) show ?thesis by blast
qed

end
