(* ===== verification/Control_Server.thy ===== *)
theory Control_Server
  imports Peer_Services
begin

text \<open>
  The requests of the owner of a node (\<open>common/attest/src/control/server.rs\<close>): a snapshot of the store, the
  groups of a chain, the status, the peers, new chains, and messages, also two that contradict each other.
  Randomness, times, the checkpoints of the Bitcoin chain and the running tasks are arguments, and so is
  how the library reads an array and an extended private key. Routes and headers are left out, an HTTP
  response is its data, and a panic is \<open>None\<close>.
\<close>

datatype ControlError =
  ControlSql SqlError
| HostnameFailed
| UnknownKey
| NoTip SqlError
| WrapFailed CreateError
| RetryFailed RetryError
| InvalidExtendedPrivateKey
| GenesisSigning SigningError
| GenesisSql SqlError

section \<open>Queries\<close>

definition get_expensive_db_snapshot :: "'m Crypto \<Rightarrow> 'm MsgDB \<Rightarrow> (CanonicalEnvelopeHash \<times> 'm GenericEnvelope) list" where
  "get_expensive_db_snapshot c db =
     map (map_prod id inner) (snd (get_all_messages_collect_into_inconsistent c None [] db))"

record 'm ChainCommitGroupInfo =
  info_genesis :: CanonicalEnvelopeHash
  info_members :: "'m GenericEnvelope list"
  all_msgs :: "(CanonicalEnvelopeHash \<times> 'm GenericEnvelope) list"

text \<open>The ids of the members' messages are read, and what is newer than the id 0 is collected.\<close>

definition chain_commit_groups ::
  "'m Crypto \<Rightarrow> CanonicalEnvelopeHash \<Rightarrow> 'm MsgDB \<Rightarrow> ControlError + 'm ChainCommitGroupInfo" where
  "chain_commit_groups c key db =
     (case messages_by_hash c [key] db of
        Inl e \<Rightarrow> Inl (ControlSql e)
      | Inr es \<Rightarrow>
          (case messages_by_ids c (get_all_chain_commit_group_members_for_chain key db) db of
             Inl e \<Rightarrow> Inl (ControlSql e)
           | Inr group_tips \<Rightarrow> Inr \<lparr>info_genesis = key, info_members = map inner group_tips,
               all_msgs = map (map_prod id inner)
                 (snd (get_all_chain_commit_group_members_new_envelopes_for_chain_into_inconsistent c
                   (hdr_key (header (inner (es ! 0)))) 0 [] db))\<rparr>))"

record 'm TipData =
  tip_envelope :: "'m GenericEnvelope"
  tip_hash :: CanonicalEnvelopeHash

text \<open>Of each user whether his secret key is stored.\<close>

record 'm Status =
  status_peers :: "PeerInfo list"
  status_tips :: "'m TipData list"
  peer_connections :: "TaskID list"
  all_users :: "(XOnlyPublicKey \<times> string \<times> bool) list"
  hidden_service_url :: "ServiceUrl option"

definition get_status :: "'m Crypto \<Rightarrow> NodeConfig \<Rightarrow> TaskID list \<Rightarrow> 'm MsgDB \<Rightarrow> ControlError + 'm Status" where
  "get_status c cfg running_tasks db =
     (let tips = map (\<lambda>t. \<lparr>tip_envelope = inner t, tip_hash = canonicalized_hash_ref c (inner t)\<rparr>) (get_tips_for_all_users c db);
          known_keys = get_keymap db;
          users = map (\<lambda>(k, v). (k, v, bt_get known_keys k \<noteq> None)) (get_all_users db);
          status = (\<lambda>h. \<lparr>status_peers = get_all_hidden_services db, status_tips = tips,
            peer_connections = running_tasks, all_users = users, hidden_service_url = h\<rparr>)
      in case tor_hostname cfg of
           None \<Rightarrow> Inr (status None)
         | Some None \<Rightarrow> Inl HostnameFailed
         | Some (Some h) \<Rightarrow> Inr (status (Some h)))"

section \<open>Peers\<close>

record Subscribe =
  sub_url :: string
  sub_port :: nat
  sub_fetch_from :: "bool option"
  sub_push_to :: "bool option"
  sub_allow :: "bool option"

text \<open>The tasks are refreshed afterwards.\<close>

definition listen_to_service :: "Subscribe \<Rightarrow> 'm MsgDB \<Rightarrow> 'm MsgDB" where
  "listen_to_service s db = upsert_hidden_service (sub_url s) (sub_port s) (sub_fetch_from s) (sub_push_to s) (sub_allow s) db"

section \<open>Messages\<close>

record 'm PushMsg =
  push_msg :: 'm
  push_key :: XOnlyPublicKey
  equivocate :: bool

text \<open>
  Every message becomes a child of the same tip. An envelope that does not authenticate is a panic; whether
  it is stored is not looked at.
\<close>

fun push_equivocation ::
  "'m Crypto \<Rightarrow> nat \<Rightarrow> BitcoinCheckPoints \<Rightarrow> 'm GenericEnvelope \<Rightarrow> ('m \<times> int \<times> PrecomittedNonce) list \<Rightarrow> 'm MsgDB \<Rightarrow>
   ((ControlError + unit) \<times> 'm MsgDB) option" where
  "push_equivocation c kp cps tip [] db = Some (Inr (), db)"
| "push_equivocation c kp cps tip ((dirty, now, fresh) # ds) db = do {
     (w, db1) \<leftarrow> wrap_message_in_envelope_for_user_by_key c dirty kp (Some cps) (Some tip) NoTips now fresh db;
     case w of
       Inl e \<Rightarrow> Some (Inl (WrapFailed e), db1)
     | Inr m \<Rightarrow>
         (case self_authenticate c m of
            Inl _ \<Rightarrow> None
          | Inr a \<Rightarrow> do {
              (_, db2) \<leftarrow> try_insert_authenticated_envelope c now False a db1;
              push_equivocation c kp cps tip ds db2
            })
   }"

text \<open>
  The key pair is made from the stored secret. With \<open>equivocate\<close> a message that is an array of two is taken
  apart, the second one first; any other message is dropped without an error.
\<close>

definition push_message_dangerous ::
  "'m Crypto \<Rightarrow> ('m \<Rightarrow> 'm list option) \<Rightarrow> BitcoinCheckPoints \<Rightarrow> 'm PushMsg \<Rightarrow> int \<times> PrecomittedNonce \<Rightarrow>
   int \<times> PrecomittedNonce \<Rightarrow> (int \<times> PrecomittedNonce) list \<Rightarrow> 'm MsgDB \<Rightarrow> ((ControlError + unit) \<times> 'm MsgDB) option" where
  "push_message_dangerous c as_array cps q d1 d2 draws db =
     (case bt_get (get_keymap db) (push_key q) of
        None \<Rightarrow> Some (Inl UnknownKey, db)
      | Some kp \<Rightarrow>
          (if equivocate q
           then (case as_array (push_msg q) of
                   Some [m1, m2] \<Rightarrow>
                     (case get_tip_for_user_by_key c (public_key c kp) db of
                        Inl e \<Rightarrow> Some (Inl (NoTip e), db)
                      | Inr tip \<Rightarrow> push_equivocation c kp cps (inner tip) [(m2, d1), (m1, d2)] db)
                 | _ \<Rightarrow> Some (Inr (), db))
           else map_option (map_prod (map_sum RetryFailed id) id)
             (retry_insert_authenticated_envelope_atomic c (push_msg q) kp (Some cps) AllTips draws db)))"

section \<open>New chains\<close>

record 'm NewGenesis =
  nickname :: string
  genesis_msg :: 'm
  danger_extended_private_key :: "string option"

text \<open>\<open>random\<close> is the key pair that is drawn when none is given.\<close>

definition make_genesis ::
  "'m Crypto \<Rightarrow> (string \<Rightarrow> nat option) \<Rightarrow> 'm NewGenesis \<Rightarrow> nat \<Rightarrow> PrecomittedNonce \<Rightarrow> PrecomittedNonce \<Rightarrow> int \<Rightarrow> 'm MsgDB \<Rightarrow>
   ((ControlError + 'm GenericEnvelope) \<times> 'm MsgDB) option" where
  "make_genesis c read_xpriv q random nonce next now db =
     (case (case danger_extended_private_key q of None \<Rightarrow> Some random | Some t \<Rightarrow> read_xpriv t) of
        None \<Rightarrow> Some (Inl InvalidExtendedPrivateKey, db)
      | Some k \<Rightarrow>
          (case generate_new_user_keypair c (genesis_msg q) k nonce next now of
             Inl e \<Rightarrow> Some (Inl (GenesisSigning e), db)
           | Inr (kp, pre, genesis) \<Rightarrow>
               (case save_keypair (public_key c kp) kp db of
                  (Inl e, db1) \<Rightarrow> Some (Inl (GenesisSql e), db1)
                | (Inr _, db1) \<Rightarrow>
                    (case save_nonce_for_user_by_key c pre (public_key c kp) db1 of
                       (Inl e, db2) \<Rightarrow> Some (Inl (GenesisSql e), db2)
                     | (Inr _, db2) \<Rightarrow>
                         (case self_authenticate c genesis of
                            Inl _ \<Rightarrow> None
                          | Inr a \<Rightarrow> do {
                              (r, db3) \<leftarrow> insert_user_by_genesis_envelope c now (nickname q) a db2;
                              case r of Inl _ \<Rightarrow> None | Inr _ \<Rightarrow> Some (Inr genesis, db3)
                            })))))"

end
