(* ===== verification/Control_Laws.thy ===== *)
theory Control_Laws
  imports Control_Server Store_Props
begin

text \<open>
  What the requests of the owner do: a contradiction that is pushed gives away the secret key, and a new
  chain can be extended at once.
\<close>

section \<open>Children of one tip\<close>

text \<open>What a request of the owner leaves alone.\<close>

lemma insert_keeps_keys:
  assumes "try_insert_authenticated_envelope_with_txn c now a db = Some (r, db')"
  shows "private_keys db' = private_keys db \<and> message_nonces db' = message_nonces db \<and> db_users db' = db_users db"
  using assms by (cases rule: insert_envelope_cases) auto

text \<open>
  A stored tip takes any number of children: a signed child is inserted, and afterwards the tip and every
  other message are still stored.
\<close>

definition tip_stored :: "'m Crypto \<Rightarrow> nat \<Rightarrow> 'm GenericEnvelope \<Rightarrow> 'm MsgDB \<Rightarrow> bool" where
  "tip_stored c kp tip db = (find_user db (public_key c kp) \<noteq> None \<and> (\<exists>p \<in> set (messages db).
     body p = (header tip, msg tip) \<and> row_hash p = canonicalized_hash_ref c tip \<and> row_height p = height (header tip)))"

lemma child_inserted:
  assumes ok: "store_ok c db" and tip: "tip_stored c kp tip db"
    and env: "env = snd (sign_with c kp sec (unsigned_child c m kp cps NoTips now fresh (height (header tip) + 1) tip db0))"
    and new: "find_hash db (canonicalized_hash_ref c env) = None"
  obtains db' where "try_insert_authenticated_envelope c t False (Authenticated env) db = Some (Inr (), db')"
    "store_ok c db'" "tip_stored c kp tip db'" "message_exists (canonicalized_hash_ref c env) db'"
    "\<forall>h. message_exists h db \<longrightarrow> message_exists h db'"
    "\<forall>h. h \<noteq> canonicalized_hash_ref c env \<longrightarrow> \<not> message_exists h db \<longrightarrow> \<not> message_exists h db'"
    "private_keys db' = private_keys db" "message_nonces db' = message_nonces db"
proof -
  obtain u p where u: "find_user db (public_key c kp) = Some u" and p: "p \<in> set (messages db)"
    and b: "body p = (header tip, msg tip)" and ph: "row_hash p = canonicalized_hash_ref c tip" "row_height p = height (header tip)"
    using tip by (auto simp: tip_stored_def)
  have fp: "find_hash db (canonicalized_hash_ref c tip) = Some p" using find_hash_mem [OF store_okD(1) [OF ok] p(1)] ph by simp
  have pos: "0 \<le> height (header tip)" using db_okD(3) [OF store_okD(1) [OF ok] p(1)] ph by (auto simp: row_check_def)
  obtain sig where sig: "envelope_signature env = Some sig" using sign_fields(3) env by blast
  have hd: "header env = \<lparr>hdr_key = public_key c kp, next_nonce = PrecomittedPublicNonce (public_key c (secret fresh)),
      ancestors = Some \<lparr>prev_msg = canonicalized_hash_ref c tip, anc_genesis = get_genesis_hash c tip\<rparr>,
      tips = collect_tips c NoTips (public_key c kp) db0, height = height (header tip) + 1, sent_time_ms = now,
      unsigned_part = \<lparr>signature = Some sig\<rparr>, checkpoints = (case cps of None \<Rightarrow> default_checkpoints | Some b \<Rightarrow> b)\<rparr>"
    using sig unfolding env by (subst sign_fields(1)) (simp add: unsigned_child_def new_envelope_def Let_def)
  let ?r = "new_row c t env sig (user_id u) db"
  let ?db = "db\<lparr>messages := message_parents ?r (messages db @ [?r])\<rparr>"
  have chk: "row_check ?r"
    using pos genesis_stored [OF ok p(1) b ph(1)] fp
    by (auto simp: row_check_def new_row_def Let_def hd get_genesis_hash_def)
  have rh: "row_hash ?r = canonicalized_hash_ref c env" by (simp add: new_row_def Let_def)
  have ins: "try_insert_authenticated_envelope c t False (Authenticated env) db = Some (Inr (), ?db)"
    using sig u chk new
    by (simp add: try_insert_authenticated_envelope_def try_insert_authenticated_envelope_with_txn_def hd Let_def rh)
  have pr: "proper c (Authenticated env)" using pos unfolding proper_def
    by (simp add: hd check_ancestors_def) (simp add: env cache_ok_sign)
  have hs: "row_hash ` set (message_parents ?r (messages db @ [?r])) = insert (canonicalized_hash_ref c env) (row_hash ` set (messages db))"
    using arg_cong [OF trigger_fields(1) [of ?r "messages db @ [?r]"], of set] rh by simp
  have ex: "message_exists h d = (h \<in> row_hash ` set (messages d))" for h and d :: "'a MsgDB"
    by (simp add: message_exists_def find_hash_None)
  have "tip_stored c kp tip ?db"
  proof -
    let ?p = "if row_prev p = row_hash ?r then p\<lparr>prev_msg_id := Some (message_id ?r)\<rparr> else p"
    have m: "?p \<in> set (messages ?db)" using p by (auto simp: message_parents_def)
    have f: "find_user ?db (public_key c kp) \<noteq> None" using u by (simp add: find_user_def)
    show ?thesis unfolding tip_stored_def by (intro conjI f bexI [OF _ m]) (simp_all add: b ph)
  qed
  then show ?thesis
    by (intro that [OF ins]) (use store_ok_envelope [OF ok pr ins] in \<open>simp_all add: ex hs\<close>)
qed

lemma find_append: "find P xs = Some x \<Longrightarrow> find P (xs @ ys) = Some x"
  by (induction xs) auto

text \<open>A message is wrapped as a child of a given tip.\<close>

lemma wrap_child:
  assumes "get_secret_for_public_nonce (next_nonce (header tip)) db = Inr sec"
    and "save_nonce_for_user_by_key c fresh (public_key c kp) db = (Inr pub, db1)"
    and "0 \<le> height (header tip)" "height (header tip) < 2 ^ 63 - 1"
  shows "wrap_message_in_envelope_for_user_by_key c m kp cps (Some tip) NoTips now fresh db =
    Some (Inr (snd (sign_with c kp sec (unsigned_child c m kp cps NoTips now fresh (height (header tip) + 1) tip db))), db1)"
    and "get_secret_for_public_nonce (next_nonce (header tip)) db1 = Inr sec"
proof -
  have "add_i64 (height (header tip)) 1 = Some (height (header tip) + 1)" using assms(3,4) by (simp add: add_i64_def)
  then show "wrap_message_in_envelope_for_user_by_key c m kp cps (Some tip) NoTips now fresh db =
    Some (Inr (snd (sign_with c kp sec (unsigned_child c m kp cps NoTips now fresh (height (header tip) + 1) tip db))), db1)"
    using assms(1,2) conjunct1 [OF save_nonce_Inr [OF assms(2)]]
    by (simp add: wrap_message_in_envelope_for_user_by_key_def Let_def unsigned_child_def sign_with_result)
  have "\<exists>ns. message_nonces db1 = message_nonces db @ ns" using assms(2)
    by (auto simp: save_nonce_for_user_by_key_def Let_def split: if_splits)
  then show "get_secret_for_public_nonce (next_nonce (header tip)) db1 = Inr sec" using assms(1)
    by (auto simp: get_secret_for_public_nonce_def find_append split: option.splits)
qed

section \<open>A contradiction gives away the key\<close>

lemma tip_is_stored:
  assumes "store_ok c db" and "get_tip_for_user_by_key c (public_key c kp) db = Inr (Authenticated tip)"
  shows "tip_stored c kp tip db" and "0 \<le> height (header tip)"
proof -
  obtain p u where p: "find_user db (public_key c kp) = Some u" "p \<in> set (messages db)" "body p = (header tip, msg tip)"
    "row_hash p = canonicalized_hash_ref c tip" "row_height p = height (header tip)"
    by (rule tip_row [OF assms]) blast
  then show "tip_stored c kp tip db" by (auto simp: tip_stored_def)
  show "0 \<le> height (header tip)"
    using db_okD(3) [OF store_okD(1) [OF assms(1)] p(2)] p(5) by (auto simp: row_check_def)
qed

lemma tip_stored_frame:
  "messages db' = messages db \<Longrightarrow> db_users db' = db_users db \<Longrightarrow> tip_stored c kp tip db' = tip_stored c kp tip db"
  by (simp add: tip_stored_def find_user_def)

text \<open>Pushing one message of a contradiction.\<close>

lemma push_one:
  assumes crypto: "crypto_ok c" and ok: "store_ok c db" and tip: "tip_stored c kp tip db"
    and sec: "get_secret_for_public_nonce (next_nonce (header tip)) db = Inr sec"
    and save: "save_nonce_for_user_by_key c fresh (public_key c kp) db = (Inr pub, db1)"
    and h: "0 \<le> height (header tip)" "height (header tip) < 2 ^ 63 - 1"
    and env: "env = snd (sign_with c kp sec (unsigned_child c m kp (Some cps) NoTips now fresh (height (header tip) + 1) tip db0))"
    and new: "\<not> message_exists (canonicalized_hash_ref c env) db"
  obtains db' where "push_equivocation c kp cps tip ((m, now, fresh) # ds) db = push_equivocation c kp cps tip ds db'"
    "store_ok c db'" "tip_stored c kp tip db'" "get_secret_for_public_nonce (next_nonce (header tip)) db' = Inr sec"
    "message_exists (canonicalized_hash_ref c env) db'" "\<forall>h. message_exists h db \<longrightarrow> message_exists h db'"
    "\<forall>h. h \<noteq> canonicalized_hash_ref c env \<longrightarrow> \<not> message_exists h db \<longrightarrow> \<not> message_exists h db'"
    "private_keys db' = private_keys db" "message_nonces db' = message_nonces db1"
proof -
  have db1: "db1 = snd (save_nonce_for_user_by_key c fresh (public_key c kp) db)" using save_nonce_Inr [OF save] by blast
  have env': "env = snd (sign_with c kp sec (unsigned_child c m kp (Some cps) NoTips now fresh (height (header tip) + 1) tip db))"
    unfolding env by (simp add: unsigned_child_def collect_tips_def)
  note w = wrap_child(1) [where m = m and cps = "Some cps" and now = now, OF sec save h, folded env']
  have same: "messages db1 = messages db" "db_users db1 = db_users db" by (simp_all add: db1)
  have keys: "private_keys db1 = private_keys db" by (simp add: db1 save_nonce_for_user_by_key_def Let_def)
  have f: "find_hash db1 = find_hash db" by (simp add: fun_eq_iff find_hash_def same(1))
  have e: "message_exists h db1 = message_exists h db" for h by (simp add: message_exists_def f)
  have new1: "find_hash db1 (canonicalized_hash_ref c env) = None" using new by (simp add: message_exists_def f)
  have tip1: "tip_stored c kp tip db1" using tip tip_stored_frame [OF same] by simp
  have ok1: "store_ok c db1" unfolding db1 by (rule store_ok_nonce [OF ok])
  obtain db' where i: "try_insert_authenticated_envelope c now False (Authenticated env) db1 = Some (Inr (), db')"
    "store_ok c db'" "tip_stored c kp tip db'" "message_exists (canonicalized_hash_ref c env) db'"
    "\<forall>h. message_exists h db1 \<longrightarrow> message_exists h db'"
    "\<forall>h. h \<noteq> canonicalized_hash_ref c env \<longrightarrow> \<not> message_exists h db1 \<longrightarrow> \<not> message_exists h db'"
    "private_keys db' = private_keys db1" "message_nonces db' = message_nonces db1"
    by (rule child_inserted [where t = now, OF ok1 tip1 env new1])
  have "self_authenticate c env = Inr (Authenticated env)" unfolding env
    by (rule authenticate_signed [OF crypto]) (use h in \<open>simp_all add: unsigned_child_def new_envelope_def check_ancestors_def\<close>)
  then have "push_equivocation c kp cps tip ((m, now, fresh) # ds) db = push_equivocation c kp cps tip ds db'"
    by (simp add: w i(1))
  moreover have "get_secret_for_public_nonce (next_nonce (header tip)) db' = Inr sec"
    using wrap_child(2) [OF sec save h] i(8) by (simp add: get_secret_for_public_nonce_def)
  ultimately show ?thesis using that i(2-8) e keys by metis
qed

text \<open>C40: Pushing a contradiction gives away the key. When the owner of a node pushes two messages as a contradiction,
  both are stored as children of the tip of his chain, at the same height, and the litigator's
  extraction gets his secret key from the two, whenever their challenges differ by a unit of the field. (Hashes
  that stored messages have already, and nonces that are stored, are excluded.)\<close>

theorem equivocation_publishes_the_key:
  assumes "crypto_ok c" and "nonce_lib_ok l" and "schnorr_ok c l evn" and "stored c db"
    and "bt_get (get_keymap db) (push_key q) = Some kp" and "equivocate q" and "as_array (push_msg q) = Some [m1, m2]"
    and "get_tip_for_user_by_key c (public_key c kp) db = Inr (Authenticated tip)" and "height (header tip) < 2 ^ 63 - 1"
    and "get_secret_for_public_nonce (next_nonce (header tip)) db = Inr sec"
    and "save_nonce_for_user_by_key c f2 (public_key c kp) db = (Inr p2, db2)"
    and "save_nonce_for_user_by_key c f1 (public_key c kp) db2 = (Inr p1, db1)"
    and "u1 = unsigned_child c m1 kp (Some cps) NoTips t1 f1 (height (header tip) + 1) tip db"
    and "u2 = unsigned_child c m2 kp (Some cps) NoTips t2 f2 (height (header tip) + 1) tip db"
    and "e1 = snd (sign_with c kp sec u1)" and "e2 = snd (sign_with c kp sec u2)"
    and "\<not> message_exists (canonicalized_hash_ref c e1) db" and "\<not> message_exists (canonicalized_hash_ref c e2) db"
    and "canonicalized_hash_ref c e1 \<noteq> canonicalized_hash_ref c e2"
    and "gcd (challenge l (serialize_key l (public_key c (secret sec))) (public_key c kp) (signature_digest_mut c u1) -
        challenge l (serialize_key l (public_key c (secret sec))) (public_key c kp) (signature_digest_mut c u2)) field = 1"
  shows "\<exists>db'. push_message_dangerous c as_array cps q (t2, f2) (t1, f1) draws db = Some (Inr (), db') \<and>
    message_exists (canonicalized_hash_ref c e1) db' \<and> message_exists (canonicalized_hash_ref c e2) db' \<and>
    height (header e1) = height (header e2) \<and> get_genesis_hash c e1 = get_genesis_hash c e2 \<and>
    extract_sk_from_envelopes c l (Authenticated e1) (Authenticated e2) = Some (Some (evn kp)) \<and>
    public_key c (evn kp) = public_key c kp"
proof -
  have ok: "store_ok c db" by (rule stored_ok [OF assms(4)])
  note t = tip_is_stored [OF ok assms(8)]
  obtain db3 where a: "push_equivocation c kp cps tip [(m2, t2, f2), (m1, t1, f1)] db = push_equivocation c kp cps tip [(m1, t1, f1)] db3"
    "store_ok c db3" "tip_stored c kp tip db3" "get_secret_for_public_nonce (next_nonce (header tip)) db3 = Inr sec"
    "message_exists (canonicalized_hash_ref c e2) db3" "\<forall>h. message_exists h db \<longrightarrow> message_exists h db3"
    "\<forall>h. h \<noteq> canonicalized_hash_ref c e2 \<longrightarrow> \<not> message_exists h db \<longrightarrow> \<not> message_exists h db3"
    "private_keys db3 = private_keys db" "message_nonces db3 = message_nonces db2"
    by (rule push_one [OF assms(1) ok t(1) assms(10,11) t(2) assms(9) assms(16) [unfolded assms(14)] assms(18), where ds = "[(m1, t1, f1)]"])
  have "private_keys db2 = private_keys db" using save_nonce_Inr [OF assms(11)] by (auto simp: save_nonce_for_user_by_key_def Let_def)
  then have "fst (save_nonce_for_user_by_key c f1 (public_key c kp) db3) = Inr p1" using assms(12) a(8,9)
    by (auto simp: save_nonce_for_user_by_key_def Let_def split: if_splits)
  then obtain db4 where save: "save_nonce_for_user_by_key c f1 (public_key c kp) db3 = (Inr p1, db4)" by (metis prod.collapse)
  have n1: "\<not> message_exists (canonicalized_hash_ref c e1) db3" using a(7) assms(17,19) by blast
  obtain db5 where b: "push_equivocation c kp cps tip [(m1, t1, f1)] db3 = push_equivocation c kp cps tip [] db5"
    "message_exists (canonicalized_hash_ref c e1) db5" "\<forall>h. message_exists h db3 \<longrightarrow> message_exists h db5"
    by (rule push_one [OF assms(1) a(2,3,4) save t(2) assms(9) assms(15) [unfolded assms(13)] n1, where ds = "[]"]) blast
  have "push_message_dangerous c as_array cps q (t2, f2) (t1, f1) draws db = Some (Inr (), db5)"
    using a(1) b(1) assms(5-8) by (simp add: push_message_dangerous_def)
  moreover have "hdr_key (header u1) = public_key c kp" "hdr_key (header u2) = public_key c kp"
    by (simp_all add: assms(13,14) unsigned_child_def new_envelope_def)
  from extract_sk_signed [OF assms(1-3) this assms(20)]
  have "extract_sk_from_envelopes c l (Authenticated e1) (Authenticated e2) = Some (Some (evn kp))" by (simp add: assms(15,16))
  moreover have "height (header e1) = height (header e2)" "get_genesis_hash c e1 = get_genesis_hash c e2"
    by (simp_all add: assms(13-16) sign_fields(1) unsigned_child_def new_envelope_def get_genesis_hash_def)
  moreover have "public_key c (evn kp) = public_key c kp" using assms(3) by (simp add: schnorr_ok_def)
  ultimately show ?thesis using a(5) b(2,3) by blast
qed

text \<open>The owner of the key 3, whose chain has its genesis only, pushes two messages of different lengths.\<close>

definition sx_genesis :: "string GenericEnvelope" where
  "sx_genesis = snd (sign_with schnorr_crypto 3 (PrecomittedNonce 7)
     (new_envelope schnorr_crypto (toy_header\<lparr>next_nonce := PrecomittedPublicNonce (public_key schnorr_crypto 9)\<rparr>) ''g''))"

definition sx_keys :: "string MsgDB" where
  "sx_keys = snd (save_nonce_for_user_by_key schnorr_crypto (PrecomittedNonce 9) (public_key schnorr_crypto 3)
     (snd (save_keypair (public_key schnorr_crypto 3) 3 empty_db)))"

definition sx_db :: "string MsgDB" where
  "sx_db = (case insert_user_by_genesis_envelope schnorr_crypto 5 ''ann'' (Authenticated sx_genesis) sx_keys of
     None \<Rightarrow> empty_db | Some (_, db) \<Rightarrow> db)"

definition sx_push :: "string PushMsg" where
  "sx_push = \<lparr>push_msg = ''hi/bye'', push_key = public_key schnorr_crypto 3, equivocate = True\<rparr>"

lemma sx_stored: "stored schnorr_crypto sx_db"
proof -
  have k: "stored schnorr_crypto sx_keys" unfolding sx_keys_def by (rule stored.nonce [OF stored.keypair [OF stored.start]])
  have p: "proper schnorr_crypto (Authenticated sx_genesis)" unfolding proper_def Authenticated.sel sx_genesis_def
    by (rule conjI, rule cache_ok_sign) (simp add: sign_fields(1) new_envelope_def check_ancestors_def toy_header_def)
  show ?thesis
  proof (cases "insert_user_by_genesis_envelope schnorr_crypto 5 ''ann'' (Authenticated sx_genesis) sx_keys")
    case None
    then show ?thesis by (simp add: sx_db_def stored.start)
  next
    case (Some rd)
    then obtain r db where "insert_user_by_genesis_envelope schnorr_crypto 5 ''ann'' (Authenticated sx_genesis) sx_keys = Some (r, db)"
      by (cases rd) simp
    then show ?thesis using stored.genesis [OF k p] by (simp add: sx_db_def)
  qed
qed

lemma sx_hash: "canonicalized_hash_ref schnorr_crypto (snd (sign_with schnorr_crypto k n e)) = CanonicalEnvelopeHash (length (msg e))"
  by (simp add: sign_with_result Let_def canonicalized_hash_ref_def compute_hash_def set_signature_def schnorr_crypto_def toy_crypto_def)

lemma sx_header: obtains sig where "header sx_genesis = toy_header\<lparr>next_nonce := PrecomittedPublicNonce (public_key schnorr_crypto 9),
    unsigned_part := \<lparr>signature = Some sig\<rparr>\<rparr>"
  using sign_fields(3) [of schnorr_crypto 3 "PrecomittedNonce 7"
      "new_envelope schnorr_crypto (toy_header\<lparr>next_nonce := PrecomittedPublicNonce (public_key schnorr_crypto 9)\<rparr>) ''g''"]
  by (auto simp: sx_genesis_def sign_fields(1) new_envelope_def)

lemma sx_key: "public_key schnorr_crypto 3 = toy_public_key 3"
  using field_bounds by (simp add: schnorr_crypto_def toy_even_def field_value)

lemma sx_shape:
  obtains r where "sx_db = empty_db\<lparr>messages := [r], db_users := [\<lparr>user_id = 1, user_nick = ''ann'', db_key = toy_public_key 3\<rparr>],
      private_keys := [(1, toy_public_key 3, 3)],
      message_nonces := [\<lparr>nonce_owner = Some 1, nonce_public = PrecomittedPublicNonce (public_key schnorr_crypto 9), nonce_secret = PrecomittedNonce 9\<rparr>]\<rparr>"
    "body r = (header sx_genesis, msg sx_genesis)" "row_hash r = CanonicalEnvelopeHash 1" "row_user r = 1" "row_height r = 0" "connected r"
proof -
  obtain sig where h: "header sx_genesis = toy_header\<lparr>next_nonce := PrecomittedPublicNonce (public_key schnorr_crypto 9),
    unsigned_part := \<lparr>signature = Some sig\<rparr>\<rparr>" by (rule sx_header)
  have g: "canonicalized_hash_ref schnorr_crypto sx_genesis = CanonicalEnvelopeHash 1"
    unfolding sx_genesis_def sx_hash by (simp add: new_envelope_def)
  have k: "sx_keys = empty_db\<lparr>private_keys := [(1, toy_public_key 3, 3)], message_nonces := [\<lparr>nonce_owner = Some 1,
      nonce_public = PrecomittedPublicNonce (public_key schnorr_crypto 9), nonce_secret = PrecomittedNonce 9\<rparr>]\<rparr>"
    by (simp add: sx_keys_def save_keypair_def save_nonce_for_user_by_key_def empty_db_def fresh_id_def sx_key Let_def)
  define u where "u = \<lparr>user_id = 1, user_nick = ''ann'', db_key = toy_public_key 3\<rparr>"
  define b where "b = insert_user ''ann'' (toy_public_key 3) sx_keys"
  have b: "b = sx_keys\<lparr>db_users := [u]\<rparr>" by (simp add: b_def u_def insert_user_def k find_user_def empty_db_def fresh_id_def)
  have f: "find_user b (toy_public_key 3) = Some u" "messages b = []" by (simp_all add: b find_user_def u_def k empty_db_def)
  have e: "find_hash b = (\<lambda>_. None)" by (simp add: f find_hash_def fun_eq_iff)
  define q where "q = new_row schnorr_crypto 5 sx_genesis sig (user_id u) b"
  have r: "body q = (header sx_genesis, msg sx_genesis)" "row_hash q = CanonicalEnvelopeHash 1" "row_user q = 1" "row_height q = 0"
    "connected q" "row_prev q = genesis_hash" "row_genesis q = CanonicalEnvelopeHash 1" "sent_time q = 5"
    by (simp_all add: q_def new_row_def Let_def h toy_header_def get_genesis_hash_def g u_def)
  have chk: "row_check q" using r by (simp add: row_check_def h toy_header_def)
  have "try_insert_authenticated_envelope_with_txn schnorr_crypto 5 (Authenticated sx_genesis) b = Some (Inr (), b\<lparr>messages := [q]\<rparr>)"
    using chk r(2,6) by (simp add: try_insert_authenticated_envelope_with_txn_def Let_def h toy_header_def envelope_signature_def
      f e q_def [symmetric] message_parents_def genesis_hash_def)
  then have d: "sx_db = b\<lparr>messages := [q]\<rparr>"
    by (simp add: sx_db_def insert_user_by_genesis_envelope_def Let_def h toy_header_def b_def)
  show ?thesis by (rule that [of q]) (simp_all add: r d b, simp add: k u_def)
qed


definition sx_split :: "string \<Rightarrow> string list option" where
  "sx_split m = Some [takeWhile (\<lambda>x. x \<noteq> CHR ''/'') m, tl (dropWhile (\<lambda>x. x \<noteq> CHR ''/'') m)]"

theorem equivocation_publishes_the_key_witness:
  "\<exists>db' e1 e2. push_message_dangerous schnorr_crypto sx_split [] sx_push (6, PrecomittedNonce 11) (7, PrecomittedNonce 13) [] sx_db = Some (Inr (), db') \<and>
     message_exists (CanonicalEnvelopeHash 2) db' \<and> message_exists (CanonicalEnvelopeHash 3) db' \<and>
     extract_sk_from_envelopes schnorr_crypto toy_nonce_lib (Authenticated e1) (Authenticated e2) = Some (Some 3)"
proof -
  obtain r where db: "sx_db = empty_db\<lparr>messages := [r], db_users := [\<lparr>user_id = 1, user_nick = ''ann'', db_key = toy_public_key 3\<rparr>],
      private_keys := [(1, toy_public_key 3, 3)],
      message_nonces := [\<lparr>nonce_owner = Some 1, nonce_public = PrecomittedPublicNonce (public_key schnorr_crypto 9), nonce_secret = PrecomittedNonce 9\<rparr>]\<rparr>"
    and r: "body r = (header sx_genesis, msg sx_genesis)" "row_hash r = CanonicalEnvelopeHash 1" "row_user r = 1" "row_height r = 0" "connected r"
    by (rule sx_shape)
  obtain sig where h: "header sx_genesis = toy_header\<lparr>next_nonce := PrecomittedPublicNonce (public_key schnorr_crypto 9),
    unsigned_part := \<lparr>signature = Some sig\<rparr>\<rparr>" by (rule sx_header)
  define db2 where "db2 = snd (save_nonce_for_user_by_key schnorr_crypto (PrecomittedNonce 11) (toy_public_key 3) sx_db)"
  define db1 where "db1 = snd (save_nonce_for_user_by_key schnorr_crypto (PrecomittedNonce 13) (toy_public_key 3) db2)"
  have s: "push_key sx_push = toy_public_key 3" "equivocate sx_push" "push_msg sx_push = ''hi/bye''"
    by (simp_all add: sx_push_def sx_key)
  have keys: "bt_get (get_keymap sx_db) (push_key sx_push) = Some 3" by (simp add: s db get_keymap_def bt_get_def)
  have split: "sx_split (push_msg sx_push) = Some [''hi'', ''bye'']" by (simp add: s sx_split_def)
  have "read_body schnorr_crypto r = Authenticated sx_genesis" unfolding sx_genesis_def by (rule read_signed) (use r(1) in \<open>simp add: sx_genesis_def\<close>)
  then have tip: "get_tip_for_user_by_key schnorr_crypto (public_key schnorr_crypto 3) sx_db = Inr (Authenticated sx_genesis)"
    by (simp add: get_tip_for_user_by_key_def rows_of_def find_user_def db sx_key r highest_def)
  have low: "height (header sx_genesis) < 2 ^ 63 - 1" by (simp add: h toy_header_def)
  have sec: "get_secret_for_public_nonce (next_nonce (header sx_genesis)) sx_db = Inr (PrecomittedNonce 9)"
    by (simp add: get_secret_for_public_nonce_def h db)
  have n2: "save_nonce_for_user_by_key schnorr_crypto (PrecomittedNonce 11) (public_key schnorr_crypto 3) sx_db =
      (Inr (PrecomittedPublicNonce (public_key schnorr_crypto 11)), db2)"
    by (simp add: db2_def sx_key save_nonce_for_user_by_key_def Let_def db)
  have n1: "save_nonce_for_user_by_key schnorr_crypto (PrecomittedNonce 13) (public_key schnorr_crypto 3) db2 =
      (Inr (PrecomittedPublicNonce (public_key schnorr_crypto 13)), db1)"
    by (simp add: db1_def db2_def sx_key save_nonce_for_user_by_key_def Let_def db)
  let ?u1 = "unsigned_child schnorr_crypto ''hi'' 3 (Some []) NoTips 7 (PrecomittedNonce 13) (height (header sx_genesis) + 1) sx_genesis sx_db"
  let ?u2 = "unsigned_child schnorr_crypto ''bye'' 3 (Some []) NoTips 6 (PrecomittedNonce 11) (height (header sx_genesis) + 1) sx_genesis sx_db"
  let ?e1 = "snd (sign_with schnorr_crypto 3 (PrecomittedNonce 9) ?u1)" and ?e2 = "snd (sign_with schnorr_crypto 3 (PrecomittedNonce 9) ?u2)"
  have hash: "canonicalized_hash_ref schnorr_crypto ?e1 = CanonicalEnvelopeHash 2" "canonicalized_hash_ref schnorr_crypto ?e2 = CanonicalEnvelopeHash 3"
    unfolding sx_hash by (simp_all add: unsigned_child_def new_envelope_def)
  have free: "\<not> message_exists (canonicalized_hash_ref schnorr_crypto ?e1) sx_db" "\<not> message_exists (canonicalized_hash_ref schnorr_crypto ?e2) sx_db"
    unfolding hash by (simp_all add: message_exists_def find_hash_def db r(2))
  have d: "signature_digest_mut schnorr_crypto (unsigned_child schnorr_crypto m k cps tg t f i tp db0) = length m" for m k cps tg t f i tp db0
    by (simp add: signature_digest_mut_def unsigned_child_def new_envelope_def canonicalized_hash_ref_def compute_hash_def
        schnorr_crypto_def toy_crypto_def set_signature_def)
  have e3: "toy_even 3 = 3" by (simp add: toy_even_def field_value)
  from equivocation_publishes_the_key [where as_array = sx_split and q = sx_push and ?u1.0 = ?u1 and ?u2.0 = ?u2 and ?e1.0 = ?e1 and
      ?e2.0 = ?e2 and draws = "[]", OF schnorr_crypto_ok toy_nonce_lib_ok schnorr_crypto_law sx_stored keys s(2) split tip low sec n2 n1
      refl refl refl refl free]
  show ?thesis unfolding hash by (simp add: toy_challenge d e3) blast
qed

end
