(* ===== verification/Spec2Isabelle.thy ===== *)
theory Spec2Isabelle
  imports Reachable Game_Laws Payout_Laws Move_Laws Message_Laws Sequencer_Props Game_Host_Props
    Equivocation_Laws Contract_Laws Store_Props Event_Log_Laws Lobby_Laws Litigator_Laws
    Attest_Laws Peer_Laws Control_Laws
begin

text \<open>
  A model of the Judica VM and what makes it correct. The program lets players play a game for bitcoin
  without a server that they must trust. Every player signs his moves into a chain of messages of his own;
  the nodes of the players spread these chains; a host signs the order in which the messages count into a
  chain of his own; everybody computes the game from the two; and a contract on the bitcoin blockchain
  replays the same messages to pay the players, or pays them back when the host is shown to have signed two
  things at one place.

  \<^bold>\<open>Parts, theories and sources.\<close> Sources are under \<open>src/common\<close> unless another root is named.

  \<^item> The game board (\<open>mine-with-friends-board/src\<close>): \<open>Identifiers\<close> (\<open>entity.rs\<close>, pointers), \<open>Tokens\<close>
    (\<open>tokens/mod.rs\<close>, \<open>tokens/instances\<close>), \<open>Nfts\<close> (\<open>nfts/mod.rs\<close>, \<open>nfts/sale.rs\<close>), \<open>Board\<close> (the state
    \<open>GameBoard\<close>), \<open>Swap\<close> (\<open>tokens/token_swap.rs\<close>), \<open>Plants\<close> (\<open>nfts/instances\<close>), \<open>Callbacks\<close>
    (\<open>callbacks.rs\<close>), \<open>Sanitize\<close> (\<open>sanitize.rs\<close>, \<open>game/game_move.rs\<close>), \<open>Game\<close> (set-up, clock and end of
    \<open>game/mod.rs\<close>) and \<open>Play\<close> (moves and queries of \<open>game/mod.rs\<close>).
  \<^item> Signed messages (\<open>attest-messages/src\<close>): \<open>Messages\<close>; the payloads of host and players
    (\<open>game-host-messages\<close>, \<open>game-player-messages\<close>) and the sequencer (\<open>game-sequencer/src\<close>): \<open>Sequencer\<close>.
  \<^item> The store of a node (\<open>attest-database/src\<close>, with its SQL): \<open>Database\<close> (tables, constraints, statements,
    queries) and \<open>Own_Chain\<close> (groups of chains, a node's own messages).
  \<^item> A node (\<open>attest/src\<close>): \<open>Attest_Protocol\<close> (handshake and session between two nodes), \<open>Peer_Services\<close>
    (connections, fetching, pushing) and \<open>Control_Server\<close> (what the owner of a node asks of it).
  \<^item> The host (\<open>game-host/src\<close>): \<open>Lobby\<close> (how a game comes about) and \<open>Game_Host\<close> (how it is sequenced).
  \<^item> The litigator (\<open>sapio-litigator/src\<close>, \<open>event-log/src\<close>, \<open>sapio-litigator-events\<close>, \<open>simps\<close>): \<open>Event_Log\<close>,
    \<open>Litigator_Events\<close> (with the events that the contract's continuations listen to), \<open>Litigator\<close> (the event loop of a contract), \<open>Extractors\<close> (what feeds it) and
    \<open>Equivocation\<close> (the secret key out of two signatures with one nonce).
  \<^item> The contract (\<open>src/contracts/modules/mining_game\<close>): \<open>Contract\<close>.

  \<^bold>\<open>How they interact.\<close> \<open>Control_Server\<close> and \<open>Lobby\<close> make envelopes with \<open>Own_Chain\<close> and store them with
  \<open>Database\<close>; \<open>Peer_Services\<close> runs requests of \<open>Attest_Protocol\<close> against the store of a peer and stores what
  comes back; \<open>Game_Host\<close> reads the players' envelopes of its store and signs batches of their hashes;
  \<open>Sequencer\<close> turns host batches and players' envelopes into moves, which \<open>Play\<close> takes; \<open>Extractors\<close> does
  that for the litigator and enters the end of the game, with a snapshot, in \<open>Event_Log\<close>; \<open>Litigator\<close>
  recompiles the contract with it and publishes its transactions as messages of \<open>Own_Chain\<close>; \<open>Contract\<close>
  replays the snapshot with \<open>Sequencer\<close> and \<open>Play\<close> and pays by the distribution of \<open>Game\<close>.

  \<^bold>\<open>How the code is modelled.\<close> \<open>Prelude\<close> has the conventions. A panic, and arithmetic that overflows in a
  debug build, is \<open>None\<close>; a \<open>Result\<close> is a sum with the error on the left; an unsigned integer is a natural
  number with its checked operations (\<open>add_w\<close>, \<open>sub_w\<close>, \<open>mul_w\<close>, \<open>div_w\<close> at a width), a signed one an
  integer with its bounds; a \<open>BTreeMap\<close> is a sorted association list, a \<open>HashMap\<close> an association list; a
  structure is a record with the fields of the code, an enum a datatype. Operations take the state and give
  it back, also when they fail, with what they have changed until then. Asynchronous tasks are step functions
  whose interleavings are lists or relations of steps (\<open>seq_step\<close>, \<open>session_step\<close>, \<open>event_loop_step\<close>,
  \<open>processor_turn\<close>, \<open>host_round\<close>, \<open>fetch_round\<close>). What a task draws at random, reads from a clock or gets
  from outside is an argument.

  Libraries are records of functions: \<open>Crypto\<close> (canonical JSON, SHA-256, secp256k1), \<open>NonceLib\<close> (big
  integers), \<open>AttestLib\<close> (JSON and hex), \<open>EventCodec\<close>, \<open>PsbtTools\<close> and the Sapio compiler. What is documented
  of them are the predicates \<open>crypto_ok\<close>, \<open>nonce_lib_ok\<close>, \<open>schnorr_ok\<close> and \<open>attest_lib_ok\<close>; every
  theorem that assumes one has a witness with a concrete instance. Canonical JSON is total: where the code
  panics because a value cannot be written, the model has no behaviour.

  \<^bold>\<open>Interfaces.\<close> \<open>ordered_map\<close> (a sorted map; interpreted on \<open>bt_put\<close> and its kin), \<open>id_source\<close> (fresh ids; on
  the allocator and on the board), \<open>ledger\<close> and \<open>multi_ledger\<close> (transfers that keep a supply; on a token, on
  the registry and on the board) and \<open>append_log\<close> (a log that only grows and a reader that resumes; on the
  event log).

  \<^bold>\<open>What the theorems show.\<close>

  \<^item> \<open>Invariant\<close>, \<open>Reachable\<close>: the invariant \<open>board_ok\<close> of every board that a game can reach, which every move,
    query and callback keeps, with the supply of every token. \<open>Swap\<close>, \<open>Swap_Books\<close>: a quote is the best one
    that keeps the constant product, and a trade books exactly the amounts quoted. \<open>Payout_Laws\<close>,
    \<open>Game_Laws\<close>, \<open>Setup_Laws\<close>, \<open>Move_Laws\<close>: payouts, the end of the game, its distribution, the limits of
    the set-up, the order of a player's moves, and that what sanitization accepts stays valid.
  \<^item> \<open>Message_Laws\<close>, \<open>Sequencer_Laws\<close>, \<open>Sequencer_Props\<close>: what signing and authenticating promise each
    other; what is sequenced offline is what the tasks sequence online, however they interleave.
  \<^item> \<open>Database_Laws\<close>, \<open>Store_Invariant\<close>, \<open>Store_Props\<close>: the invariant of every store that a node can have; what
    is connected does not depend on the order of arrival; a node's own chain grows and never forks.
  \<^item> \<open>Attest_Laws\<close>, \<open>Peer_Laws\<close>, \<open>Control_Laws\<close>: the handshake proves the service, sessions route answers to
    the askers, fetching catches up with a peer and pushing brings it up to date, and what an owner who signs
    a contradiction gives away.
  \<^item> \<open>Lobby_Laws\<close>, \<open>Game_Host_Laws\<close>, \<open>Game_Host_Props\<close>: games that the lobby sets up can be played, and the host
    sequences every chain in order, without a gap and with fair turns.
  \<^item> \<open>Equivocation_Laws\<close>, \<open>Event_Log_Laws\<close>, \<open>Litigator_Laws\<close>, \<open>Contract_Laws\<close>: a reused nonce gives the key;
    events are delivered once and in order; the contract keeps its address; a signed transaction is published
    once, unless a commit fails; and the contract pays by the end of the game that the litigator has seen, in the
    continuation that listens to its event.

  \<^bold>\<open>Bounds and fuel.\<close> \<open>grow\<close> (the recursive query that connects messages) has fuel for every triple of
  message, parent and genesis, which \<open>universe_card\<close> shows to be enough; \<open>retry_insert_authenticated_envelope_atomic\<close>
  has a list of draws for its turns, of which one is enough when the tip has no stored child (\<open>Store_Props\<close>);
  \<open>fetch_rounds\<close> takes a number of rounds, and the length of the chain is enough (\<open>Peer_Laws\<close>). All other recursion is on data.

  \<^bold>\<open>Not modelled.\<close> Glue without logic of its own: HTTP routing, headers and clients, web socket adaptors, Tor,
  command lines and configuration, opening of database files and pools of connections, start-up and joining
  of tasks, timers and the shutdown flags. Library code: JSON and its schemas, CBOR, SQLite beside the
  statements of the repository, the WASM host of compiled contracts, templates and clauses of Sapio, PSBTs,
  bitcoind. Tests. The user interface (\<open>src/ux\<close>): the TypeScript, which shows what the Rust code gives it, and the
  Rust shell around it (\<open>src/ux/src-tauri\<close>), whose commands pass requests on to the parts above. Two tasks of a
  node that fetch from two peers share the set of hashes in flight; one round takes that set as an argument
  (\<open>fetch_round\<close>), many rounds are modelled for a task that fetches alone (\<open>fetch_rounds\<close>). Sums of heights and times that only an attacker could bring near the limits of 64 bits are
  checked operations and panic in the model as they do in the code.
\<close>

end
